(* ===== verification/Prelude.thy ===== *)
theory Prelude
  imports Complex_Main "HOL-Library.Word" "HOL-Library.Sublist"
begin

text \<open>
  Shared vocabulary of the development: what the Go and JavaScript sources use of their
  languages.  Go strings and byte slices are \<^typ>\<open>string\<close> (a list of bytes); Go errors are
  values of \<open>gerror\<close>; a Go function that may fail, or panic, and that changes state is a function
  \<open>'s \<Rightarrow> 'a gores \<times> 's\<close>, composed with \<open>bindS\<close>.  The string functions are the parts of the
  packages \<open>strings\<close> and \<open>strconv\<close> the sources call; separators are single bytes, as in every
  call of the sources.
\<close>

named_theorems gosimps "unfolding rules for the Go state-and-error plumbing"

section \<open>Results, errors and panics\<close>

datatype gerror =
    GErr string            \<comment> \<open>\<open>errors.New\<close>, \<open>fmt.Errorf\<close>: the message\<close>
  | KnownErr string string \<comment> \<open>\<open>manager.codedError\<close>: code and message\<close>

datatype 'a gores =
    Ok 'a
  | Err gerror
  | Panic string

type_synonym ('s, 'a) gofun = "'s \<Rightarrow> 'a gores \<times> 's"

definition retS :: "'a \<Rightarrow> ('s, 'a) gofun" where
  "retS a s = (Ok a, s)"

definition errS :: "gerror \<Rightarrow> ('s, 'a) gofun" where
  "errS e s = (Err e, s)"

definition panicS :: "string \<Rightarrow> ('s, 'a) gofun" where
  "panicS p s = (Panic p, s)"

definition bindS :: "('s, 'a) gofun \<Rightarrow> ('a \<Rightarrow> ('s, 'b) gofun) \<Rightarrow> ('s, 'b) gofun" where
  "bindS m f s =
     (case m s of
        (Ok a, s') \<Rightarrow> f a s'
      | (Err e, s') \<Rightarrow> (Err e, s')
      | (Panic p, s') \<Rightarrow> (Panic p, s'))"

definition liftR :: "'a gores \<Rightarrow> ('s, 'a) gofun" where
  "liftR r s = (r, s)"

fun map_err :: "(gerror \<Rightarrow> gerror) \<Rightarrow> 'a gores \<Rightarrow> 'a gores" where
  "map_err f (Ok a) = Ok a"
| "map_err f (Err e) = Err (f e)"
| "map_err f (Panic p) = Panic p"

fun is_ok :: "'a gores \<Rightarrow> bool" where
  "is_ok (Ok a) = True"
| "is_ok (Err e) = False"
| "is_ok (Panic p) = False"

lemma bindS_ok: "m s = (Ok a, s') \<Longrightarrow> bindS m f s = f a s'"
  by (simp add: bindS_def)

lemma bindS_err: "m s = (Err e, s') \<Longrightarrow> bindS m f s = (Err e, s')"
  by (simp add: bindS_def)

lemma bindS_panic: "m s = (Panic p, s') \<Longrightarrow> bindS m f s = (Panic p, s')"
  by (simp add: bindS_def)

lemma bindS_retS [simp]: "bindS (retS a) f s = f a s"
  by (simp add: bindS_def retS_def)

lemma bindS_errS [simp]: "bindS (errS e) f s = (Err e, s)"
  by (simp add: bindS_def errS_def)

lemma bindS_panicS [simp]: "bindS (panicS p) f s = (Panic p, s)"
  by (simp add: bindS_def panicS_def)

lemma bindS_Ok_iff:
  "bindS m f s = (Ok b, t) \<longleftrightarrow> (\<exists>a s'. m s = (Ok a, s') \<and> f a s' = (Ok b, t))"
  by (auto simp: bindS_def split: prod.splits gores.splits)

declare bindS_ok [gosimps] bindS_err [gosimps] bindS_panic [gosimps]
declare retS_def [gosimps] errS_def [gosimps] panicS_def [gosimps] liftR_def [gosimps]

section \<open>Machine integers\<close>

text \<open>Go's \<open>int\<close> and \<open>int64\<close> are 64 bits wide; \<open>i64\<close> wraps an unbounded result around.\<close>

definition i64 :: "int \<Rightarrow> int" where
  "i64 x = sint (word_of_int x :: 64 word)"

definition u64 :: "int \<Rightarrow> int" where
  "u64 x = uint (word_of_int x :: 64 word)"

lemma i64_eq: "i64 x = (x + 2 ^ 63) mod 2 ^ 64 - 2 ^ 63"
proof -
  have "i64 x = signed_take_bit 63 x"
    by (simp add: i64_def signed_of_int)
  also have "\<dots> = take_bit 64 (x + 2 ^ 63) - 2 ^ 63"
    by (simp add: signed_take_bit_eq_take_bit_shift)
  finally show ?thesis
    by (simp add: take_bit_eq_mod)
qed

lemma i64_id: "- (2 ^ 63) \<le> x \<Longrightarrow> x < 2 ^ 63 \<Longrightarrow> i64 x = x"
  by (simp add: i64_eq)

lemma i64_bounds: "- (2 ^ 63) \<le> i64 x" "i64 x < 2 ^ 63"
proof -
  have "0 \<le> (x + 2 ^ 63) mod 2 ^ 64" "(x + 2 ^ 63) mod 2 ^ 64 < 2 ^ 64"
    by simp_all
  then show "- (2 ^ 63) \<le> i64 x" "i64 x < 2 ^ 63"
    by (simp_all add: i64_eq)
qed

lemma u64_eq: "u64 x = x mod 2 ^ 64"
  by (simp add: u64_def uint_word_of_int)

lemma u64_id: "0 \<le> x \<Longrightarrow> x < 2 ^ 64 \<Longrightarrow> u64 x = x"
  by (simp add: u64_eq)

text \<open>Go's integer division and remainder truncate towards zero.\<close>

definition go_div :: "int \<Rightarrow> int \<Rightarrow> int" where
  "go_div a b = sgn a * sgn b * (\<bar>a\<bar> div \<bar>b\<bar>)"

definition go_rem :: "int \<Rightarrow> int \<Rightarrow> int" where
  "go_rem a b = a - go_div a b * b"

lemma go_div_nonneg [simp]: "0 \<le> a \<Longrightarrow> 0 < b \<Longrightarrow> go_div a b = a div b"
  by (cases "a = 0") (simp_all add: go_div_def)

lemma go_rem_nonneg [simp]: "0 \<le> a \<Longrightarrow> 0 < b \<Longrightarrow> go_rem a b = a mod b"
  by (simp add: go_rem_def minus_div_mult_eq_mod)

section \<open>Strings\<close>

text \<open>\<open>strings.HasPrefix\<close>, \<open>strings.HasSuffix\<close>, \<open>strings.TrimSuffix\<close>.\<close>

fun has_prefix :: "string \<Rightarrow> string \<Rightarrow> bool" where
  "has_prefix s [] = True"
| "has_prefix [] (p # ps) = False"
| "has_prefix (c # cs) (p # ps) = (c = p \<and> has_prefix cs ps)"

definition has_suffix :: "string \<Rightarrow> string \<Rightarrow> bool" where
  "has_suffix s suf = has_prefix (rev s) (rev suf)"

definition trim_suffix :: "string \<Rightarrow> string \<Rightarrow> string" where
  "trim_suffix s suf = (if has_suffix s suf then take (length s - length suf) s else s)"

text \<open>\<open>strings.Index\<close>: the first position where the substring starts, or \<open>-1\<close>.\<close>

fun str_index_from :: "int \<Rightarrow> string \<Rightarrow> string \<Rightarrow> int" where
  "str_index_from i [] p = (if p = [] then i else - 1)"
| "str_index_from i (c # cs) p =
     (if has_prefix (c # cs) p then i else str_index_from (i + 1) cs p)"

definition str_index :: "string \<Rightarrow> string \<Rightarrow> int" where
  "str_index s p = str_index_from 0 s p"

text \<open>\<open>strings.Split\<close> at a one-byte separator, \<open>strings.Join\<close>.\<close>

fun split_on :: "char \<Rightarrow> string \<Rightarrow> string list" where
  "split_on d [] = [[]]"
| "split_on d (c # cs) =
     (if c = d then [] # split_on d cs
      else (case split_on d cs of [] \<Rightarrow> [[c]] | w # ws \<Rightarrow> (c # w) # ws))"

fun join_with :: "string \<Rightarrow> string list \<Rightarrow> string" where
  "join_with d [] = []"
| "join_with d [w] = w"
| "join_with d (w # v # ws) = w @ d @ join_with d (v # ws)"

text \<open>\<open>strings.TrimSpace\<close>, for the white space of the ASCII range.\<close>

definition is_space :: "char \<Rightarrow> bool" where
  "is_space c \<longleftrightarrow> c \<in> {CHR '' '', CHR 0x09, CHR 0x0A, CHR 0x0B, CHR 0x0C, CHR 0x0D}"

definition trim_space :: "string \<Rightarrow> string" where
  "trim_space s = rev (dropWhile is_space (rev (dropWhile is_space s)))"

lemma has_prefix_iff: "has_prefix s p \<longleftrightarrow> (\<exists>t. s = p @ t)"
  by (induction s p rule: has_prefix.induct) auto

lemma has_prefix_append [simp]: "has_prefix (p @ s) p"
  by (auto simp: has_prefix_iff)

lemma has_suffix_iff: "has_suffix s p \<longleftrightarrow> (\<exists>t. s = t @ p)"
proof
  assume "has_suffix s p"
  then obtain t where "rev s = rev p @ t"
    by (auto simp: has_suffix_def has_prefix_iff)
  then have "s = rev t @ p"
    by (metis rev_append rev_rev_ident)
  then show "\<exists>t. s = t @ p" ..
next
  assume "\<exists>t. s = t @ p"
  then show "has_suffix s p"
    by (auto simp: has_suffix_def)
qed

lemma trim_suffix_append [simp]: "trim_suffix (s @ p) p = s"
  by (auto simp: trim_suffix_def has_suffix_iff)

lemma str_index_from_ge: "str_index_from i s p = - 1 \<or> i \<le> str_index_from i s p"
proof (induction s arbitrary: i)
  case (Cons c s)
  from Cons [of "i + 1"] show ?case by auto
qed simp

lemma str_index_from_found:
  "0 \<le> i \<Longrightarrow> str_index_from i s p \<noteq> - 1 \<longleftrightarrow> (\<exists>u v. s = u @ p @ v)"
proof (induction s arbitrary: i)
  case Nil
  then show ?case by auto
next
  case (Cons c s)
  then have IH: "str_index_from (i + 1) s p \<noteq> - 1 \<longleftrightarrow> (\<exists>u v. s = u @ p @ v)"
    by simp
  show ?case
  proof (cases "has_prefix (c # s) p")
    case True
    then obtain v where "c # s = [] @ p @ v"
      by (auto simp: has_prefix_iff)
    with True Cons.prems show ?thesis
      by (metis add.inverse_neutral neg_0_le_iff_le not_one_le_zero str_index_from.simps(2)
          le_minus_one_simps(3))
  next
    case False
    then have "(\<exists>u v. c # s = u @ p @ v) \<longleftrightarrow> (\<exists>u v. s = u @ p @ v)"
      by (metis append_Cons append_self_conv2 has_prefix_append neq_Nil_conv list.inject)
    with IH False show ?thesis by simp
  qed
qed

text \<open>The test \<open>strings.Index(s, p) > 0\<close> of the sources: \<open>p\<close> occurs, but not as a prefix.\<close>

lemma str_index_pos_iff:
  "p \<noteq> [] \<Longrightarrow> 0 < str_index s p \<longleftrightarrow> \<not> has_prefix s p \<and> (\<exists>u v. s = u @ p @ v)"
proof (cases s)
  case Nil
  assume "p \<noteq> []"
  with Nil show ?thesis by (auto simp: str_index_def)
next
  case (Cons c cs)
  show ?thesis
  proof (cases "has_prefix s p")
    case True
    with Cons show ?thesis by (simp add: str_index_def)
  next
    case False
    have "str_index s p = str_index_from 1 cs p"
      using Cons False by (simp add: str_index_def)
    moreover have "str_index_from 0 s p \<noteq> - 1 \<longleftrightarrow> (\<exists>u v. s = u @ p @ v)"
      by (rule str_index_from_found) simp
    ultimately show ?thesis
      using False str_index_from_ge [of 1 cs p] by (auto simp: str_index_def)
  qed
qed

lemma split_on_ne [simp]: "split_on d s \<noteq> []"
  by (induction s) (auto split: list.splits)

lemma split_on_nosep [simp]: "d \<notin> set s \<Longrightarrow> split_on d s = [s]"
  by (induction s) auto

lemma split_on_append_sep:
  "d \<notin> set w \<Longrightarrow> split_on d (w @ d # s) = w # split_on d s"
  by (induction w) auto

lemma split_on_join:
  "ws \<noteq> [] \<Longrightarrow> (\<And>w. w \<in> set ws \<Longrightarrow> d \<notin> set w) \<Longrightarrow> split_on d (join_with [d] ws) = ws"
proof (induction "[d]" ws rule: join_with.induct)
  case (3 w v ws)
  then show ?case by (simp add: split_on_append_sep)
qed simp_all

lemma split_on_words_nosep: "w \<in> set (split_on d s) \<Longrightarrow> d \<notin> set w"
  by (induction s arbitrary: w) (auto split: if_splits list.splits)

lemma trim_space_id:
  "s \<noteq> [] \<Longrightarrow> \<not> is_space (hd s) \<Longrightarrow> \<not> is_space (last s) \<Longrightarrow> trim_space s = s"
proof -
  assume s: "s \<noteq> []" "\<not> is_space (hd s)" "\<not> is_space (last s)"
  have "dropWhile is_space s = s"
    using s by (cases s) auto
  moreover have "dropWhile is_space (rev s) = rev s"
    using s by (cases s rule: rev_cases) auto
  ultimately show ?thesis
    by (simp add: trim_space_def)
qed

lemma trim_space_ends:
  "trim_space s \<noteq> [] \<Longrightarrow> \<not> is_space (hd (trim_space s)) \<and> \<not> is_space (last (trim_space s))"
proof -
  define t where "t = dropWhile is_space s"
  define u where "u = dropWhile is_space (rev t)"
  assume "trim_space s \<noteq> []"
  then have u: "u \<noteq> []"
    by (simp add: trim_space_def t_def u_def)
  have "\<not> is_space (hd u)"
    using u unfolding u_def by (rule hd_dropWhile)
  moreover obtain w where w: "rev t = w @ u"
    unfolding u_def by (metis takeWhile_dropWhile_id)
  have "t = rev u @ rev w"
    using w by (metis rev_append rev_rev_ident)
  then have "t \<noteq> []" "hd t = last u"
    using u by (auto simp: hd_append hd_rev)
  moreover have "t \<noteq> [] \<Longrightarrow> \<not> is_space (hd t)"
    unfolding t_def by (rule hd_dropWhile)
  ultimately show ?thesis
    by (simp add: trim_space_def flip: t_def u_def) (metis hd_rev last_rev)
qed

section \<open>Decimal numbers\<close>

definition is_digit :: "char \<Rightarrow> bool" where
  "is_digit c \<longleftrightarrow> 48 \<le> (of_char c :: nat) \<and> (of_char c :: nat) \<le> 57"

definition digit_val :: "char \<Rightarrow> nat" where
  "digit_val c = of_char c - 48"

definition digit_char :: "nat \<Rightarrow> char" where
  "digit_char d = ''0123456789'' ! d"

text \<open>\<open>strconv.FormatUint\<close>, \<open>strconv.Itoa\<close> and JavaScript's string conversion of integers.\<close>

fun show_nat :: "nat \<Rightarrow> string" where
  "show_nat n = (if n < 10 then [digit_char n] else show_nat (n div 10) @ [digit_char (n mod 10)])"

declare show_nat.simps [simp del]

definition show_int :: "int \<Rightarrow> string" where
  "show_int i = (if i < 0 then CHR ''-'' # show_nat (nat (- i)) else show_nat (nat i))"

text \<open>A number in exactly \<open>w\<close> digits, zero padded.\<close>

fun show_fixed :: "nat \<Rightarrow> nat \<Rightarrow> string" where
  "show_fixed 0 n = []"
| "show_fixed (Suc w) n = show_fixed w (n div 10) @ [digit_char (n mod 10)]"

definition read_nat :: "string \<Rightarrow> nat" where
  "read_nat s = foldl (\<lambda>a c. 10 * a + digit_val c) 0 s"

text \<open>\<open>strconv.Atoi\<close>: an optional sign and decimal digits, in the range of \<open>int\<close>.\<close>

definition atoi :: "string \<Rightarrow> int gores" where
  "atoi s =
     (let neg = (s \<noteq> [] \<and> hd s = CHR ''-'');
          ds = (if s \<noteq> [] \<and> (hd s = CHR ''-'' \<or> hd s = CHR ''+'') then tl s else s);
          v = (if neg then - int (read_nat ds) else int (read_nat ds))
      in if ds = [] \<or> \<not> list_all is_digit ds
         then Err (GErr (''strconv.Atoi: parsing '' @ [CHR 0x22] @ s @ [CHR 0x22] @ '': invalid syntax''))
         else if v < - (2 ^ 63) \<or> 2 ^ 63 \<le> v
         then Err (GErr (''strconv.Atoi: parsing '' @ [CHR 0x22] @ s @ [CHR 0x22] @ '': value out of range''))
         else Ok v)"

lemma less_ten_cases: "(d::nat) < 10 \<Longrightarrow>
  d = 0 \<or> d = 1 \<or> d = 2 \<or> d = 3 \<or> d = 4 \<or> d = 5 \<or> d = 6 \<or> d = 7 \<or> d = 8 \<or> d = 9"
  by arith

lemma digit_val_char [simp]: "d < 10 \<Longrightarrow> digit_val (digit_char d) = d"
  by (drule less_ten_cases) (auto simp: digit_val_def digit_char_def)

lemma is_digit_char [simp]: "d < 10 \<Longrightarrow> is_digit (digit_char d)"
  by (drule less_ten_cases) (auto simp: is_digit_def digit_char_def)

lemma digit_val_less: "is_digit c \<Longrightarrow> digit_val c < 10"
  by (auto simp: is_digit_def digit_val_def)

lemma digit_char_val [simp]: "is_digit c \<Longrightarrow> digit_char (digit_val c) = c"
proof -
  assume d: "is_digit c"
  then have "digit_val (digit_char (digit_val c)) = digit_val c"
    by (simp add: digit_val_less)
  moreover have "is_digit (digit_char (digit_val c))"
    using d by (simp add: digit_val_less)
  ultimately have "(of_char (digit_char (digit_val c)) :: nat) = of_char c"
    using d unfolding is_digit_def digit_val_def by linarith
  then show ?thesis
    by (simp add: of_char_eq_iff)
qed

lemma read_nat_Nil [simp]: "read_nat [] = 0"
  by (simp add: read_nat_def)

lemma read_nat_snoc [simp]: "read_nat (s @ [c]) = 10 * read_nat s + digit_val c"
  by (simp add: read_nat_def)

lemma read_show_nat [simp]: "read_nat (show_nat n) = n"
proof (induction n rule: show_nat.induct)
  case (1 n)
  show ?case
  proof (cases "n < 10")
    case True
    then show ?thesis by (simp add: show_nat.simps [of n] read_nat_def)
  next
    case False
    with "1" show ?thesis by (simp add: show_nat.simps [of n])
  qed
qed

lemma show_nat_digits: "c \<in> set (show_nat n) \<Longrightarrow> is_digit c"
proof (induction n rule: show_nat.induct)
  case (1 n)
  then show ?case
    by (auto simp: show_nat.simps [of n] split: if_splits)
qed

lemma show_nat_ne [simp]: "show_nat n \<noteq> []"
  by (simp add: show_nat.simps [of n])

lemma show_nat_inj [simp]: "show_nat m = show_nat n \<longleftrightarrow> m = n"
  by (metis read_show_nat)

lemma is_digit_nonspecial:
  "\<not> is_digit CHR ''-''" "\<not> is_digit CHR ''+''" "\<not> is_digit CHR '',''" "\<not> is_digit CHR ''.''"
  "\<not> is_digit CHR ''|''" "\<not> is_digit CHR ''Z''" "\<not> is_digit CHR ''T''" "\<not> is_digit CHR '':''"
  by (simp_all add: is_digit_def)

lemma length_show_fixed [simp]: "length (show_fixed w n) = w"
  by (induction w arbitrary: n) auto

lemma show_fixed_digits: "c \<in> set (show_fixed w n) \<Longrightarrow> is_digit c"
  by (induction w arbitrary: n) auto

lemma read_show_fixed [simp]: "read_nat (show_fixed w n) = n mod 10 ^ w"
proof (induction w arbitrary: n)
  case (Suc w)
  have "10 * (n div 10 mod 10 ^ w) + n mod 10 = n mod (10 * 10 ^ w)"
    by (simp add: mod_mult2_eq)
  with Suc show ?case by simp
qed simp

lemma show_fixed_read:
  "list_all is_digit s \<Longrightarrow> show_fixed (length s) (read_nat s) = s"
  by (induction s rule: rev_induct) (auto simp: digit_val_less)

lemma hd_digit_show_nat: "is_digit (hd (show_nat n))"
  by (rule show_nat_digits [of _ n]) simp

lemma atoi_show_int:
  assumes "- (2 ^ 63) \<le> i" "i < 2 ^ 63"
  shows "atoi (show_int i) = Ok i"
proof -
  have ds: "list_all is_digit (show_nat k)" for k
    by (auto simp: list_all_iff intro: show_nat_digits)
  have "hd (show_nat k) \<noteq> CHR ''-''" "hd (show_nat k) \<noteq> CHR ''+''" for k
    using hd_digit_show_nat [of k] by (auto simp: is_digit_nonspecial)
  with assms ds show ?thesis
    by (auto simp: atoi_def show_int_def Let_def)
qed

end
