(* ===== verification/GoTime.thy ===== *)
theory GoTime
  imports Prelude "HOL-Library.Monad_Syntax"
begin

text \<open>
  Time as the sources use it: \<open>time.Time\<close> is the number of nanoseconds since the Unix epoch, an
  unbounded integer (a \<open>time.Time\<close> spans far more than the years a timestamp can name).
  \<open>Thens\<close> and \<open>ParseTime\<close> of \<open>src/util/util.go\<close> format and parse the layout
  \<open>time.RFC3339Nano\<close>; the civil calendar below is the one of Go's package \<open>time\<close>.  The round trip
  through the text is \<open>ParseTime_Thens\<close>.
\<close>

type_synonym time = int

abbreviation second :: int where "second \<equiv> 1000000000"

section \<open>The civil calendar\<close>

definition is_leap :: "int \<Rightarrow> bool" where
  "is_leap y \<longleftrightarrow> y mod 4 = 0 \<and> (y mod 100 \<noteq> 0 \<or> y mod 400 = 0)"

definition month_lengths :: "int \<Rightarrow> nat list" where
  "month_lengths y = [31, if is_leap y then 29 else 28, 31, 30, 31, 30, 31, 31, 30, 31, 30, 31]"

text \<open>Days from 1 January of year 1 to 1 January of year \<open>y\<close>.\<close>

definition days_before_year :: "int \<Rightarrow> int" where
  "days_before_year y = 365 * (y - 1) + (y - 1) div 4 - (y - 1) div 100 + (y - 1) div 400"

text \<open>Days since the Unix epoch of a civil date.\<close>

definition days_from_civil :: "int \<Rightarrow> nat \<Rightarrow> nat \<Rightarrow> int" where
  "days_from_civil y m d =
     days_before_year y + int (sum_list (take (m - 1) (month_lengths y))) + int d - 1 - 719162"

fun find_month :: "nat list \<Rightarrow> nat \<Rightarrow> nat \<Rightarrow> nat \<times> nat" where
  "find_month [] m d = (m, d)"
| "find_month (l # ls) m d = (if d < l then (m, d) else find_month ls (Suc m) (d - l))"

text \<open>
  \<open>Time.Date\<close>: peel off cycles of 400 years, centuries, cycles of four years and years, where the
  last century of 400 years and the last year of four are one day longer.
\<close>

definition year_yday :: "int \<Rightarrow> int \<times> int" where
  "year_yday n =
     (let d = n + 719162;
          n400 = d div 146097; d1 = d - 146097 * n400;
          c = d1 div 36524; n100 = c - c div 4; d2 = d1 - 36524 * n100;
          n4 = d2 div 1461; d3 = d2 - 1461 * n4;
          e = d3 div 365; n1 = e - e div 4; d4 = d3 - 365 * n1
      in (400 * n400 + 100 * n100 + 4 * n4 + n1 + 1, d4))"

definition civil_from_days :: "int \<Rightarrow> int \<times> nat \<times> nat" where
  "civil_from_days n =
     (case year_yday n of (y, yday) \<Rightarrow>
        (case find_month (month_lengths y) 1 (nat yday) of (m, d) \<Rightarrow> (y, m, Suc d)))"

lemma div_unique_bounds:
  "(k::int) * q \<le> x \<Longrightarrow> x < k * (q + 1) \<Longrightarrow> 0 < k \<Longrightarrow> x div k = q"
proof -
  assume a: "k * q \<le> x" "x < k * (q + 1)" "0 < k"
  have "x = k * q + (x - k * q)" "0 \<le> x - k * q" "x - k * q < k"
    using a by (simp_all add: algebra_simps)
  then show ?thesis
    by (metis a(3) div_mult_self4 div_pos_pos_trivial add.right_neutral add.commute
        less_irrefl mult.commute)
qed

lemma days_before_year_parts:
  assumes "0 \<le> b" "b \<le> 3" "0 \<le> c" "c \<le> 24" "0 \<le> e" "e \<le> 3"
  shows "days_before_year (400 * a + 100 * b + 4 * c + e + 1)
           = 146097 * a + 36524 * b + 1461 * c + 365 * e"
proof -
  have "(400 * a + 100 * b + 4 * c + e) div 4 = 100 * a + 25 * b + c"
    using assms by (intro div_unique_bounds) simp_all
  moreover have "(400 * a + 100 * b + 4 * c + e) div 100 = 4 * a + b"
    using assms by (intro div_unique_bounds) simp_all
  moreover have "(400 * a + 100 * b + 4 * c + e) div 400 = a"
    using assms by (intro div_unique_bounds) simp_all
  ultimately show ?thesis
    by (simp add: days_before_year_def)
qed

lemma is_leap_parts:
  assumes "0 \<le> b" "b \<le> 3" "0 \<le> c" "c \<le> 24" "0 \<le> e" "e \<le> 3"
  shows "is_leap (400 * a + 100 * b + 4 * c + e + 1) \<longleftrightarrow> e = 3 \<and> (c \<noteq> 24 \<or> b = 3)"
proof -
  let ?y = "400 * a + 100 * b + 4 * c + e + 1"
  have "?y = (e + 1) + 4 * (100 * a + 25 * b + c)" "?y = (4 * c + e + 1) + 100 * (4 * a + b)"
    "?y = (100 * b + 4 * c + e + 1) + 400 * a"
    by simp_all
  then have m: "?y mod 4 = (e + 1) mod 4" "?y mod 100 = (4 * c + e + 1) mod 100"
    "?y mod 400 = (100 * b + 4 * c + e + 1) mod 400"
    by (metis mod_mult_self2)+
  have "(e + 1) mod 4 = 0 \<longleftrightarrow> e = 3"
    using assms by (cases "e = 3") simp_all
  moreover have "(4 * c + e + 1) mod 100 = 0 \<longleftrightarrow> 4 * c + e = 99"
    using assms by (cases "4 * c + e = 99") simp_all
  moreover have "(100 * b + 4 * c + e + 1) mod 400 = 0 \<longleftrightarrow> 100 * b + 4 * c + e = 399"
    using assms by (cases "100 * b + 4 * c + e = 399") simp_all
  ultimately show ?thesis
    using assms unfolding is_leap_def m by auto
qed

text \<open>Four parts of length \<open>k\<close> of which the last may be one longer.\<close>

lemma peel_quarter:
  fixes x k :: int
  assumes "0 < k" "0 \<le> x" "x \<le> 4 * k"
  defines "b \<equiv> x div k - x div k div 4"
  shows "0 \<le> b" "b \<le> 3" "0 \<le> x - k * b" "x - k * b \<le> k" "b < 3 \<Longrightarrow> x - k * b < k"
proof -
  have "(0 \<le> b \<and> b \<le> 3) \<and> 0 \<le> x - k * b \<and> x - k * b \<le> k \<and> (b < 3 \<longrightarrow> x - k * b < k)"
  proof (cases "x = 4 * k")
    case True
    with assms have "b = 3" by simp
    with True assms(1) show ?thesis by simp
  next
    case False
    have "x div k < 4"
    proof (rule ccontr)
      assume "\<not> x div k < 4"
      then have "4 * k \<le> x div k * k"
        using assms(1) by (intro mult_right_mono) simp_all
      also have "\<dots> \<le> x"
        using assms(1) by (simp add: minus_mod_eq_div_mult [symmetric])
      finally show False using False assms(3) by simp
    qed
    moreover have "0 \<le> x div k"
      using assms by (simp add: pos_imp_zdiv_nonneg_iff)
    ultimately have b: "b = x div k" "0 \<le> b" "b \<le> 3"
      unfolding b_def by auto
    have "x - k * b = x mod k"
      by (simp add: b(1) minus_mult_div_eq_mod)
    with b assms show ?thesis by (simp add: order.strict_implies_order)
  qed
  then show "0 \<le> b" "b \<le> 3" "0 \<le> x - k * b" "x - k * b \<le> k" "b < 3 \<Longrightarrow> x - k * b < k"
    by auto
qed

lemma year_yday_parts:
  obtains a b c e d where
    "year_yday n = (400 * a + 100 * b + 4 * c + e + 1, d)"
    "0 \<le> b" "b \<le> 3" "0 \<le> c" "c \<le> 24" "0 \<le> e" "e \<le> 3"
    "n + 719162 = 146097 * a + 36524 * b + 1461 * c + 365 * e + d"
    "0 \<le> d" "d < 365 + (if e = 3 \<and> (c \<noteq> 24 \<or> b = 3) then 1 else 0)"
proof -
  define D where "D = n + 719162"
  define a where "a = D div 146097"
  define d1 where "d1 = D - 146097 * a"
  define b where "b = d1 div 36524 - d1 div 36524 div 4"
  define d2 where "d2 = d1 - 36524 * b"
  define c where "c = d2 div 1461"
  define d3 where "d3 = d2 - 1461 * c"
  define e where "e = d3 div 365 - d3 div 365 div 4"
  define d where "d = d3 - 365 * e"
  have d1: "0 \<le> d1" "d1 < 146097"
    by (simp_all add: d1_def a_def minus_mult_div_eq_mod)
  have b: "0 \<le> b" "b \<le> 3" and d2: "0 \<le> d2" "d2 \<le> 36524" "b < 3 \<Longrightarrow> d2 < 36524"
    using peel_quarter [of 36524 d1, folded b_def, folded d2_def] d1 by linarith+
  have c: "0 \<le> c" "c \<le> 24" "d2 = 1461 * c + d3" and d3: "0 \<le> d3" "d3 < 1461"
    using d2 unfolding c_def d3_def by (auto simp: minus_mult_div_eq_mod pos_imp_zdiv_nonneg_iff)
  have e: "0 \<le> e" "e \<le> 3" and d: "0 \<le> d" "d \<le> 365" "e < 3 \<Longrightarrow> d < 365"
    using peel_quarter [of 365 d3, folded e_def, folded d_def] d3 by linarith+
  have y: "year_yday n = (400 * a + 100 * b + 4 * c + e + 1, d)"
    unfolding year_yday_def Let_def D_def [symmetric] a_def [symmetric] d1_def [symmetric]
      b_def [symmetric] d2_def [symmetric] c_def [symmetric] d3_def [symmetric]
      e_def [symmetric] d_def [symmetric] ..
  have sum: "n + 719162 = 146097 * a + 36524 * b + 1461 * c + 365 * e + d"
    by (simp add: D_def d1_def d2_def d3_def d_def)
  have "d2 = 1461 * c + 365 * e + d"
    using c(3) by (simp add: d_def)
  then have "d < 365 + (if e = 3 \<and> (c \<noteq> 24 \<or> b = 3) then 1 else 0)"
    using b c(1,2) e d d2 by (cases "e = 3"; cases "c = 24"; cases "b = 3") simp_all
  from that [OF y b c(1,2) e sum d(1) this] show thesis .
qed

lemma find_month_spec:
  "d < sum_list ls \<Longrightarrow> find_month ls m d = (m', d') \<Longrightarrow>
     \<exists>k < length ls. m' = m + k \<and> d' < ls ! k \<and> d = sum_list (take k ls) + d'"
proof (induction ls m d rule: find_month.induct)
  case (2 l ls m d)
  show ?case
  proof (cases "d < l")
    case True
    with "2.prems" show ?thesis by (intro exI [of _ 0]) auto
  next
    case False
    then have "d - l < sum_list ls"
      using "2.prems" by simp
    with False "2" obtain k where "k < length ls" "m' = Suc m + k" "d' < ls ! k"
      "d - l = sum_list (take k ls) + d'"
      by auto
    with False show ?thesis by (intro exI [of _ "Suc k"]) auto
  qed
qed simp

lemma civil_from_days_spec:
  assumes "civil_from_days n = (y, m, d)"
  shows "days_from_civil y m d = n" "1 \<le> m" "m \<le> 12" "1 \<le> d" "d \<le> month_lengths y ! (m - 1)"
proof -
  obtain a b c e yd where p: "year_yday n = (400 * a + 100 * b + 4 * c + e + 1, yd)"
    "0 \<le> b" "b \<le> 3" "0 \<le> c" "c \<le> 24" "0 \<le> e" "e \<le> 3"
    "n + 719162 = 146097 * a + 36524 * b + 1461 * c + 365 * e + yd"
    "0 \<le> yd" "yd < 365 + (if e = 3 \<and> (c \<noteq> 24 \<or> b = 3) then 1 else 0)"
    by (rule year_yday_parts)
  have y: "y = 400 * a + 100 * b + 4 * c + e + 1"
    using assms p(1) by (auto simp: civil_from_days_def split: prod.splits)
  obtain d0 where fm: "find_month (month_lengths y) 1 (nat yd) = (m, d0)" and d: "d = Suc d0"
    using assms p(1) y by (auto simp: civil_from_days_def split: prod.splits)
  have "nat yd < sum_list (month_lengths y)"
    using p(9,10) is_leap_parts [OF p(2-7), of a] y
    by (auto simp: month_lengths_def split: if_splits)
  from find_month_spec [OF this fm] obtain k where k: "k < 12" "m = Suc k"
    "d0 < month_lengths y ! k" "nat yd = sum_list (take k (month_lengths y)) + d0"
    by (auto simp: month_lengths_def)
  then show "1 \<le> m" "m \<le> 12" "1 \<le> d" "d \<le> month_lengths y ! (m - 1)"
    using d by auto
  show "days_from_civil y m d = n"
    using days_before_year_parts [OF p(2-7), of a] y p(8,9) k(2,4) d
    by (simp add: days_from_civil_def)
qed

section \<open>Formatting and parsing timestamps\<close>

fun strip_zeros :: "string \<Rightarrow> string" where
  "strip_zeros s = rev (dropWhile (\<lambda>c. c = CHR ''0'') (rev s))"

declare strip_zeros.simps [simp del]

definition format_frac :: "nat \<Rightarrow> string" where
  "format_frac ns = (if ns = 0 then '''' else ''.'' @ strip_zeros (show_fixed 9 ns))"

definition format_year :: "int \<Rightarrow> string" where
  "format_year y =
     (if y < 0 then ''-'' @ (if - y \<le> 9999 then show_fixed 4 (nat (- y)) else show_nat (nat (- y)))
      else if y \<le> 9999 then show_fixed 4 (nat y) else show_nat (nat y))"

text \<open>\<open>util.Thens\<close>: the time in UTC, as \<open>2006-01-02T15:04:05.999999999Z\<close>.\<close>

definition Thens :: "time \<Rightarrow> string" where
  "Thens t =
     (let secs = t div second; ns = nat (t mod second);
          sod = nat (secs mod 86400)
      in (case civil_from_days (secs div 86400) of (y, m, d) \<Rightarrow>
           format_year y @ ''-'' @ show_fixed 2 m @ ''-'' @ show_fixed 2 d @ ''T'' @
           show_fixed 2 (sod div 3600) @ '':'' @ show_fixed 2 (sod div 60 mod 60) @ '':'' @
           show_fixed 2 (sod mod 60) @ format_frac ns @ ''Z''))"

fun take_digits :: "nat \<Rightarrow> string \<Rightarrow> (nat \<times> string) option" where
  "take_digits w s =
     (if w \<le> length s \<and> list_all is_digit (take w s)
      then Some (read_nat (take w s), drop w s) else None)"

declare take_digits.simps [simp del]

fun expect :: "char \<Rightarrow> string \<Rightarrow> string option" where
  "expect c [] = None"
| "expect c (x # xs) = (if x = c then Some xs else None)"

text \<open>The hour may be one digit: Go's parser asks for two digits but accepts one.\<close>

definition take_hour :: "string \<Rightarrow> (nat \<times> string) option" where
  "take_hour s =
     (case take_digits 2 s of Some r \<Rightarrow> Some r | None \<Rightarrow> take_digits 1 s)"

text \<open>An optional fraction of at most nine digits, in nanoseconds.\<close>

definition take_frac :: "string \<Rightarrow> nat \<times> string" where
  "take_frac s =
     (case s of
        c # d # rest \<Rightarrow>
          (if c = CHR ''.'' \<and> is_digit d
           then (let ds = take 9 (takeWhile is_digit (tl s))
                 in (read_nat ds * 10 ^ (9 - length ds), drop (Suc (length ds)) s))
           else (0, s))
      | _ \<Rightarrow> (0, s))"

text \<open>The zone: \<open>Z\<close>, or a signed offset \<open>hh:mm\<close>, in seconds east of UTC.\<close>

definition take_zone :: "string \<Rightarrow> (int \<times> string) option" where
  "take_zone s =
     (case s of
        [] \<Rightarrow> None
      | c # r \<Rightarrow>
          (if c = CHR ''Z'' then Some (0, r)
           else if c = CHR ''+'' \<or> c = CHR ''-'' then
             do {
               (hh, r) \<leftarrow> take_digits 2 r;
               r \<leftarrow> expect (CHR '':'') r;
               (mm, r) \<leftarrow> take_digits 2 r;
               Some ((if c = CHR ''-'' then - 1 else 1) * (int hh * 3600 + int mm * 60), r)
             }
           else None))"

definition parse_rfc3339 :: "string \<Rightarrow> time option" where
  "parse_rfc3339 s =
     do {
       (y, r) \<leftarrow> take_digits 4 s;
       r \<leftarrow> expect (CHR ''-'') r;
       (m, r) \<leftarrow> take_digits 2 r;
       r \<leftarrow> (if m < 1 \<or> 12 < m then None else Some r);
       r \<leftarrow> expect (CHR ''-'') r;
       (d, r) \<leftarrow> take_digits 2 r;
       r \<leftarrow> expect (CHR ''T'') r;
       (hh, r) \<leftarrow> take_hour r;
       r \<leftarrow> (if 24 \<le> hh then None else Some r);
       r \<leftarrow> expect (CHR '':'') r;
       (mi, r) \<leftarrow> take_digits 2 r;
       r \<leftarrow> (if 60 \<le> mi then None else Some r);
       r \<leftarrow> expect (CHR '':'') r;
       (ss, r) \<leftarrow> take_digits 2 r;
       r \<leftarrow> (if 60 \<le> ss then None else Some r);
       (let (ns, r) = take_frac r in
        do {
          (off, r) \<leftarrow> take_zone r;
          (if r \<noteq> [] then None
           else if d < 1 \<or> month_lengths (int y) ! (m - 1) < d then None
           else Some ((days_from_civil (int y) m d * 86400 + int hh * 3600 + int mi * 60
                       + int ss - off) * second + int ns))
        })
     }"

text \<open>\<open>util.ParseTime\<close>; the text of \<open>time.ParseError\<close> is cut to its first words.\<close>

definition ParseTime :: "string \<Rightarrow> time gores" where
  "ParseTime s =
     (case parse_rfc3339 s of
        None \<Rightarrow> Err (GErr (''parsing time '' @ s))
      | Some t \<Rightarrow> Ok t)"

text \<open>The years \<open>0000\<close> to \<open>9999\<close>, in nanoseconds: what four digits can name.\<close>

definition time_ok :: "time \<Rightarrow> bool" where
  "time_ok t \<longleftrightarrow> - 62167219200 * second \<le> t \<and> t < 253402300800 * second"

lemma take_digits_fixed [simp]:
  "take_digits w (show_fixed w n @ s) = Some (n mod 10 ^ w, s)"
  by (auto simp: take_digits.simps list_all_iff dest: show_fixed_digits)

lemma take_hour_fixed [simp]: "take_hour (show_fixed 2 n @ s) = Some (n mod 100, s)"
  by (simp add: take_hour_def)

lemma strip_zeros_snoc:
  "strip_zeros (s @ [c]) = (if c = CHR ''0'' then strip_zeros s else s @ [c])"
  by (simp add: strip_zeros.simps)

lemma read_nat_strip:
  "read_nat (strip_zeros s) * 10 ^ (length s - length (strip_zeros s)) = read_nat s
   \<and> length (strip_zeros s) \<le> length s"
proof (induction s rule: rev_induct)
  case (snoc c s)
  then show ?case
    by (auto simp: strip_zeros_snoc digit_val_def Suc_diff_le)
qed (simp add: strip_zeros.simps)

lemma strip_zeros_subset: "set (strip_zeros s) \<subseteq> set s"
  by (auto simp: strip_zeros.simps dest: set_dropWhileD)

lemma take_frac_format:
  assumes "ns < 10 ^ 9" "\<not> is_digit c" "c \<noteq> CHR ''.''"
  shows "take_frac (format_frac ns @ c # s) = (ns, c # s)"
proof (cases "ns = 0")
  case True
  with assms(3) show ?thesis
    by (simp add: format_frac_def take_frac_def split: list.splits)
next
  case False
  define ds where "ds = strip_zeros (show_fixed 9 ns)"
  have len: "read_nat ds * 10 ^ (9 - length ds) = ns" "length ds \<le> 9"
    using read_nat_strip [of "show_fixed 9 ns"] assms(1) by (simp_all add: ds_def)
  with False have "ds \<noteq> []" by auto
  have dig: "x \<in> set ds \<Longrightarrow> is_digit x" for x
    using strip_zeros_subset show_fixed_digits unfolding ds_def by blast
  have "takeWhile is_digit (ds @ c # s) = ds"
    using dig assms(2) by (simp add: takeWhile_append)
  with \<open>ds \<noteq> []\<close> len dig show ?thesis
    by (cases ds) (auto simp: take_frac_def format_frac_def False simp flip: ds_def)
qed

lemma take_zone_Z [simp]: "take_zone ''Z'' = Some (0, '''')"
  by (simp add: take_zone_def)

lemma civil_year_bounds:
  assumes "time_ok t" "civil_from_days (t div second div 86400) = (y, m, d)"
  shows "0 \<le> y" "y \<le> 9999"
proof -
  obtain a b c e yd where p: "year_yday (t div second div 86400) = (400 * a + 100 * b + 4 * c + e + 1, yd)"
    "0 \<le> b" "b \<le> 3" "0 \<le> c" "c \<le> 24" "0 \<le> e" "e \<le> 3"
    "t div second div 86400 + 719162 = 146097 * a + 36524 * b + 1461 * c + 365 * e + yd"
    "0 \<le> yd" "yd < 365 + (if e = 3 \<and> (c \<noteq> 24 \<or> b = 3) then 1 else 0)"
    by (rule year_yday_parts)
  have y: "y = 400 * a + 100 * b + 4 * c + e + 1"
    using assms(2) p(1) by (auto simp: civil_from_days_def split: prod.splits)
  have "- 719528 \<le> t div second div 86400" "t div second div 86400 < 2932897"
    using assms(1) unfolding time_ok_def by linarith+
  with p y show "0 \<le> y" "y \<le> 9999"
    by (auto split: if_splits)
qed

lemma month_lengths_le: "k < 12 \<Longrightarrow> month_lengths y ! k \<le> 31"
proof -
  assume "k < 12"
  then have "k < length (month_lengths y)"
    by (simp add: month_lengths_def)
  then have "month_lengths y ! k \<in> set (month_lengths y)"
    by (rule nth_mem)
  then show ?thesis
    by (auto simp: month_lengths_def split: if_splits)
qed

lemma hms_split: "(n::nat) div 3600 * 3600 + n div 60 mod 60 * 60 + n mod 60 = n"
proof -
  have e: "n div 3600 = n div 60 div 60"
    by (simp flip: div_mult2_eq)
  have "q div 60 * 3600 + q mod 60 * 60 = (q div 60 * 60 + q mod 60) * 60" for q :: nat
    by (simp only: distrib_right mult.assoc)
  from this [of "n div 60"] show ?thesis
    unfolding e by (simp only: div_mult_mod_eq)
qed

lemma parse_rfc3339_Thens:
  assumes "time_ok t"
  shows "parse_rfc3339 (Thens t) = Some t"
proof -
  define secs where "secs = t div second"
  define ns where "ns = nat (t mod second)"
  define sod where "sod = nat (secs mod 86400)"
  obtain y m d where civ: "civil_from_days (secs div 86400) = (y, m, d)"
    by (metis prod_cases3)
  note spec = civil_from_days_spec [OF civ]
  have y: "0 \<le> y" "y \<le> 9999"
    using civil_year_bounds [OF assms civ [unfolded secs_def]] by blast+
  have "month_lengths y ! (m - 1) \<le> 31"
    using spec by (intro month_lengths_le) simp
  with spec have d: "d mod 100 = d" "m mod 100 = m"
    by simp_all
  have ns: "ns < 10 ^ 9" "int ns = t mod second"
    by (simp_all add: ns_def nat_less_iff)
  have sod: "sod < 86400" "int sod = secs mod 86400"
    by (simp_all add: sod_def nat_less_iff)
  have hms: "sod div 3600 mod 100 = sod div 3600" "sod div 3600 < 24"
    "sod div 60 mod 60 mod 100 = sod div 60 mod 60" "sod mod 60 mod 100 = sod mod 60"
    using sod(1) by (simp_all add: div_less_iff_less_mult)
  have ymod: "nat y mod 10000 = nat y"
    using y by simp
  have thens: "Thens t =
      show_fixed 4 (nat y) @ ''-'' @ show_fixed 2 m @ ''-'' @ show_fixed 2 d @ ''T'' @
      show_fixed 2 (sod div 3600) @ '':'' @ show_fixed 2 (sod div 60 mod 60) @ '':'' @
      show_fixed 2 (sod mod 60) @ format_frac ns @ ''Z''"
    using civ y by (simp add: Thens_def Let_def format_year_def flip: secs_def ns_def sod_def)
  have "parse_rfc3339 (Thens t) =
      Some ((days_from_civil y m d * 86400 + int (sod div 3600) * 3600
             + int (sod div 60 mod 60) * 60 + int (sod mod 60)) * second + int ns)"
    using spec y d ymod hms take_frac_format [OF ns(1), of "CHR ''Z''" "''''"]
    by (simp add: thens parse_rfc3339_def is_digit_nonspecial not_le)
  also have "\<dots> = Some ((secs div 86400 * 86400 + int sod) * second + t mod second)"
    using spec(1) ns(2) arg_cong [OF hms_split [of sod], of int] by simp
  also have "\<dots> = Some t"
    by (simp add: sod(2) secs_def)
  finally show ?thesis .
qed

lemma ParseTime_Thens [simp]: "time_ok t \<Longrightarrow> ParseTime (Thens t) = Ok t"
  by (simp add: ParseTime_def parse_rfc3339_Thens)

end
