(* ===== verification/Thousands.thy ===== *)
theory Thousands
  imports Prelude
begin

text \<open>
  The contract shared by the two formatters of counters, the Go \<open>uintWithDelimiter\<close> of
  \<open>src/webui/helpers.go\<close> (pages rendered by the server) and the JavaScript
  \<open>numberWithDelimiter\<close> of \<open>src/webui/static/dashboard.js\<close> (the same cells, updated by the
  poller): groups of three digits, from the right, separated by commas.  The locale
  \<open>thousands_format\<close> is the contract; both formatters are instances of it in their own
  theories, and its lemmas are proved once.
\<close>

fun thousands :: "nat \<Rightarrow> string" where
  "thousands n =
     (if n < 1000 then show_nat n else thousands (n div 1000) @ '','' @ show_fixed 3 (n mod 1000))"

declare thousands.simps [simp del]

locale thousands_format =
  fixes fmt :: "nat \<Rightarrow> string"
  assumes fmt_small: "n < 1000 \<Longrightarrow> fmt n = show_nat n"
    and fmt_big: "1000 \<le> n \<Longrightarrow> fmt n = fmt (n div 1000) @ '','' @ show_fixed 3 (n mod 1000)"
begin

lemma fmt_thousands: "fmt n = thousands n"
proof (induction n rule: thousands.induct)
  case (1 n)
  then show ?case
    by (cases "n < 1000") (auto simp: thousands.simps [of n] fmt_small fmt_big)
qed

end

lemma show_nat_div10: "10 \<le> n \<Longrightarrow> show_nat n = show_nat (n div 10) @ [digit_char (n mod 10)]"
  by (simp add: show_nat.simps [of n])

lemma show_nat_fixed:
  "10 ^ w \<le> n \<Longrightarrow> show_nat n = show_nat (n div 10 ^ w) @ show_fixed w (n mod 10 ^ w)"
proof (induction w arbitrary: n)
  case (Suc w)
  then have "10 \<le> n" "10 ^ w \<le> n div 10"
    by (auto simp: less_eq_div_iff_mult_less_eq intro: order_trans [of _ "10 * 10 ^ w"])
  with Suc.IH [of "n div 10"]
  have "show_nat n = show_nat (n div 10 div 10 ^ w) @ show_fixed w (n div 10 mod 10 ^ w) @ [digit_char (n mod 10)]"
    by (simp add: show_nat_div10)
  moreover have "n div 10 mod 10 ^ w = n mod 10 ^ Suc w div 10"
    by (simp add: mod_mult2_eq)
  moreover have "n mod 10 ^ Suc w mod 10 = n mod 10"
    by (simp add: mod_mod_cancel)
  ultimately show ?case
    by (simp add: div_mult2_eq)
qed (simp)

lemma show_nat_thousand:
  "1000 \<le> n \<Longrightarrow> show_nat n = show_nat (n div 1000) @ show_fixed 3 (n mod 1000)"
  using show_nat_fixed [of 3 n] by simp

lemma digits_no_comma: "(\<And>c. c \<in> set s \<Longrightarrow> is_digit c) \<Longrightarrow> CHR '','' \<notin> set s"
  using is_digit_nonspecial(3) by blast

text \<open>Without its commas the formatted number is the plain one.\<close>

lemma thousands_strip: "filter (\<lambda>c. c \<noteq> CHR '','') (thousands n) = show_nat n"
proof (induction n rule: thousands.induct)
  case (1 n)
  have plain: "filter (\<lambda>c. c \<noteq> CHR '','') s = s" if "\<And>c. c \<in> set s \<Longrightarrow> is_digit c" for s
    using digits_no_comma [of s] that by (auto simp: filter_id_conv)
  show ?case
  proof (cases "n < 1000")
    case True
    then show ?thesis
      by (simp add: thousands.simps [of n] plain show_nat_digits)
  next
    case False
    with "1" show ?thesis
      by (simp add: thousands.simps [of n] plain show_fixed_digits flip: show_nat_thousand)
  qed
qed

lemma length_show_nat_small: "n < 1000 \<Longrightarrow> length (show_nat n) \<le> 3"
  by (simp add: show_nat.simps [of n] show_nat.simps [of "n div 10"] show_nat.simps [of "n div 10 div 10"])

text \<open>The groups: one to three digits first, then exactly three in every group.\<close>

lemma split_on_snoc_group:
  "d \<notin> set v \<Longrightarrow> split_on d (u @ d # v) = split_on d u @ [v]"
  by (induction u) (auto split: list.splits)

lemma thousands_groups:
  "\<exists>g gs. split_on (CHR '','') (thousands n) = g # gs \<and> g \<noteq> [] \<and> length g \<le> 3
     \<and> (\<forall>h \<in> set gs. length h = 3) \<and> (\<forall>h \<in> set (g # gs). list_all is_digit h)"
proof (induction n rule: thousands.induct)
  case (1 n)
  have digits: "list_all is_digit (show_nat n)" "list_all is_digit (show_fixed 3 (n mod 1000))"
    by (auto simp: list_all_iff intro: show_nat_digits show_fixed_digits)
  show ?case
  proof (cases "n < 1000")
    case True
    then show ?thesis
      using digits(1) length_show_nat_small digits_no_comma [of "show_nat n"]
      by (simp add: thousands.simps [of n] show_nat_digits)
  next
    case False
    then obtain g gs where "split_on (CHR '','') (thousands (n div 1000)) = g # gs"
      "g \<noteq> []" "length g \<le> 3" "\<forall>h \<in> set gs. length h = 3"
      "\<forall>h \<in> set (g # gs). list_all is_digit h"
      using "1" by blast
    moreover have "split_on (CHR '','') (thousands n)
        = split_on (CHR '','') (thousands (n div 1000)) @ [show_fixed 3 (n mod 1000)]"
      using False digits_no_comma [of "show_fixed 3 (n mod 1000)"]
      by (simp add: thousands.simps [of n] split_on_snoc_group show_fixed_digits)
    ultimately show ?thesis
      using digits(2) by auto
  qed
qed

end
