(* ===== verification/Dashboard.thy ===== *)
theory Dashboard
  imports GoTime Thousands "HOL-Library.Multiset"
begin

text \<open>
  The dashboard script, \<open>src/webui/static/dashboard.js\<close> (the lines after the bundled D3 and
  Rickshaw sources).  Number formatting, the history series, the hover legend and the debounce
  helper are functions; the page with its timers, its two charts and its poller is the record
  \<open>page\<close>, on which each function of the script and each browser event is one operation, and
  \<open>dash_step\<close> is one event.  The chart library is third-party code: of a chart the model keeps
  the data points the script hands to it.
\<close>

section \<open>Numbers with thousands delimiters\<close>

text \<open>
  The pattern \<open>/(\d)(?=(\d\d\d)+(?!\d))/g\<close> matches one digit that is followed by a run of
  digits whose length is a positive multiple of three; the replacement puts the delimiter
  behind that digit.
\<close>

fun replace_groups :: "string \<Rightarrow> string \<Rightarrow> string" where
  "replace_groups dl [] = []"
| "replace_groups dl (c # cs) =
     (let r = length (takeWhile is_digit cs) in
      if is_digit c \<and> 0 < r \<and> r mod 3 = 0
      then c # dl @ replace_groups dl cs
      else c # replace_groups dl cs)"

definition delimit_string :: "string \<Rightarrow> string \<Rightarrow> string" where
  "delimit_string delimiter number =
     (let dl = (if delimiter = [] then '','' else delimiter);
          split = split_on (CHR ''.'') number
      in join_with ''.'' (replace_groups dl (hd split) # tl split))"

definition numberWithDelimiter :: "int \<Rightarrow> string" where
  "numberWithDelimiter n = delimit_string [] (show_int n)"

section \<open>The history series\<close>

record point =
  pt_x :: int
  pt_y :: int

text \<open>
  \<open>Date.parse\<close> on the keys the server sends (\<open>2006-01-02\<close>, see \<open>src/storage/history.go\<close>): the
  milliseconds of midnight UTC.  Other texts are left undefined: their value is up to the
  browser.
\<close>

definition Date_parse :: "string \<Rightarrow> int option" where
  "Date_parse s =
     do {
       (y, r) \<leftarrow> take_digits 4 s;
       r \<leftarrow> expect (CHR ''-'') r;
       (m, r) \<leftarrow> take_digits 2 r;
       r \<leftarrow> expect (CHR ''-'') r;
       (d, r) \<leftarrow> take_digits 2 r;
       (if r \<noteq> [] \<or> m < 1 \<or> 12 < m \<or> d < 1 \<or> month_lengths (int y) ! (m - 1) < d then None
        else Some (days_from_civil (int y) m d * 86400000))
     }"

text \<open>
  \<open>createSeries\<close>: one point per date of the object, in the object's key order, put in front of
  the series, which is then sorted by \<open>x\<close> (the sort is stable).
\<close>

definition make_point :: "string \<times> int \<Rightarrow> point" where
  "make_point = (\<lambda>(date, value). \<lparr>pt_x = the (Date_parse date) div 1000, pt_y = value\<rparr>)"

definition createSeries :: "(string \<times> int) list \<Rightarrow> point list option" where
  "createSeries obj =
     (if list_all (\<lambda>(date, value). Date_parse date \<noteq> None) obj
      then Some (sort_key pt_x (fold (\<lambda>kv series. make_point kv # series) obj []))
      else None)"

section \<open>The hover legend\<close>

record hover_detail =
  hd_order :: int
  hd_name :: string
  hd_color :: string
  hd_formattedY :: rat  \<comment> \<open>\<open>formattedYValue\<close> as a number\<close>
  hd_y0 :: rat
  hd_y :: rat

datatype legend_node =
    Timestamp string
  | LegendLine string string  \<comment> \<open>swatch colour, label\<close>

datatype dot_node = Dot rat string  \<comment> \<open>\<open>top\<close> in pixels, border colour\<close>

definition hover_label :: "hover_detail \<Rightarrow> string" where
  "hover_label d = hd_name d @ '': '' @ numberWithDelimiter \<lfloor>hd_formattedY d\<rfloor>"

definition hover_render ::
  "(rat \<Rightarrow> rat) \<Rightarrow> string \<Rightarrow> hover_detail list \<Rightarrow> legend_node list \<times> dot_node list" where
  "hover_render graph_y formattedX detail =
     (let ds = sort_key hd_order detail in
      (Timestamp formattedX # map (\<lambda>d. LegendLine (hd_color d) (hover_label d)) ds,
       map (\<lambda>d. Dot (graph_y (hd_y0 d + hd_y d)) (hd_color d)) ds))"

text \<open>The history chart has a hover function of its own, written out a second time.\<close>

definition history_hover_render ::
  "(rat \<Rightarrow> rat) \<Rightarrow> string \<Rightarrow> hover_detail list \<Rightarrow> legend_node list \<times> dot_node list" where
  "history_hover_render graph_y formattedX detail =
     (let ds = sort_key hd_order detail in
      (Timestamp formattedX # map (\<lambda>d. LegendLine (hd_color d) (hover_label d)) ds,
       map (\<lambda>d. Dot (graph_y (hd_y0 d + hd_y d)) (hd_color d)) ds))"

section \<open>The page, its timers and its charts\<close>

text \<open>A JavaScript value that is a number, \<open>NaN\<close> or \<open>undefined\<close>, and its subtraction.\<close>

datatype jsval = Num int | NaN | Undefined

fun js_minus :: "jsval \<Rightarrow> jsval \<Rightarrow> jsval" where
  "js_minus (Num a) (Num b) = Num (a - b)"
| "js_minus _ _ = NaN"

text \<open>\<open>parseInt\<close> on a decimal text, and \<open>parseFloat\<close> on a decimal text without exponent.\<close>

definition js_parseInt :: "string \<Rightarrow> jsval" where
  "js_parseInt s =
     (let t = dropWhile is_space s;
          neg = (t \<noteq> [] \<and> hd t = CHR ''-'');
          u = (if t \<noteq> [] \<and> (hd t = CHR ''-'' \<or> hd t = CHR ''+'') then tl t else t);
          ds = takeWhile is_digit u
      in if ds = [] then NaN
         else Num (if neg then - int (read_nat ds) else int (read_nat ds)))"

definition js_parseFloat :: "string \<Rightarrow> rat option" where
  "js_parseFloat s =
     (let t = dropWhile is_space s;
          neg = (t \<noteq> [] \<and> hd t = CHR ''-'');
          u = (if t \<noteq> [] \<and> (hd t = CHR ''-'' \<or> hd t = CHR ''+'') then tl t else t);
          ds = takeWhile is_digit u;
          r = dropWhile is_digit u;
          fs = (if r \<noteq> [] \<and> hd r = CHR ''.'' then takeWhile is_digit (tl r) else []);
          v = of_nat (read_nat ds) + of_nat (read_nat fs) / 10 ^ length fs
      in if ds = [] \<and> fs = [] then None else Some (if neg then - v else v))"

text \<open>
  The statistics of one \<open>/stats\<close> response: \<open>data.faktory\<close>, \<open>data.server\<close> (an object, read by
  key) and \<open>data.server_utc_time\<close>.
\<close>

record stats =
  total_processed :: int
  total_failures :: int
  total_enqueued :: int
  busy_size :: int
  scheduled_size :: int
  retries_size :: int
  dead_size :: int
  server_obj :: "string \<Rightarrow> int option"
  server_utc_time :: string

text \<open>What the script writes on the page.\<close>

record dom =
  sprite_classes :: "string set"
  count_processed :: string
  count_failed :: string
  count_busy :: string
  count_scheduled :: string
  count_retries :: string
  count_enqueued :: string
  count_dead :: string
  stat_connections :: string
  stat_memory :: string
  stat_commands :: string
  footer_time :: string
  beacon_pulse :: bool
  interval_label :: string
  slider_value :: string
  realtime_charts :: "nat list"  \<comment> \<open>charts mounted in \<open>#realtime\<close>, by closure number\<close>
  history_charts :: "(point list option \<times> point list option) list"
    \<comment> \<open>charts mounted in \<open>#history\<close>: the failed and the processed series\<close>

definition updateStatsSummary :: "stats \<Rightarrow> dom \<Rightarrow> dom" where
  "updateStatsSummary data d =
     (let d = (if busy_size data = 0
               then d\<lparr>sprite_classes := insert ''status-idle'' (sprite_classes d - {''status-active''})\<rparr>
               else d\<lparr>sprite_classes := insert ''status-active'' (sprite_classes d - {''status-idle''})\<rparr>)
      in d\<lparr>count_processed := numberWithDelimiter (total_processed data),
           count_failed := numberWithDelimiter (total_failures data),
           count_busy := numberWithDelimiter (busy_size data),
           count_scheduled := numberWithDelimiter (scheduled_size data),
           count_retries := numberWithDelimiter (retries_size data),
           count_enqueued := numberWithDelimiter (total_enqueued data),
           count_dead := numberWithDelimiter (dead_size data)\<rparr>)"

text \<open>jQuery's \<open>html(v)\<close> sets the content, and with \<open>undefined\<close> it only reads it.\<close>

definition html_set :: "int option \<Rightarrow> string \<Rightarrow> string" where
  "html_set v old = (case v of None \<Rightarrow> old | Some n \<Rightarrow> show_int n)"

definition updateServerStats :: "(string \<Rightarrow> int option) \<Rightarrow> dom \<Rightarrow> dom" where
  "updateServerStats data d =
     d\<lparr>stat_connections := html_set (data ''connections'') (stat_connections d),
       stat_memory := html_set (data ''used_memory_mb'') (stat_memory d),
       stat_commands := html_set (data ''commands'') (stat_commands d)\<rparr>"

definition updateFooterUTCTime :: "string \<Rightarrow> dom \<Rightarrow> dom" where
  "updateFooterUTCTime tm d = d\<lparr>footer_time := tm\<rparr>"

text \<open>\<open>pulseBeacon\<close> adds the class; the queued function takes it off a second later.\<close>

definition pulseBeacon :: "dom \<Rightarrow> dom" where
  "pulseBeacon d = d\<lparr>beacon_pulse := True\<rparr>"

definition setSliderLabel :: "string \<Rightarrow> dom \<Rightarrow> dom" where
  "setSliderLabel val d =
     d\<lparr>interval_label :=
         (case js_parseFloat val of
            None \<Rightarrow> ''NaN''
          | Some v \<Rightarrow> show_int \<lfloor>v / 1000 + 1 / 2\<rfloor>) @ '' sec''\<rparr>"

text \<open>One call of \<open>realtimeGraph\<close>: its closure variables and the points given to its chart.\<close>

record realtime =
  rt_i :: nat
  rt_interval :: jsval
  rt_points :: "(jsval \<times> jsval) list"  \<comment> \<open>failed, processed\<close>

record page =
  view :: dom
  hist_processed :: "(string \<times> int) list"  \<comment> \<open>\<open>data-processed\<close> of \<open>#history\<close>\<close>
  hist_failed :: "(string \<times> int) list"
  ls_timeInterval :: "string option"  \<comment> \<open>\<open>localStorage.timeInterval\<close>\<close>
  fk_processed :: jsval  \<comment> \<open>\<open>Faktory.processed\<close>\<close>
  fk_failed :: jsval
  closures :: "realtime list"
  poller :: "nat option"
  intervals :: "(nat \<times> nat) list"  \<comment> \<open>live intervals: timer, closure\<close>
  requests :: "nat list"  \<comment> \<open>requests on their way, by closure\<close>
  next_timer :: nat
  timeoutID :: int  \<comment> \<open>of the debounced resize handler\<close>
  timeouts :: "nat list"  \<comment> \<open>pending timeouts\<close>

definition clearInterval :: "nat option \<Rightarrow> page \<Rightarrow> page" where
  "clearInterval t p =
     (case t of None \<Rightarrow> p | Some t \<Rightarrow> p\<lparr>intervals := filter (\<lambda>iv. fst iv \<noteq> t) (intervals p)\<rparr>)"

definition realtimeGraph :: "page \<Rightarrow> page" where
  "realtimeGraph p =
     (let stored = (case ls_timeInterval p of None \<Rightarrow> '''' | Some v \<Rightarrow> v);
          timeInterval = js_parseInt (if stored = '''' then ''5000'' else stored);
          c = length (closures p);
          t = next_timer p
      in p\<lparr>closures := closures p @ [\<lparr>rt_i = 0, rt_interval = timeInterval, rt_points = []\<rparr>],
           view := (view p)\<lparr>realtime_charts := realtime_charts (view p) @ [c]\<rparr>,
           poller := Some t,
           intervals := intervals p @ [(t, c)],
           next_timer := Suc t\<rparr>)"

text \<open>The interval's function: send the request for this closure, then \<open>i++\<close>.\<close>

definition poll_tick :: "nat \<Rightarrow> page \<Rightarrow> page" where
  "poll_tick c p =
     p\<lparr>requests := requests p @ [c],
       closures := (closures p)[c := (closures p ! c)\<lparr>rt_i := Suc (rt_i (closures p ! c))\<rparr>]\<rparr>"

text \<open>The request's callback.\<close>

definition poll_response :: "nat \<Rightarrow> stats \<Rightarrow> page \<Rightarrow> page" where
  "poll_response c data p =
     (let rt = closures p ! c;
          processed = (if rt_i rt = 0 then Num (total_processed data)
                       else js_minus (Num (total_processed data)) (fk_processed p));
          failed = (if rt_i rt = 0 then Num (total_failures data)
                    else js_minus (Num (total_failures data)) (fk_failed p));
          p = p\<lparr>closures := (closures p)[c := rt\<lparr>rt_points := rt_points rt @ [(failed, processed)]\<rparr>],
                fk_processed := Num (total_processed data),
                fk_failed := Num (total_failures data)\<rparr>
      in p\<lparr>view := pulseBeacon (updateFooterUTCTime (server_utc_time data)
                    (updateServerStats (server_obj data) (updateStatsSummary data (view p))))\<rparr>)"

definition historyGraph :: "page \<Rightarrow> page" where
  "historyGraph p =
     (let processed = createSeries (hist_processed p); failed = createSeries (hist_failed p)
      in p\<lparr>view := (view p)\<lparr>history_charts := history_charts (view p) @ [(failed, processed)]\<rparr>\<rparr>)"

definition renderGraphs :: "page \<Rightarrow> page" where
  "renderGraphs p = historyGraph (realtimeGraph p)"

definition resetGraphs :: "page \<Rightarrow> page" where
  "resetGraphs p = p\<lparr>view := (view p)\<lparr>realtime_charts := [], history_charts := []\<rparr>\<rparr>"

text \<open>The document-ready function, then the handlers it installs.\<close>

definition on_ready :: "page \<Rightarrow> page" where
  "on_ready p =
     (let p = renderGraphs p in
      case ls_timeInterval p of
        None \<Rightarrow> p
      | Some v \<Rightarrow> p\<lparr>view := setSliderLabel v ((view p)\<lparr>slider_value := v\<rparr>)\<rparr>)"

definition slider_change :: "string \<Rightarrow> page \<Rightarrow> page" where
  "slider_change v p =
     (let p = clearInterval (poller p) p;
          p = p\<lparr>ls_timeInterval := Some v\<rparr>;
          p = p\<lparr>view := setSliderLabel v (view p)\<rparr>
      in renderGraphs (resetGraphs p))"

definition slider_move :: "string \<Rightarrow> page \<Rightarrow> page" where
  "slider_move v p = p\<lparr>view := setSliderLabel v (view p)\<rparr>"

text \<open>
  \<open>debounce\<close>: the returned function drops the pending timeout and starts a new one.  The page
  has one debounced function, the resize handler.
\<close>

definition debounced_resize :: "page \<Rightarrow> page" where
  "debounced_resize p =
     (let p = (if - 1 < timeoutID p
               then p\<lparr>timeouts := filter (\<lambda>t. int t \<noteq> timeoutID p) (timeouts p)\<rparr> else p)
      in p\<lparr>timeoutID := int (next_timer p), timeouts := timeouts p @ [next_timer p],
           next_timer := Suc (next_timer p)\<rparr>)"

definition resize_fired :: "page \<Rightarrow> page" where
  "resize_fired p = renderGraphs (resetGraphs (clearInterval (poller p) p))"

section \<open>Events\<close>

inductive dash_step :: "page \<Rightarrow> page \<Rightarrow> bool" where
  tick: "(t, c) \<in> set (intervals p) \<Longrightarrow> dash_step p (poll_tick c p)"
| response: "requests p = xs @ c # ys \<Longrightarrow>
     dash_step p (poll_response c data (p\<lparr>requests := xs @ ys\<rparr>))"
| change: "dash_step p (slider_change v p)"
| move: "dash_step p (slider_move v p)"
| resize: "dash_step p (debounced_resize p)"
| fire: "t \<in> set (timeouts p) \<Longrightarrow>
     dash_step p (resize_fired (p\<lparr>timeouts := remove1 t (timeouts p)\<rparr>))"

text \<open>The page as the script finds it: no timer, no chart, no request; and what it can become.\<close>

definition fresh_page :: "page \<Rightarrow> bool" where
  "fresh_page p \<longleftrightarrow>
     closures p = [] \<and> poller p = None \<and> intervals p = [] \<and> requests p = [] \<and>
     timeouts p = [] \<and> timeoutID p = - 1 \<and>
     realtime_charts (view p) = [] \<and> history_charts (view p) = []"

inductive dash_reach :: "page \<Rightarrow> page \<Rightarrow> bool" for p0 where
  ready: "fresh_page p0 \<Longrightarrow> dash_reach p0 (on_ready p0)"
| more: "dash_reach p0 p \<Longrightarrow> dash_step p q \<Longrightarrow> dash_reach p0 q"

text \<open>One live poller, which feeds the one chart on the page; one chart of the history.\<close>

definition single_poller :: "page \<Rightarrow> bool" where
  "single_poller p \<longleftrightarrow>
     (\<exists>t c. poller p = Some t \<and> intervals p = [(t, c)] \<and> realtime_charts (view p) = [c])
     \<and> length (history_charts (view p)) = 1"

definition dash_inv :: "page \<Rightarrow> bool" where
  "dash_inv p \<longleftrightarrow>
     single_poller p
     \<and> (\<forall>iv \<in> set (intervals p). snd iv < length (closures p))
     \<and> (\<forall>c \<in> set (requests p). c < length (closures p) \<and> 0 < rt_i (closures p ! c))
     \<and> (\<forall>t \<in> set (timeouts p). int t = timeoutID p) \<and> distinct (timeouts p)"

lemma setSliderLabel_frame [simp]:
  "realtime_charts (setSliderLabel v d) = realtime_charts d"
  "history_charts (setSliderLabel v d) = history_charts d"
  by (simp_all add: setSliderLabel_def)

lemma response_view_frame [simp]:
  "realtime_charts (updateStatsSummary data d) = realtime_charts d"
  "history_charts (updateStatsSummary data d) = history_charts d"
  "realtime_charts (updateServerStats sd d) = realtime_charts d"
  "history_charts (updateServerStats sd d) = history_charts d"
  "realtime_charts (updateFooterUTCTime tm d) = realtime_charts d"
  "history_charts (updateFooterUTCTime tm d) = history_charts d"
  "realtime_charts (pulseBeacon d) = realtime_charts d"
  "history_charts (pulseBeacon d) = history_charts d"
  by (simp_all add: updateStatsSummary_def updateServerStats_def updateFooterUTCTime_def
      pulseBeacon_def Let_def)

lemmas page_ops = clearInterval_def realtimeGraph_def historyGraph_def renderGraphs_def
  resetGraphs_def Let_def

text \<open>
  Rendering on a page with no live interval and no mounted chart, keeping what is in flight,
  establishes the invariant; every handler that renders first brings the page there.
\<close>

lemma renderGraphs_inv:
  assumes "intervals p = []" "realtime_charts (view p) = []" "history_charts (view p) = []"
    and "\<forall>c \<in> set (requests p). c < length (closures p) \<and> 0 < rt_i (closures p ! c)"
    and "\<forall>t \<in> set (timeouts p). int t = timeoutID p" "distinct (timeouts p)"
  shows "dash_inv (renderGraphs p)"
  using assms by (auto simp: page_ops dash_inv_def single_poller_def nth_append)

lemma clear_poller:
  "single_poller p \<Longrightarrow> intervals (clearInterval (poller p) p) = []"
  by (auto simp: single_poller_def clearInterval_def)

lemma clearInterval_frame [simp]:
  "closures (clearInterval t p) = closures p" "requests (clearInterval t p) = requests p"
  "timeouts (clearInterval t p) = timeouts p" "timeoutID (clearInterval t p) = timeoutID p"
  "view (clearInterval t p) = view p" "poller (clearInterval t p) = poller p"
  by (simp_all add: clearInterval_def split: option.splits)

lemma slider_change_inv: "dash_inv p \<Longrightarrow> dash_inv (slider_change v p)"
  unfolding slider_change_def Let_def
  by (rule renderGraphs_inv) (auto simp: resetGraphs_def dash_inv_def clear_poller)

lemma resize_fired_inv:
  assumes "dash_inv p"
  shows "dash_inv (resize_fired (p\<lparr>timeouts := remove1 t (timeouts p)\<rparr>))"
proof -
  let ?q = "p\<lparr>timeouts := remove1 t (timeouts p)\<rparr>"
  have "single_poller ?q"
    using assms by (simp add: dash_inv_def single_poller_def)
  from clear_poller [OF this] assms show ?thesis
    unfolding resize_fired_def
    by (intro renderGraphs_inv) (auto simp: resetGraphs_def dash_inv_def dest: set_remove1_subset [THEN subsetD])
qed

lemma dash_step_inv: "dash_step p q \<Longrightarrow> dash_inv p \<Longrightarrow> dash_inv q"
proof (induction rule: dash_step.induct)
  case (tick t c p)
  then show ?case
    by (auto simp: poll_tick_def dash_inv_def single_poller_def nth_list_update)
next
  case (response p xs c ys data)
  then show ?case
    by (auto simp: poll_response_def Let_def dash_inv_def single_poller_def nth_list_update)
next
  case (move p v)
  then show ?case
    by (auto simp: slider_move_def dash_inv_def single_poller_def)
next
  case (resize p)
  then have "\<forall>t \<in> set (timeouts p). int t = timeoutID p"
    by (simp add: dash_inv_def)
  moreover from this have "\<forall>t \<in> set (timeouts p). - 1 < timeoutID p"
    by (metis less_le_trans neg_less_0_iff_less of_nat_0_le_iff zero_less_one)
  ultimately have "timeouts (debounced_resize p) = [next_timer p]"
    by (auto simp: debounced_resize_def Let_def filter_empty_conv filter_id_conv)
  with resize show ?case
    by (auto simp: debounced_resize_def Let_def dash_inv_def single_poller_def)
qed (auto intro: slider_change_inv resize_fired_inv)

lemma on_ready_inv: "fresh_page p \<Longrightarrow> dash_inv (on_ready p)"
proof -
  assume "fresh_page p"
  then have "dash_inv (renderGraphs p)"
    by (intro renderGraphs_inv) (auto simp: fresh_page_def)
  then show ?thesis
    by (auto simp: on_ready_def Let_def dash_inv_def single_poller_def split: option.splits)
qed

lemma dash_reach_inv: "dash_reach p0 p \<Longrightarrow> dash_inv p"
  by (induction rule: dash_reach.induct) (auto intro: on_ready_inv dash_step_inv)

section \<open>Debouncing in time\<close>

text \<open>
  The same \<open>debounce\<close> with its clock: pending timeouts carry the time they are due.  A run
  takes the times of the calls; before a call, what is due by then has fired.
\<close>

record deb =
  deb_timeoutID :: int
  deb_pending :: "(nat \<times> int) list"
  deb_next :: nat
  deb_fired :: "int list"  \<comment> \<open>the times \<open>fn\<close> ran\<close>

definition deb_init :: deb where
  "deb_init = \<lparr>deb_timeoutID = - 1, deb_pending = [], deb_next = 1, deb_fired = []\<rparr>"

definition debounce_call :: "int \<Rightarrow> int \<Rightarrow> deb \<Rightarrow> deb" where
  "debounce_call timeout now d =
     (let d = (if - 1 < deb_timeoutID d
               then d\<lparr>deb_pending := filter (\<lambda>(t, due). int t \<noteq> deb_timeoutID d) (deb_pending d)\<rparr>
               else d)
      in d\<lparr>deb_timeoutID := int (deb_next d),
           deb_pending := deb_pending d @ [(deb_next d, now + timeout)],
           deb_next := Suc (deb_next d)\<rparr>)"

definition deb_fire_due :: "int \<Rightarrow> deb \<Rightarrow> deb" where
  "deb_fire_due now d =
     d\<lparr>deb_fired := deb_fired d @ map snd (filter (\<lambda>(t, due). due \<le> now) (deb_pending d)),
       deb_pending := filter (\<lambda>(t, due). \<not> due \<le> now) (deb_pending d)\<rparr>"

fun debounce_run :: "int \<Rightarrow> deb \<Rightarrow> int list \<Rightarrow> int list" where
  "debounce_run timeout d [] = deb_fired d @ map snd (deb_pending d)"
| "debounce_run timeout d (t # ts) =
     debounce_run timeout (debounce_call timeout t (deb_fire_due t d)) ts"

text \<open>The specification: a call takes effect when no other call follows within the timeout.\<close>

fun quiet_calls :: "int \<Rightarrow> int list \<Rightarrow> int list" where
  "quiet_calls timeout [] = []"
| "quiet_calls timeout [t] = [t + timeout]"
| "quiet_calls timeout (t # u # ts) =
     (if t + timeout \<le> u then (t + timeout) # quiet_calls timeout (u # ts)
      else quiet_calls timeout (u # ts))"

lemma debounce_run_pending:
  "deb_pending d = [(n, t0 + timeout)] \<Longrightarrow> deb_timeoutID d = int n \<Longrightarrow>
     debounce_run timeout d ts = deb_fired d @ quiet_calls timeout (t0 # ts)"
proof (induction ts arbitrary: d n t0)
  case (Cons t ts)
  let ?d = "debounce_call timeout t (deb_fire_due t d)"
  have "deb_pending ?d = [(deb_next d, t + timeout)]" "deb_timeoutID ?d = int (deb_next d)"
    "deb_fired ?d = deb_fired d @ (if t0 + timeout \<le> t then [t0 + timeout] else [])"
    using Cons.prems by (auto simp: debounce_call_def deb_fire_due_def Let_def)
  with Cons.IH [of ?d "deb_next d" t] show ?case by simp
qed simp

section \<open>The formatter is an instance of the thousands contract\<close>

lemma length_digits_run:
  "(\<And>c. c \<in> set s \<Longrightarrow> is_digit c) \<Longrightarrow> length (takeWhile is_digit s) = length s"
  by (metis takeWhile_eq_all_conv)

lemma replace_groups_short:
  "length s \<le> 3 \<Longrightarrow> (\<And>c. c \<in> set s \<Longrightarrow> is_digit c) \<Longrightarrow> replace_groups dl s = s"
proof (induction s)
  case (Cons c s)
  then have "length (takeWhile is_digit s) = length s"
    by (simp add: length_digits_run)
  moreover have "\<not> (0 < length s \<and> length s mod 3 = 0)"
    using Cons.prems(1) by auto
  ultimately show ?case
    using Cons by (simp add: Let_def)
qed simp

lemma replace_groups_append:
  assumes "u \<noteq> []" "length v = 3" "\<And>c. c \<in> set (u @ v) \<Longrightarrow> is_digit c"
  shows "replace_groups dl (u @ v) = replace_groups dl u @ dl @ v"
  using assms
proof (induction u)
  case (Cons c u)
  have tw: "length (takeWhile is_digit (u @ v)) = length u + 3"
    "length (takeWhile is_digit u) = length u"
    using Cons.prems(2,3) by (simp_all add: length_digits_run)
  show ?case
  proof (cases "u = []")
    case True
    with Cons.prems tw show ?thesis
      by (simp add: Let_def replace_groups_short)
  next
    case False
    with Cons tw show ?thesis
      by (auto simp: Let_def)
  qed
qed simp

lemma numberWithDelimiter_nat: "numberWithDelimiter (int n) = replace_groups '','' (show_nat n)"
proof -
  have "CHR ''.'' \<notin> set (show_nat n)"
    using show_nat_digits is_digit_nonspecial(4) by blast
  then show ?thesis
    by (simp add: numberWithDelimiter_def delimit_string_def show_int_def)
qed

interpretation js: thousands_format "\<lambda>n. numberWithDelimiter (int n)"
proof
  fix n :: nat
  assume "n < 1000"
  then show "numberWithDelimiter (int n) = show_nat n"
    by (simp add: numberWithDelimiter_nat replace_groups_short length_show_nat_small show_nat_digits)
next
  fix n :: nat
  assume "1000 \<le> n"
  then show "numberWithDelimiter (int n) =
      numberWithDelimiter (int (n div 1000)) @ '','' @ show_fixed 3 (n mod 1000)"
    using replace_groups_append [of "show_nat (n div 1000)" "show_fixed 3 (n mod 1000)" "'',''"]
    by (auto simp: numberWithDelimiter_nat show_nat_thousand dest: show_nat_digits show_fixed_digits)
qed

section \<open>Properties\<close>

text \<open>
  The dashboard's formatter writes a counter in groups of three digits from the right: the
  first group has one to three digits, every other exactly three, and dropping the commas
  gives the number back.
\<close>

theorem numberWithDelimiter_groups:
  "filter (\<lambda>c. c \<noteq> CHR '','') (numberWithDelimiter (int n)) = show_nat n
   \<and> (\<exists>g gs. split_on (CHR '','') (numberWithDelimiter (int n)) = g # gs
        \<and> 1 \<le> length g \<and> length g \<le> 3 \<and> list_all (\<lambda>h. length h = 3) gs
        \<and> list_all (list_all is_digit) (g # gs))"
proof -
  have eq: "numberWithDelimiter (int n) = thousands n"
    by (rule js.fmt_thousands)
  obtain g gs where "split_on (CHR '','') (thousands n) = g # gs" "g \<noteq> []" "length g \<le> 3"
    "\<forall>h \<in> set gs. length h = 3" "\<forall>h \<in> set (g # gs). list_all is_digit h"
    using thousands_groups [of n] by blast
  then have "split_on (CHR '','') (thousands n) = g # gs \<and> 1 \<le> length g \<and> length g \<le> 3
      \<and> list_all (\<lambda>h. length h = 3) gs \<and> list_all (list_all is_digit) (g # gs)"
    by (auto simp: list_all_iff Suc_le_eq)
  with thousands_strip [of n] show ?thesis
    unfolding eq by blast
qed

text \<open>
  \<open>createSeries\<close> returns the points of the object sorted by time, one per date and nothing
  else, and it is defined exactly when every date parses.
\<close>

theorem createSeries_sorted_points:
  "(createSeries obj \<noteq> None \<longleftrightarrow> list_all (\<lambda>kv. Date_parse (fst kv) \<noteq> None) obj)
   \<and> (case createSeries obj of None \<Rightarrow> True
      | Some ser \<Rightarrow> sorted (map pt_x ser) \<and> mset ser = image_mset make_point (mset obj))"
proof -
  have "mset (fold (\<lambda>kv series. make_point kv # series) obj acc)
      = image_mset make_point (mset obj) + mset acc" for acc
    by (induction obj arbitrary: acc) simp_all
  then show ?thesis
    by (simp add: createSeries_def case_prod_unfold)
qed

text \<open>
  C39: after the page is ready, whatever sequence of timer ticks, responses, slider changes and
  resizes follows, exactly one polling interval is alive, it is the one \<open>poller\<close> names, it feeds
  the one chart in \<open>#realtime\<close>, and \<open>#history\<close> holds one chart.
\<close>

theorem dashboard_single_poller:
  "dash_reach p0 p \<Longrightarrow> single_poller p \<and> length (timeouts p) \<le> 1"
proof -
  assume "dash_reach p0 p"
  then have inv: "dash_inv p" by (rule dash_reach_inv)
  then have "\<forall>t \<in> set (timeouts p). int t = timeoutID p" "distinct (timeouts p)"
    by (simp_all add: dash_inv_def)
  then have "length (timeouts p) \<le> 1"
    by (cases "timeouts p"; cases "tl (timeouts p)") auto
  with inv show ?thesis by (simp add: dash_inv_def)
qed


text \<open>
  A debounced function runs once for every call that is followed by no other call within
  the timeout, that timeout after the call, and never otherwise.
\<close>

theorem debounce_runs_quiet_calls: "debounce_run timeout deb_init ts = quiet_calls timeout ts"
proof (cases ts)
  case Nil
  then show ?thesis by (simp add: deb_init_def)
next
  case (Cons t us)
  let ?d = "debounce_call timeout t (deb_fire_due t deb_init)"
  have "deb_pending ?d = [(1, t + timeout)]" "deb_timeoutID ?d = int 1" "deb_fired ?d = []"
    by (simp_all add: debounce_call_def deb_fire_due_def deb_init_def)
  with debounce_run_pending [of ?d 1 t timeout us] Cons show ?thesis by simp
qed

text \<open>A page of two polls and a slider move, for the witnesses.\<close>

definition sample_stats :: stats where
  "sample_stats = \<lparr>total_processed = 1234567, total_failures = 12, total_enqueued = 3,
     busy_size = 0, scheduled_size = 1, retries_size = 2, dead_size = 0,
     server_obj = [''connections'' \<mapsto> 4, ''command_count'' \<mapsto> 99, ''used_memory_mb'' \<mapsto> 71],
     server_utc_time = ''12:00:00 UTC''\<rparr>"

definition sample_page :: page where
  "sample_page = \<lparr>view = \<lparr>sprite_classes = {}, count_processed = '''', count_failed = '''',
       count_busy = '''', count_scheduled = '''', count_retries = '''', count_enqueued = '''',
       count_dead = '''', stat_connections = ''1'', stat_memory = '''', stat_commands = ''17'',
       footer_time = '''', beacon_pulse = False, interval_label = ''5 sec'', slider_value = ''5000'',
       realtime_charts = [], history_charts = []\<rparr>,
     hist_processed = [(''2021-03-02'', 5), (''2021-03-01'', 7)], hist_failed = [],
     ls_timeInterval = None, fk_processed = Undefined, fk_failed = Undefined, closures = [],
     poller = None, intervals = [], requests = [], next_timer = 1, timeoutID = - 1, timeouts = []\<rparr>"

lemma sample_page_polled: "dash_reach sample_page (poll_tick 0 (on_ready sample_page))"
proof (rule dash_reach.more [OF dash_reach.ready])
  show "fresh_page sample_page"
    by (simp add: fresh_page_def sample_page_def)
  show "dash_step (on_ready sample_page) (poll_tick 0 (on_ready sample_page))"
    by (rule dash_step.tick [of 1]) (simp add: on_ready_def page_ops sample_page_def)
qed

theorem dashboard_single_poller_witness:
  "dash_reach sample_page (slider_change ''2000'' (poll_tick 0 (on_ready sample_page)))
   \<and> single_poller (slider_change ''2000'' (poll_tick 0 (on_ready sample_page)))"
proof -
  have r: "dash_reach sample_page (slider_change ''2000'' (poll_tick 0 (on_ready sample_page)))"
    by (rule dash_reach.more [OF sample_page_polled dash_step.change])
  with dashboard_single_poller [OF r] show ?thesis by simp
qed


end
