(* ===== verification/Application.thy ===== *)
theory Application
  imports Dashboard
begin

text \<open>
  The script of every page, \<open>src/webui/static/application.js\<close> (the lines after the bundled
  jQuery, timeago and Bootstrap sources).  The page is the record \<open>app_page\<close>; the document-ready
  functions, the handlers they install and the poll callback are operations on it.  The
  timeago library is third-party code: of its \<open>render\<close> the model keeps the locale it was given.
\<close>

record app_page =
  ap_poll_path :: string             \<comment> \<open>\<open>data-poll-path\<close> of the body\<close>
  ap_locale :: string                \<comment> \<open>\<open>data-locale\<close> of the body\<close>
  ap_timeInterval :: "string option" \<comment> \<open>\<open>localStorage.timeInterval\<close>\<close>
  ap_page :: "string option"         \<comment> \<open>the element \<open>#page\<close>\<close>
  ap_status :: "string list"         \<comment> \<open>the elements \<open>.status\<close>\<close>
  ap_time_locale :: string           \<comment> \<open>locale of the last \<open>timeago.render\<close>\<close>
  ap_polls :: "(string \<times> int) list" \<comment> \<open>intervals started: url, milliseconds\<close>
  ap_cookie :: string
  ap_reloads :: nat
  ap_tables :: "bool list list"      \<comment> \<open>the checkboxes of each table\<close>
  ap_navbar_width :: int
  ap_static_widths :: "int list"     \<comment> \<open>widths of \<open>[data-navbar="static"]\<close>\<close>
  ap_custom_tab :: bool              \<comment> \<open>visible\<close>
  ap_dropdown :: bool
  ap_targets :: "(string \<times> bool) list" \<comment> \<open>elements the \<open>data-target\<close>s select, and whether they show\<close>

text \<open>JavaScript's \<open>toUpperCase\<close> on ASCII letters.\<close>

definition upper_char :: "char \<Rightarrow> char" where
  "upper_char c =
     (if 97 \<le> (of_char c :: nat) \<and> (of_char c :: nat) \<le> 122 then char_of (of_char c - 32 :: nat) else c)"

text \<open>The locale \<open>updateFuzzyTimes\<close> hands to timeago: \<open>pt-br\<close> becomes \<open>pt_BR\<close>.\<close>

definition fuzzy_locale :: "string \<Rightarrow> string" where
  "fuzzy_locale locale =
     (let parts = split_on (CHR ''-'') locale in
      if 1 < length parts
      then join_with ''_'' (parts[1 := map upper_char (parts ! 1)])
      else locale)"

definition updateFuzzyTimes :: "string \<Rightarrow> app_page \<Rightarrow> app_page" where
  "updateFuzzyTimes locale p = p\<lparr>ap_time_locale := fuzzy_locale locale\<rparr>"

text \<open>\<open>parseInt(localStorage.timeInterval) || 5000\<close>: \<open>NaN\<close> and zero fall back to the default.\<close>

definition poll_interval :: "string option \<Rightarrow> int" where
  "poll_interval stored =
     (case stored of
        None \<Rightarrow> 5000
      | Some s \<Rightarrow> (case js_parseInt s of Num n \<Rightarrow> if n = 0 then 5000 else n | _ \<Rightarrow> 5000))"

definition updatePage :: "string \<Rightarrow> app_page \<Rightarrow> app_page" where
  "updatePage url p = p\<lparr>ap_polls := ap_polls p @ [(url, poll_interval (ap_timeInterval p))]\<rparr>"

text \<open>
  The poll callback: \<open>#page\<close> is replaced by the one of the response, and every \<open>.status\<close>
  element by those of the response; elements the response does not have disappear.
\<close>

definition poll_done :: "string option \<Rightarrow> string list \<Rightarrow> app_page \<Rightarrow> app_page" where
  "poll_done resp_page resp_status p =
     updateFuzzyTimes (ap_locale p)
       (p\<lparr>ap_page := (case ap_page p of None \<Rightarrow> None | Some _ \<Rightarrow> resp_page),
          ap_status := concat (map (\<lambda>_. resp_status) (ap_status p))\<rparr>)"

definition app_ready :: "app_page \<Rightarrow> app_page" where
  "app_ready p =
     (let p = (if ap_poll_path p \<noteq> '''' then updatePage (ap_poll_path p) p else p)
      in updateFuzzyTimes (ap_locale p) p)"

text \<open>A click on \<open>.check_all\<close> in a table: all its checkboxes follow the clicked one.\<close>

definition check_all_click :: "nat \<Rightarrow> bool \<Rightarrow> app_page \<Rightarrow> app_page" where
  "check_all_click i checked p =
     p\<lparr>ap_tables := (ap_tables p)[i := map (\<lambda>_. checked) (ap_tables p ! i)]\<rparr>"

text \<open>A click on \<open>[data-confirm]\<close> goes on if the user says so; one on \<open>[data-toggle]\<close> shows or hides its target.\<close>

definition confirm_click :: "(string \<Rightarrow> bool) \<Rightarrow> string \<Rightarrow> bool" where
  "confirm_click confirm message = confirm message"

definition toggle_click :: "string \<Rightarrow> app_page \<Rightarrow> app_page" where
  "toggle_click target p =
     p\<lparr>ap_targets := map (\<lambda>(t, shown). (t, if t = target then \<not> shown else shown)) (ap_targets p)\<rparr>"

definition locale_change :: "string \<Rightarrow> app_page \<Rightarrow> app_page" where
  "locale_change selected p =
     p\<lparr>ap_cookie := ''faktory_locale='' @ selected, ap_reloads := Suc (ap_reloads p)\<rparr>"

text \<open>The second document-ready function: the tabs collapse when they do not fit.\<close>

definition navbar_ready :: "app_page \<Rightarrow> app_page" where
  "navbar_ready p =
     (if ap_navbar_width p < sum_list (ap_static_widths p)
      then p\<lparr>ap_custom_tab := False, ap_dropdown := True\<rparr> else p)"

lemma fuzzy_locale_plain: "CHR ''-'' \<notin> set l \<Longrightarrow> fuzzy_locale l = l"
  by (simp add: fuzzy_locale_def)

lemma fuzzy_locale_dialect:
  assumes "CHR ''-'' \<notin> set lang" "CHR ''-'' \<notin> set region"
  shows "fuzzy_locale (lang @ ''-'' @ region) = lang @ ''_'' @ map upper_char region"
  using assms by (simp add: fuzzy_locale_def split_on_append_sep)

text \<open>
  Whatever polls have answered, the times on the page are rendered for the body's locale.
\<close>

fun poll_many :: "(string option \<times> string list) list \<Rightarrow> app_page \<Rightarrow> app_page" where
  "poll_many [] p = p"
| "poll_many ((pg, st) # rs) p = poll_many rs (poll_done pg st p)"

lemma poll_many_locale:
  "ap_time_locale p = fuzzy_locale (ap_locale p) \<Longrightarrow>
     ap_locale (poll_many rs p) = ap_locale p
     \<and> ap_time_locale (poll_many rs p) = fuzzy_locale (ap_locale p)"
  by (induction rs p rule: poll_many.induct)
    (simp_all add: poll_done_def updateFuzzyTimes_def)

lemma poll_many_polls: "ap_polls (poll_many rs p) = ap_polls p"
  by (induction rs p rule: poll_many.induct) (simp_all add: poll_done_def updateFuzzyTimes_def)

lemma poll_interval_nonzero: "poll_interval s \<noteq> 0"
  by (auto simp: poll_interval_def split: option.split jsval.split)


end
