(* ===== verification/Redis.thy ===== *)
theory Redis
  imports Prelude "HOL-Library.Char_ord" "HOL-Library.List_Lexorder"
begin

text \<open>
  The Redis server and its client library are not part of the repository: they are a parameter of
  the model, a record \<open>'s redis\<close> of the commands the sources issue, over an unknown server state.
  The locale \<open>redis_server\<close> states what the sources rely on, the documented behaviour of the
  commands: on a healthy server every command acts on the keyspace \<open>view s\<close> as the functions
  \<open>db_\<dots>\<close> say.  Scores cross the interface as \<open>float64\<close> values (the decimal texts the client
  writes denote the same \<open>float64\<close>).  A key holds one kind of value; a command for another kind is
  refused, and an aggregate that becomes empty is removed.  BRPOP is described for a server on which
  no other client acts while the command blocks.

  \<open>sim\<close> compares two computations, one over the server and one over the keyspace; it is closed
  under the ways the sources compose computations, so that what is proved over keyspaces holds for
  every Redis that keeps the contract.
\<close>

section \<open>Keyspaces\<close>

datatype rval =
    RStr string
  | RList "string list"               \<comment> \<open>head first\<close>
  | RSet "string set"
  | RZset "(string \<times> rat) list"      \<comment> \<open>members with scores, by score and then by bytes\<close>

type_synonym db = "string \<Rightarrow> rval option"

definition wrongtype :: gerror where
  "wrongtype = GErr ''WRONGTYPE Operation against a key holding the wrong kind of value''"

definition get_zset :: "string \<Rightarrow> db \<Rightarrow> (string \<times> rat) list gores" where
  "get_zset k d = (case d k of None \<Rightarrow> Ok [] | Some (RZset z) \<Rightarrow> Ok z | Some _ \<Rightarrow> Err wrongtype)"

definition put_zset :: "string \<Rightarrow> (string \<times> rat) list \<Rightarrow> db \<Rightarrow> db" where
  "put_zset k z d = d(k := if z = [] then None else Some (RZset z))"

definition get_list :: "string \<Rightarrow> db \<Rightarrow> string list gores" where
  "get_list k d = (case d k of None \<Rightarrow> Ok [] | Some (RList l) \<Rightarrow> Ok l | Some _ \<Rightarrow> Err wrongtype)"

definition put_list :: "string \<Rightarrow> string list \<Rightarrow> db \<Rightarrow> db" where
  "put_list k l d = d(k := if l = [] then None else Some (RList l))"

definition get_set :: "string \<Rightarrow> db \<Rightarrow> string set gores" where
  "get_set k d = (case d k of None \<Rightarrow> Ok {} | Some (RSet s) \<Rightarrow> Ok s | Some _ \<Rightarrow> Err wrongtype)"

definition put_set :: "string \<Rightarrow> string set \<Rightarrow> db \<Rightarrow> db" where
  "put_set k s d = d(k := if s = {} then None else Some (RSet s))"

text \<open>A command on the value of one key: its reply and the new value, or the error of the access.\<close>

definition on_val ::
  "(string \<Rightarrow> db \<Rightarrow> 'v gores) \<Rightarrow> (string \<Rightarrow> 'v \<Rightarrow> db \<Rightarrow> db) \<Rightarrow> string \<Rightarrow> ('v \<Rightarrow> 'a \<times> 'v) \<Rightarrow> db \<Rightarrow> 'a gores \<times> db" where
  "on_val get_v put_v k f d =
     (case get_v k d of
        Ok v \<Rightarrow> (case f v of (a, v') \<Rightarrow> (Ok a, put_v k v' d))
      | Err e \<Rightarrow> (Err e, d)
      | Panic p \<Rightarrow> (Panic p, d))"

abbreviation on_zset where "on_zset \<equiv> on_val get_zset put_zset"
abbreviation on_list where "on_list \<equiv> on_val get_list put_list"
abbreviation on_set where "on_set \<equiv> on_val get_set put_set"

section \<open>Commands on keyspaces\<close>

definition zrem_m :: "string \<Rightarrow> (string \<times> rat) list \<Rightarrow> (string \<times> rat) list" where
  "zrem_m m z = filter (\<lambda>(n, y). n \<noteq> m) z"

fun zins :: "string \<Rightarrow> rat \<Rightarrow> (string \<times> rat) list \<Rightarrow> (string \<times> rat) list" where
  "zins m x [] = [(m, x)]"
| "zins m x ((n, y) # z) = (if x < y \<or> x = y \<and> m < n then (m, x) # (n, y) # z else (n, y) # zins m x z)"

definition zset_put :: "string \<Rightarrow> rat \<Rightarrow> (string \<times> rat) list \<Rightarrow> (string \<times> rat) list" where
  "zset_put m x z = zins m x (zrem_m m z)"

definition db_zadd :: "string \<Rightarrow> rat \<Rightarrow> string \<Rightarrow> db \<Rightarrow> int gores \<times> db" where
  "db_zadd k x m = on_zset k (\<lambda>z. (if m \<in> fst ` set z then 0 else 1, zset_put m x z))"

definition db_zrem :: "string \<Rightarrow> string \<Rightarrow> db \<Rightarrow> int gores \<times> db" where
  "db_zrem k m = on_zset k (\<lambda>z. (if m \<in> fst ` set z then 1 else 0, zrem_m m z))"

definition db_zcard :: "string \<Rightarrow> db \<Rightarrow> int gores \<times> db" where
  "db_zcard k = on_zset k (\<lambda>z. (int (length z), z))"

text \<open>ZRANGEBYSCORE with a lower bound or \<open>-inf\<close> and, with LIMIT, at most so many members.\<close>

definition in_range :: "rat option \<Rightarrow> rat \<Rightarrow> rat \<Rightarrow> bool" where
  "in_range lo hi x \<longleftrightarrow> (case lo of None \<Rightarrow> True | Some l \<Rightarrow> l \<le> x) \<and> x \<le> hi"

definition limit_to :: "int option \<Rightarrow> 'a list \<Rightarrow> 'a list" where
  "limit_to c xs = (case c of None \<Rightarrow> xs | Some n \<Rightarrow> if n < 0 then xs else take (nat n) xs)"

definition db_zrangebyscore :: "string \<Rightarrow> rat option \<Rightarrow> rat \<Rightarrow> int option \<Rightarrow> db \<Rightarrow> string list gores \<times> db" where
  "db_zrangebyscore k lo hi c =
     on_zset k (\<lambda>z. (limit_to c (map fst (filter (\<lambda>(m, x). in_range lo hi x) z)), z))"

text \<open>The elements from index \<open>a\<close> to \<open>b\<close>, negative indexes counting from the end.\<close>

definition slice :: "int \<Rightarrow> int \<Rightarrow> 'a list \<Rightarrow> 'a list" where
  "slice a b xs =
     (let n = int (length xs);
          a' = max 0 (if a < 0 then a + n else a);
          b' = min (n - 1) (if b < 0 then b + n else b)
      in if b' < a' then [] else take (nat (b' - a' + 1)) (drop (nat a') xs))"

definition db_zrange :: "string \<Rightarrow> int \<Rightarrow> int \<Rightarrow> db \<Rightarrow> (string \<times> rat) list gores \<times> db" where
  "db_zrange k a b = on_zset k (\<lambda>z. (slice a b z, z))"

definition db_lpush :: "string \<Rightarrow> string \<Rightarrow> db \<Rightarrow> int gores \<times> db" where
  "db_lpush k v = on_list k (\<lambda>l. (int (length l) + 1, v # l))"

definition db_rpop :: "string \<Rightarrow> db \<Rightarrow> string option gores \<times> db" where
  "db_rpop k = on_list k (\<lambda>l. if l = [] then (None, l) else (Some (last l), butlast l))"

definition db_llen :: "string \<Rightarrow> db \<Rightarrow> int gores \<times> db" where
  "db_llen k = on_list k (\<lambda>l. (int (length l), l))"

definition db_lrange :: "string \<Rightarrow> int \<Rightarrow> int \<Rightarrow> db \<Rightarrow> string list gores \<times> db" where
  "db_lrange k a b = on_list k (\<lambda>l. (slice a b l, l))"

text \<open>LREM with count 1: the first occurrence from the head.\<close>

definition db_lrem1 :: "string \<Rightarrow> string \<Rightarrow> db \<Rightarrow> int gores \<times> db" where
  "db_lrem1 k v = on_list k (\<lambda>l. (if v \<in> set l then 1 else 0, remove1 v l))"

text \<open>BRPOP: the tail of the first list that is not empty, with its key.\<close>

fun db_brpop :: "string list \<Rightarrow> db \<Rightarrow> (string \<times> string) option gores \<times> db" where
  "db_brpop [] d = (Ok None, d)"
| "db_brpop (k # ks) d =
     (case db_rpop k d of
        (Ok None, d') \<Rightarrow> db_brpop ks d'
      | (Ok (Some v), d') \<Rightarrow> (Ok (Some (k, v)), d')
      | (Err e, d') \<Rightarrow> (Err e, d')
      | (Panic p, d') \<Rightarrow> (Panic p, d'))"

definition db_sadd :: "string \<Rightarrow> string \<Rightarrow> db \<Rightarrow> int gores \<times> db" where
  "db_sadd k m = on_set k (\<lambda>s. (if m \<in> s then 0 else 1, insert m s))"

definition db_srem :: "string \<Rightarrow> string \<Rightarrow> db \<Rightarrow> int gores \<times> db" where
  "db_srem k m = on_set k (\<lambda>s. (if m \<in> s then 1 else 0, s - {m}))"

definition db_sismember :: "string \<Rightarrow> string \<Rightarrow> db \<Rightarrow> bool gores \<times> db" where
  "db_sismember k m = on_set k (\<lambda>s. (m \<in> s, s))"

definition db_get :: "string \<Rightarrow> db \<Rightarrow> string option gores \<times> db" where
  "db_get k d = (case d k of None \<Rightarrow> (Ok None, d) | Some (RStr v) \<Rightarrow> (Ok (Some v), d)
                 | Some _ \<Rightarrow> (Err wrongtype, d))"

definition db_set :: "string \<Rightarrow> string \<Rightarrow> db \<Rightarrow> unit gores \<times> db" where
  "db_set k v d = (Ok (), d(k := Some (RStr v)))"

definition db_incrby :: "string \<Rightarrow> int \<Rightarrow> db \<Rightarrow> int gores \<times> db" where
  "db_incrby k n d =
     (case db_get k d of
        (Ok v, _) \<Rightarrow>
          (case (case v of None \<Rightarrow> Ok 0 | Some s \<Rightarrow> atoi s) of
             Ok i \<Rightarrow>
               if i + n < - (2 ^ 63) \<or> 2 ^ 63 \<le> i + n
               then (Err (GErr ''ERR increment or decrement would overflow''), d)
               else (Ok (i + n), d(k := Some (RStr (show_int (i + n)))))
           | _ \<Rightarrow> (Err (GErr ''ERR value is not an integer or out of range''), d))
      | (Err e, _) \<Rightarrow> (Err e, d)
      | (Panic p, _) \<Rightarrow> (Panic p, d))"

definition db_unlink :: "string \<Rightarrow> db \<Rightarrow> int gores \<times> db" where
  "db_unlink k d = (Ok (if d k = None then 0 else 1), d(k := None))"

definition db_flushdb :: "db \<Rightarrow> unit gores \<times> db" where
  "db_flushdb d = (Ok (), (\<lambda>_. None))"

section \<open>The interface\<close>

record 's redis =
  zadd :: "string \<Rightarrow> rat \<Rightarrow> string \<Rightarrow> 's \<Rightarrow> int gores \<times> 's"
  zrem :: "string \<Rightarrow> string \<Rightarrow> 's \<Rightarrow> int gores \<times> 's"
  zcard :: "string \<Rightarrow> 's \<Rightarrow> int gores \<times> 's"
  zrangebyscore :: "string \<Rightarrow> rat option \<Rightarrow> rat \<Rightarrow> int option \<Rightarrow> 's \<Rightarrow> string list gores \<times> 's"
  zrange :: "string \<Rightarrow> int \<Rightarrow> int \<Rightarrow> 's \<Rightarrow> (string \<times> rat) list gores \<times> 's"
  lpush :: "string \<Rightarrow> string \<Rightarrow> 's \<Rightarrow> int gores \<times> 's"
  rpop :: "string \<Rightarrow> 's \<Rightarrow> string option gores \<times> 's"
  brpop :: "string list \<Rightarrow> 's \<Rightarrow> (string \<times> string) option gores \<times> 's"
  llen :: "string \<Rightarrow> 's \<Rightarrow> int gores \<times> 's"
  lrange :: "string \<Rightarrow> int \<Rightarrow> int \<Rightarrow> 's \<Rightarrow> string list gores \<times> 's"
  lrem1 :: "string \<Rightarrow> string \<Rightarrow> 's \<Rightarrow> int gores \<times> 's"
  sadd :: "string \<Rightarrow> string \<Rightarrow> 's \<Rightarrow> int gores \<times> 's"
  srem :: "string \<Rightarrow> string \<Rightarrow> 's \<Rightarrow> int gores \<times> 's"
  sismember :: "string \<Rightarrow> string \<Rightarrow> 's \<Rightarrow> bool gores \<times> 's"
  rget :: "string \<Rightarrow> 's \<Rightarrow> string option gores \<times> 's"
  rset :: "string \<Rightarrow> string \<Rightarrow> 's \<Rightarrow> unit gores \<times> 's"
  incrby :: "string \<Rightarrow> int \<Rightarrow> 's \<Rightarrow> int gores \<times> 's"
  unlink :: "string \<Rightarrow> 's \<Rightarrow> int gores \<times> 's"
  flushdb :: "'s \<Rightarrow> unit gores \<times> 's"
  smembers :: "string \<Rightarrow> 's \<Rightarrow> string list gores \<times> 's"

definition sim :: "('s \<Rightarrow> 't) \<Rightarrow> ('s \<Rightarrow> bool) \<Rightarrow> ('s, 'a) gofun \<Rightarrow> ('t, 'a) gofun \<Rightarrow> bool" where
  "sim v h c d \<longleftrightarrow> (\<forall>s. h s \<longrightarrow> fst (c s) = fst (d (v s)) \<and> v (snd (c s)) = snd (d (v s)) \<and> h (snd (c s)))"

locale redis_server =
  fixes rd :: "'s redis" and view :: "'s \<Rightarrow> db" and healthy :: "'s \<Rightarrow> bool"
  assumes zadd_law: "sim view healthy (zadd rd k x m) (db_zadd k x m)"
    and zrem_law: "sim view healthy (zrem rd k m) (db_zrem k m)"
    and zcard_law: "sim view healthy (zcard rd k) (db_zcard k)"
    and zrangebyscore_law: "sim view healthy (zrangebyscore rd k lo hi c) (db_zrangebyscore k lo hi c)"
    and zrange_law: "sim view healthy (zrange rd k a b) (db_zrange k a b)"
    and lpush_law: "sim view healthy (lpush rd k u) (db_lpush k u)"
    and rpop_law: "sim view healthy (rpop rd k) (db_rpop k)"
    and brpop_law: "sim view healthy (brpop rd ks) (db_brpop ks)"
    and llen_law: "sim view healthy (llen rd k) (db_llen k)"
    and lrange_law: "sim view healthy (lrange rd k a b) (db_lrange k a b)"
    and lrem1_law: "sim view healthy (lrem1 rd k u) (db_lrem1 k u)"
    and sadd_law: "sim view healthy (sadd rd k m) (db_sadd k m)"
    and srem_law: "sim view healthy (srem rd k m) (db_srem k m)"
    and sismember_law: "sim view healthy (sismember rd k m) (db_sismember k m)"
    and rget_law: "sim view healthy (rget rd k) (db_get k)"
    and rset_law: "sim view healthy (rset rd k u) (db_set k u)"
    and incrby_law: "sim view healthy (incrby rd k n) (db_incrby k n)"
    and unlink_law: "sim view healthy (unlink rd k) (db_unlink k)"
    and flushdb_law: "sim view healthy (flushdb rd) db_flushdb"
    and smembers_law: "healthy s \<Longrightarrow>
      (case get_set k (view s) of
         Ok ms \<Rightarrow> finite ms \<longrightarrow> (\<exists>xs. fst (smembers rd k s) = Ok xs \<and> set xs = ms \<and> distinct xs)
       | Err e \<Rightarrow> fst (smembers rd k s) = Err e
       | Panic p \<Rightarrow> False)
      \<and> view (snd (smembers rd k s)) = view s \<and> healthy (snd (smembers rd k s))"

text \<open>A server that is its keyspace.\<close>

definition db_redis :: "db redis" where
  "db_redis = \<lparr>zadd = db_zadd, zrem = db_zrem, zcard = db_zcard, zrangebyscore = db_zrangebyscore,
     zrange = db_zrange, lpush = db_lpush, rpop = db_rpop, brpop = db_brpop, llen = db_llen,
     lrange = db_lrange, lrem1 = db_lrem1, sadd = db_sadd, srem = db_srem,
     sismember = db_sismember, rget = db_get, rset = db_set, incrby = db_incrby,
     unlink = db_unlink, flushdb = db_flushdb,
     smembers = (\<lambda>k d. (case get_set k d of
        Ok s \<Rightarrow> Ok (sorted_list_of_set s) | Err e \<Rightarrow> Err e | Panic p \<Rightarrow> Panic p, d))\<rparr>"

lemma sim_refl: "sim (\<lambda>d. d) (\<lambda>_. True) c c"
  by (simp add: sim_def)

lemma get_set_no_panic: "get_set k d \<noteq> Panic p"
  by (auto simp: get_set_def split: option.splits rval.splits)

interpretation dbr: redis_server db_redis "\<lambda>d. d" "\<lambda>_. True"
proof
  fix k and s :: db
  show "(case get_set k s of
         Ok ms \<Rightarrow> finite ms \<longrightarrow> (\<exists>xs. fst (smembers db_redis k s) = Ok xs \<and> set xs = ms \<and> distinct xs)
       | Err e \<Rightarrow> fst (smembers db_redis k s) = Err e
       | Panic p \<Rightarrow> False)
      \<and> snd (smembers db_redis k s) = s \<and> True"
    using get_set_no_panic by (auto simp: db_redis_def split: gores.split)
qed (simp_all add: db_redis_def sim_refl)

section \<open>Closure of the simulation\<close>

named_theorems sims "closure rules of the simulation"

lemma simD:
  assumes "sim v h c d" "h s"
  shows "fst (c s) = fst (d (v s))" "v (snd (c s)) = snd (d (v s))" "h (snd (c s))"
  using assms by (auto simp: sim_def)

lemma sim_retS [sims]: "sim v h (retS a) (retS a)"
  by (simp add: sim_def retS_def)

lemma sim_errS [sims]: "sim v h (errS e) (errS e)"
  by (simp add: sim_def errS_def)

lemma sim_panicS [sims]: "sim v h (panicS p) (panicS p)"
  by (simp add: sim_def panicS_def)

lemma sim_liftR [sims]: "sim v h (liftR r) (liftR r)"
  by (simp add: sim_def liftR_def)

lemma sim_bindS [sims]:
  assumes "sim v h c d" "\<And>a. sim v h (f a) (g a)"
  shows "sim v h (bindS c f) (bindS d g)"
  unfolding sim_def
proof (intro allI impI)
  fix s assume h: "h s"
  obtain r s' where c: "c s = (r, s')" by fastforce
  obtain r' t' where d: "d (v s) = (r', t')" by fastforce
  have "r' = r" "t' = v s'" "h s'"
    using simD [OF assms(1) h] c d by auto
  then show "fst (bindS c f s) = fst (bindS d g (v s)) \<and>
      v (snd (bindS c f s)) = snd (bindS d g (v s)) \<and> h (snd (bindS c f s))"
    using c d simD [OF assms(2), of s'] by (auto simp: bindS_def split: gores.split)
qed

lemma sim_if [sims]:
  "(b \<Longrightarrow> sim v h c d) \<Longrightarrow> (\<not> b \<Longrightarrow> sim v h c' d') \<Longrightarrow>
   sim v h (if b then c else c') (if b then d else d')"
  by simp

lemma sim_option [sims]:
  "sim v h c d \<Longrightarrow> (\<And>a. sim v h (f a) (g a)) \<Longrightarrow>
   sim v h (case x of None \<Rightarrow> c | Some a \<Rightarrow> f a) (case x of None \<Rightarrow> d | Some a \<Rightarrow> g a)"
  by (cases x) auto

lemma sim_prod [sims]:
  "(\<And>a b. sim v h (f a b) (g a b)) \<Longrightarrow>
   sim v h (case x of (a, b) \<Rightarrow> f a b) (case x of (a, b) \<Rightarrow> g a b)"
  by (cases x) auto

lemma sim_list [sims]:
  "sim v h c d \<Longrightarrow> (\<And>a b. sim v h (f a b) (g a b)) \<Longrightarrow>
   sim v h (case x of [] \<Rightarrow> c | a # b \<Rightarrow> f a b) (case x of [] \<Rightarrow> d | a # b \<Rightarrow> g a b)"
  by (cases x) auto

lemma sim_gores [sims]:
  "(\<And>a. sim v h (f a) (g a)) \<Longrightarrow> (\<And>a. sim v h (f' a) (g' a)) \<Longrightarrow> (\<And>a. sim v h (f'' a) (g'' a)) \<Longrightarrow>
   sim v h (case x of Ok a \<Rightarrow> f a | Err a \<Rightarrow> f' a | Panic a \<Rightarrow> f'' a)
           (case x of Ok a \<Rightarrow> g a | Err a \<Rightarrow> g' a | Panic a \<Rightarrow> g'' a)"
  by (cases x) auto

lemma sim_let [sims]: "sim v h (f a) (g a) \<Longrightarrow> sim v h (let x = a in f x) (let x = a in g x)"
  by simp

section \<open>Sorted sets\<close>

definition zlt :: "string \<times> rat \<Rightarrow> string \<times> rat \<Rightarrow> bool" where
  "zlt a b \<longleftrightarrow> snd a < snd b \<or> snd a = snd b \<and> fst a < fst b"

text \<open>The representation of a sorted set: in order, one entry for a member.\<close>

definition zset_ok :: "(string \<times> rat) list \<Rightarrow> bool" where
  "zset_ok z \<longleftrightarrow> sorted_wrt zlt z \<and> distinct (map fst z)"

lemma zset_ok_Nil [simp]: "zset_ok []"
  by (simp add: zset_ok_def)

lemma set_zrem_m [simp]: "set (zrem_m m z) = {(n, y) \<in> set z. n \<noteq> m}"
  by (auto simp: zrem_m_def)

lemma zrem_m_absent: "m \<notin> fst ` set z \<Longrightarrow> zrem_m m z = z"
  by (force simp: zrem_m_def filter_id_conv)

lemma zset_ok_zrem [simp]: "zset_ok z \<Longrightarrow> zset_ok (zrem_m m z)"
  by (auto simp: zset_ok_def zrem_m_def sorted_wrt_filter distinct_map_filter)

lemma set_zins [simp]: "set (zins m x z) = insert (m, x) (set z)"
  by (induction z rule: zins.induct) auto

lemma zset_ok_zins:
  "zset_ok z \<Longrightarrow> m \<notin> fst ` set z \<Longrightarrow> zset_ok (zins m x z)"
proof (induction m x z rule: zins.induct)
  case (2 m x n y z)
  have z: "zset_ok z" "\<forall>a \<in> set z. zlt (n, y) a" "m \<noteq> n" "m \<notin> fst ` set z" "n \<notin> fst ` set z"
    using 2 by (auto simp: zset_ok_def)
  show ?case
  proof (cases "x < y \<or> x = y \<and> m < n")
    case True
    then have "zlt (m, x) (n, y)" by (simp add: zlt_def)
    then have "\<forall>a \<in> set z. zlt (m, x) a"
      using z(2) by (auto simp: zlt_def intro: less_trans)
    with True z "2.prems" show ?thesis by (auto simp: zset_ok_def zlt_def)
  next
    case False
    then have "zlt (n, y) (m, x)" using z(3) by (auto simp: zlt_def)
    moreover have "zset_ok (zins m x z)" using "2.IH" False z by blast
    ultimately show ?thesis
      using False z by (force simp: zset_ok_def)
  qed
qed (simp add: zset_ok_def)

lemma zset_ok_put [simp]: "zset_ok z \<Longrightarrow> zset_ok (zset_put m x z)"
  by (auto simp: zset_put_def intro!: zset_ok_zins)

lemma set_zset_put [simp]: "set (zset_put m x z) = insert (m, x) {(n, y) \<in> set z. n \<noteq> m}"
  by (simp add: zset_put_def)

lemma zset_score_unique: "zset_ok z \<Longrightarrow> (m, x) \<in> set z \<Longrightarrow> (m, y) \<in> set z \<Longrightarrow> x = y"
  by (metis zset_ok_def map_of_is_SomeI option.inject)

lemma length_zins [simp]: "length (zins m x z) = Suc (length z)"
  by (induction z rule: zins.induct) auto

section \<open>Accesses\<close>

lemma put_zset_same [simp]: "get_zset k d = Ok z \<Longrightarrow> d k \<noteq> Some (RZset []) \<Longrightarrow> put_zset k z d = d"
  by (auto simp: get_zset_def put_zset_def fun_eq_iff split: option.splits rval.splits if_splits)

lemma get_put_zset [simp]: "get_zset k (put_zset j z d) = (if k = j then Ok z else get_zset k d)"
  by (simp add: get_zset_def put_zset_def)

lemma get_list_put_zset [simp]: "k \<noteq> j \<Longrightarrow> get_list k (put_zset j z d) = get_list k d"
  by (simp add: get_list_def put_zset_def)

lemma get_set_put_zset [simp]: "k \<noteq> j \<Longrightarrow> get_set k (put_zset j z d) = get_set k d"
  by (simp add: get_set_def put_zset_def)

lemma get_put_list [simp]: "get_list k (put_list j l d) = (if k = j then Ok l else get_list k d)"
  by (simp add: get_list_def put_list_def)

lemma get_zset_put_list [simp]: "k \<noteq> j \<Longrightarrow> get_zset k (put_list j l d) = get_zset k d"
  by (simp add: get_zset_def put_list_def)

lemma get_set_put_list [simp]: "k \<noteq> j \<Longrightarrow> get_set k (put_list j l d) = get_set k d"
  by (simp add: get_set_def put_list_def)

lemma get_put_set [simp]: "get_set k (put_set j s d) = (if k = j then Ok s else get_set k d)"
  by (simp add: get_set_def put_set_def)

lemma get_zset_put_set [simp]: "k \<noteq> j \<Longrightarrow> get_zset k (put_set j s d) = get_zset k d"
  by (simp add: get_zset_def put_set_def)

lemma get_list_put_set [simp]: "k \<noteq> j \<Longrightarrow> get_list k (put_set j s d) = get_list k d"
  by (simp add: get_list_def put_set_def)

lemma get_no_panic [simp]: "get_zset k d \<noteq> Panic p" "get_list k d \<noteq> Panic p" "get_set k d \<noteq> Panic p"
  by (auto simp: get_zset_def get_list_def get_set_def split: option.splits rval.splits)

text \<open>Aggregates are never stored empty, and sorted sets are in order.\<close>

definition db_ok :: "db \<Rightarrow> bool" where
  "db_ok d \<longleftrightarrow> (\<forall>k v. d k = Some v \<longrightarrow>
     (case v of RZset z \<Rightarrow> z \<noteq> [] \<and> zset_ok z | RList l \<Rightarrow> l \<noteq> [] | RSet s \<Rightarrow> s \<noteq> {} | RStr s \<Rightarrow> True))"

lemma db_ok_put [simp]:
  "db_ok d \<Longrightarrow> zset_ok z \<Longrightarrow> db_ok (put_zset k z d)"
  "db_ok d \<Longrightarrow> db_ok (put_list k l d)"
  "db_ok d \<Longrightarrow> db_ok (put_set k s d)"
  by (auto simp: db_ok_def put_zset_def put_list_def put_set_def split: rval.split)

lemma db_ok_zset: "db_ok d \<Longrightarrow> get_zset k d = Ok z \<Longrightarrow> zset_ok z"
  by (auto simp: db_ok_def get_zset_def split: option.splits rval.splits)

lemma put_same [simp]:
  "db_ok d \<Longrightarrow> get_zset k d = Ok z \<Longrightarrow> put_zset k z d = d"
  "db_ok d \<Longrightarrow> get_list k d = Ok l \<Longrightarrow> put_list k l d = d"
  "db_ok d \<Longrightarrow> get_set k d = Ok s \<Longrightarrow> put_set k s d = d"
  by (auto simp: db_ok_def get_zset_def put_zset_def get_list_def put_list_def get_set_def put_set_def
      fun_eq_iff split: option.splits rval.splits if_splits)

lemma put_put [simp]:
  "put_zset k z (put_zset k z' d) = put_zset k z d"
  "put_list k l (put_list k l' d) = put_list k l d"
  by (simp_all add: put_zset_def put_list_def)

lemma in_range_point [simp]: "in_range (Some x) x y \<longleftrightarrow> y = x"
  by (auto simp: in_range_def)

lemma in_range_below [simp]: "in_range None x y \<longleftrightarrow> y \<le> x"
  by (simp add: in_range_def)

end
