(* ===== verification/Json.thy ===== *)
theory Json
  imports Prelude "HOL-Library.Char_ord" "HOL-Library.List_Lexorder"
begin

text \<open>
  The part of Go's \<open>encoding/json\<close> the sources use: the text of a value as \<open>json.Marshal\<close> writes
  it (compact, struct fields in order, map keys sorted) and the parser behind
  \<open>json.Unmarshal\<close>.  A number is kept as its literal; bytes above 127 of a string pass through
  both ways, so texts are meant to be valid UTF-8.  The round trip is \<open>parse_show_json\<close>.
\<close>

datatype json =
    JNull
  | JBool bool
  | JNum string
  | JStr string
  | JArr "json list"
  | JObj "(string \<times> json) list"

section \<open>Strings\<close>

definition hex_char :: "nat \<Rightarrow> char" where
  "hex_char d = ''0123456789abcdef'' ! d"

definition hex_val :: "char \<Rightarrow> nat option" where
  "hex_val c =
     (let n = (of_char c :: nat) in
      if 48 \<le> n \<and> n \<le> 57 then Some (n - 48)
      else if 97 \<le> n \<and> n \<le> 102 then Some (n - 87)
      else if 65 \<le> n \<and> n \<le> 70 then Some (n - 55)
      else None)"

definition hex4 :: "char \<Rightarrow> char \<Rightarrow> char \<Rightarrow> char \<Rightarrow> nat option" where
  "hex4 a b c d =
     (case (hex_val a, hex_val b, hex_val c, hex_val d) of
        (Some w, Some x, Some y, Some z) \<Rightarrow> Some (((w * 16 + x) * 16 + y) * 16 + z)
      | _ \<Rightarrow> None)"

definition utf8 :: "nat \<Rightarrow> string" where
  "utf8 n =
     (if n < 128 then [char_of n]
      else if n < 2048 then [char_of (192 + n div 64), char_of (128 + n mod 64)]
      else if n < 65536 then
        [char_of (224 + n div 4096), char_of (128 + n div 64 mod 64), char_of (128 + n mod 64)]
      else [char_of (240 + n div 262144), char_of (128 + n div 4096 mod 64),
            char_of (128 + n div 64 mod 64), char_of (128 + n mod 64)])"

definition quote_char :: "char \<Rightarrow> string" where
  "quote_char c =
     (let n = (of_char c :: nat) in
      if c = CHR 0x22 \<or> c = CHR 0x5C then [CHR 0x5C, c]
      else if n = 10 then [CHR 0x5C, CHR ''n'']
      else if n = 13 then [CHR 0x5C, CHR ''r'']
      else if n = 9 then [CHR 0x5C, CHR ''t'']
      else if n < 32 \<or> c = CHR ''<'' \<or> c = CHR ''>'' \<or> c = CHR ''&'' then
        [CHR 0x5C, CHR ''u'', CHR ''0'', CHR ''0'', hex_char (n div 16), hex_char (n mod 16)]
      else [c])"

text \<open>The bytes of a string; U+2028 and U+2029 (three bytes in UTF-8) are written as escapes.\<close>

fun quote_bytes :: "string \<Rightarrow> string" where
  "quote_bytes [] = []"
| "quote_bytes (c # cs) =
     (if has_prefix (c # cs) [CHR 0xE2, CHR 0x80, CHR 0xA8]
      then CHR 0x5C # ''u2028'' @ quote_bytes (drop 2 cs)
      else if has_prefix (c # cs) [CHR 0xE2, CHR 0x80, CHR 0xA9]
      then CHR 0x5C # ''u2029'' @ quote_bytes (drop 2 cs)
      else quote_char c @ quote_bytes cs)"

definition quote_json :: "string \<Rightarrow> string" where
  "quote_json s = CHR 0x22 # quote_bytes s @ [CHR 0x22]"

definition simple_escape :: "char \<Rightarrow> char option" where
  "simple_escape e =
     (if e = CHR 0x22 \<or> e = CHR 0x5C \<or> e = CHR ''/'' then Some e
      else if e = CHR ''b'' then Some (CHR 0x08)
      else if e = CHR ''f'' then Some (CHR 0x0C)
      else if e = CHR ''n'' then Some (CHR 0x0A)
      else if e = CHR ''r'' then Some (CHR 0x0D)
      else if e = CHR ''t'' then Some (CHR 0x09)
      else None)"

definition cons_str :: "string \<Rightarrow> (string \<times> string) option \<Rightarrow> (string \<times> string) option" where
  "cons_str p r = map_option (\<lambda>(t, q). (p @ t, q)) r"

text \<open>The rest of a string literal: its bytes, and the text behind the closing quote.\<close>

fun unquote :: "string \<Rightarrow> (string \<times> string) option" where
  "unquote [] = None"
| "unquote (c # cs) =
     (if c = CHR 0x22 then Some ([], cs)
      else if c = CHR 0x5C then
        (case cs of
           [] \<Rightarrow> None
         | e # es \<Rightarrow>
             if e = CHR ''u'' then
               (case es of
                  a # b # x # y # r \<Rightarrow>
                    (case hex4 a b x y of
                       None \<Rightarrow> None
                     | Some n \<Rightarrow>
                         if 55296 \<le> n \<and> n < 57344 then
                           (case r of
                              k # l # a' # b' # x' # y' # r' \<Rightarrow>
                                (case hex4 a' b' x' y' of
                                   Some n' \<Rightarrow>
                                     if k = CHR 0x5C \<and> l = CHR ''u'' \<and> n < 56320
                                        \<and> 56320 \<le> n' \<and> n' < 57344
                                     then cons_str (utf8 ((n - 55296) * 1024 + (n' - 56320) + 65536))
                                            (unquote r')
                                     else cons_str (utf8 65533) (unquote r)
                                 | None \<Rightarrow> cons_str (utf8 65533) (unquote r))
                            | _ \<Rightarrow> cons_str (utf8 65533) (unquote r))
                         else cons_str (utf8 n) (unquote r))
                | _ \<Rightarrow> None)
             else
               (case simple_escape e of
                  None \<Rightarrow> None
                | Some d \<Rightarrow> cons_str [d] (unquote es)))
      else if (of_char c :: nat) < 32 then None
      else cons_str [c] (unquote cs))"

declare unquote.simps(2) [simp del]

section \<open>Numbers\<close>

definition drop_digits :: "string \<Rightarrow> string option" where
  "drop_digits s =
     (case s of [] \<Rightarrow> None | c # cs \<Rightarrow> if is_digit c then Some (dropWhile is_digit cs) else None)"

text \<open>The grammar of a number literal.\<close>

definition valid_num :: "string \<Rightarrow> bool" where
  "valid_num s =
     (let s = (case s of c # cs \<Rightarrow> if c = CHR ''-'' then cs else s | [] \<Rightarrow> s) in
      case (case s of
              c # cs \<Rightarrow> if c = CHR ''0'' then Some cs else drop_digits s
            | [] \<Rightarrow> None) of
        None \<Rightarrow> False
      | Some r \<Rightarrow>
          (case (case r of c # cs \<Rightarrow> if c = CHR ''.'' then drop_digits cs else Some r | [] \<Rightarrow> Some r) of
             None \<Rightarrow> False
           | Some r \<Rightarrow>
               (case r of
                  [] \<Rightarrow> True
                | e # es \<Rightarrow>
                    (e = CHR ''e'' \<or> e = CHR ''E'')
                    \<and> drop_digits (case es of
                         c # cs \<Rightarrow> if c = CHR ''+'' \<or> c = CHR ''-'' then cs else es
                       | [] \<Rightarrow> es) = Some [])))"

definition num_char :: "char \<Rightarrow> bool" where
  "num_char c \<longleftrightarrow> is_digit c \<or> c = CHR ''-'' \<or> c = CHR ''+'' \<or> c = CHR ''.''
     \<or> c = CHR ''e'' \<or> c = CHR ''E''"

section \<open>Values\<close>

text \<open>\<open>json.Marshal\<close>.\<close>

fun show_json :: "json \<Rightarrow> string" where
  "show_json JNull = ''null''"
| "show_json (JBool b) = (if b then ''true'' else ''false'')"
| "show_json (JNum n) = n"
| "show_json (JStr s) = quote_json s"
| "show_json (JArr vs) = ''['' @ join_with '','' (map show_json vs) @ '']''"
| "show_json (JObj kvs) =
     ''{'' @ join_with '','' (map (\<lambda>(k, v). quote_json k @ '':'' @ show_json v) kvs) @ ''}''"

text \<open>
  The parser; the fuel bounds the number of nested calls, and \<open>parse_json\<close> gives it two units per
  byte, more than any text can use.
\<close>

definition json_space :: "char \<Rightarrow> bool" where
  "json_space c \<longleftrightarrow> c \<in> {CHR '' '', CHR 0x09, CHR 0x0A, CHR 0x0D}"

abbreviation skip_ws :: "string \<Rightarrow> string" where
  "skip_ws \<equiv> dropWhile json_space"

fun parse_value :: "nat \<Rightarrow> string \<Rightarrow> (json \<times> string) option"
  and parse_elems :: "nat \<Rightarrow> string \<Rightarrow> (json list \<times> string) option"
  and parse_members :: "nat \<Rightarrow> string \<Rightarrow> ((string \<times> json) list \<times> string) option" where
  "parse_value 0 s = None"
| "parse_value (Suc f) s =
     (case s of
        [] \<Rightarrow> None
      | c # cs \<Rightarrow>
          if c = CHR 0x22 then map_option (\<lambda>(t, r). (JStr t, r)) (unquote cs)
          else if c = CHR ''['' then
            (case skip_ws cs of
               [] \<Rightarrow> None
             | d # ds \<Rightarrow> if d = CHR '']'' then Some (JArr [], ds)
                        else map_option (\<lambda>(vs, r). (JArr vs, r)) (parse_elems f (d # ds)))
          else if c = CHR ''{'' then
            (case skip_ws cs of
               [] \<Rightarrow> None
             | d # ds \<Rightarrow> if d = CHR ''}'' then Some (JObj [], ds)
                        else map_option (\<lambda>(kvs, r). (JObj kvs, r)) (parse_members f (d # ds)))
          else if has_prefix s ''null'' then Some (JNull, drop 4 s)
          else if has_prefix s ''true'' then Some (JBool True, drop 4 s)
          else if has_prefix s ''false'' then Some (JBool False, drop 5 s)
          else (let n = takeWhile num_char s in
                if valid_num n then Some (JNum n, dropWhile num_char s) else None))"
| "parse_elems 0 s = None"
| "parse_elems (Suc f) s =
     (case parse_value f s of
        None \<Rightarrow> None
      | Some (v, r) \<Rightarrow>
          (case skip_ws r of
             [] \<Rightarrow> None
           | d # ds \<Rightarrow>
               if d = CHR '']'' then Some ([v], ds)
               else if d = CHR '','' then
                 map_option (\<lambda>(vs, r'). (v # vs, r')) (parse_elems f (skip_ws ds))
               else None))"
| "parse_members 0 s = None"
| "parse_members (Suc f) s =
     (case s of
        [] \<Rightarrow> None
      | q # qs \<Rightarrow>
          if q \<noteq> CHR 0x22 then None
          else (case unquote qs of
            None \<Rightarrow> None
          | Some (k, r) \<Rightarrow>
              (case skip_ws r of
                 [] \<Rightarrow> None
               | col # r' \<Rightarrow>
                   if col \<noteq> CHR '':'' then None
                   else (case parse_value f (skip_ws r') of
                     None \<Rightarrow> None
                   | Some (v, r'') \<Rightarrow>
                       (case skip_ws r'' of
                          [] \<Rightarrow> None
                        | d # ds \<Rightarrow>
                            if d = CHR ''}'' then Some ([(k, v)], ds)
                            else if d = CHR '','' then
                              map_option (\<lambda>(kvs, rr). ((k, v) # kvs, rr)) (parse_members f (skip_ws ds))
                            else None)))))"

definition parse_json :: "string \<Rightarrow> json option" where
  "parse_json s =
     (case parse_value (2 * length s + 2) (skip_ws s) of
        Some (v, r) \<Rightarrow> if skip_ws r = [] then Some v else None
      | None \<Rightarrow> None)"

section \<open>What is written is read back\<close>

lemma less_sixteen_cases: "(d::nat) < 16 \<Longrightarrow>
  d = 0 \<or> d = 1 \<or> d = 2 \<or> d = 3 \<or> d = 4 \<or> d = 5 \<or> d = 6 \<or> d = 7 \<or> d = 8 \<or> d = 9
  \<or> d = 10 \<or> d = 11 \<or> d = 12 \<or> d = 13 \<or> d = 14 \<or> d = 15"
  by arith

lemma hex_val_char [simp]: "d < 16 \<Longrightarrow> hex_val (hex_char d) = Some d"
  by (drule less_sixteen_cases) (elim disjE; simp add: hex_val_def hex_char_def)

lemma hex4_low: "n < 128 \<Longrightarrow> hex4 CHR ''0'' CHR ''0'' (hex_char (n div 16)) (hex_char (n mod 16)) = Some n"
  by (simp add: hex4_def hex_val_def [of "CHR ''0''"] Let_def)

lemma unquote_close [simp]: "unquote (CHR 0x22 # r) = Some ([], r)"
  by (simp add: unquote.simps(2))

lemma unquote_plain:
  "c \<noteq> CHR 0x22 \<Longrightarrow> c \<noteq> CHR 0x5C \<Longrightarrow> \<not> (of_char c :: nat) < 32 \<Longrightarrow>
   unquote (c # r) = cons_str [c] (unquote r)"
  by (simp add: unquote.simps(2))

lemma unquote_simple:
  "simple_escape e = Some d \<Longrightarrow> unquote (CHR 0x5C # e # r) = cons_str [d] (unquote r)"
  by (auto simp: unquote.simps(2) simple_escape_def split: if_splits)

lemma unquote_hex:
  "hex4 a b x y = Some n \<Longrightarrow> n < 128 \<Longrightarrow>
   unquote (CHR 0x5C # CHR ''u'' # a # b # x # y # r) = cons_str [char_of n] (unquote r)"
  by (simp add: unquote.simps(2) utf8_def)

lemma unquote_quote_char: "unquote (quote_char c @ r) = cons_str [c] (unquote r)"
proof -
  define n where "n = (of_char c :: nat)"
  have c: "c = char_of n" by (simp add: n_def)
  consider (esc) "c = CHR 0x22 \<or> c = CHR 0x5C"
    | (nl) "n = 10" | (cr) "n = 13" | (tab) "n = 9"
    | (hex) "n \<notin> {10, 13, 9}" "c \<noteq> CHR 0x22" "c \<noteq> CHR 0x5C" "n < 32 \<or> c = CHR ''<'' \<or> c = CHR ''>'' \<or> c = CHR ''&''"
    | (plain) "n \<notin> {10, 13, 9}" "c \<noteq> CHR 0x22" "c \<noteq> CHR 0x5C" "\<not> n < 32" "c \<noteq> CHR ''<''" "c \<noteq> CHR ''>''" "c \<noteq> CHR ''&''"
    by blast
  then show ?thesis
  proof cases
    case esc
    then show ?thesis
      by (auto simp: quote_char_def Let_def intro!: unquote_simple simp: simple_escape_def)
  next
    case hex
    have n: "n < 128" using hex(4) by (auto simp: n_def)
    have "quote_char c = [CHR 0x5C, CHR ''u'', CHR ''0'', CHR ''0'', hex_char (n div 16), hex_char (n mod 16)]"
      using hex by (simp add: quote_char_def Let_def flip: n_def)
    then show ?thesis
      using unquote_hex [OF hex4_low [OF n] n] c by simp
  next
    case plain
    then show ?thesis
      by (simp add: quote_char_def Let_def unquote_plain flip: n_def)
  next
    case nl
    then have "of_char c = (of_char (CHR 0x0A) :: nat)" by (simp add: n_def)
    then have "c = CHR 0x0A" by (simp only: of_char_eq_iff)
    then show ?thesis by (simp add: quote_char_def unquote_simple simple_escape_def)
  next
    case cr
    then have "of_char c = (of_char (CHR 0x0D) :: nat)" by (simp add: n_def)
    then have "c = CHR 0x0D" by (simp only: of_char_eq_iff)
    then show ?thesis by (simp add: quote_char_def unquote_simple simple_escape_def)
  next
    case tab
    then have "of_char c = (of_char (CHR 0x09) :: nat)" by (simp add: n_def)
    then have "c = CHR 0x09" by (simp only: of_char_eq_iff)
    then show ?thesis by (simp add: quote_char_def unquote_simple simple_escape_def)
  qed
qed

lemma unquote_line_sep:
  "unquote (CHR 0x5C # CHR ''u'' # CHR ''2'' # CHR ''0'' # CHR ''2'' # CHR ''8'' # r)
   = cons_str [CHR 0xE2, CHR 0x80, CHR 0xA8] (unquote r)"
  "unquote (CHR 0x5C # CHR ''u'' # CHR ''2'' # CHR ''0'' # CHR ''2'' # CHR ''9'' # r)
   = cons_str [CHR 0xE2, CHR 0x80, CHR 0xA9] (unquote r)"
  by (simp_all add: unquote.simps(2) hex4_def hex_val_def utf8_def char_of_def bit_Suc_0_iff)

lemma unquote_quoted: "unquote (quote_bytes s @ CHR 0x22 # r) = Some (s, r)"
proof (induction s rule: quote_bytes.induct)
  case (2 c cs)
  show ?case
  proof (cases "has_prefix (c # cs) [CHR 0xE2, CHR 0x80, CHR 0xA8]")
    case True
    then obtain t where "c = CHR 0xE2" "cs = CHR 0x80 # CHR 0xA8 # t"
      by (auto simp: has_prefix_iff)
    with 2(1) [OF True] show ?thesis by (simp add: unquote_line_sep cons_str_def)
  next
    case F: False
    show ?thesis
    proof (cases "has_prefix (c # cs) [CHR 0xE2, CHR 0x80, CHR 0xA9]")
      case True
      then obtain t where "c = CHR 0xE2" "cs = CHR 0x80 # CHR 0xA9 # t"
        by (auto simp: has_prefix_iff)
      with 2(2) [OF F True] show ?thesis by (simp add: unquote_line_sep cons_str_def)
    next
      case False
      with 2(3) [OF F False] F show ?thesis
        by (auto simp: unquote_quote_char cons_str_def)
    qed
  qed
qed simp

text \<open>The values whose numbers are literals: everything the parser and the sources produce.\<close>

fun json_ok :: "json \<Rightarrow> bool" where
  "json_ok (JNum n) = (valid_num n \<and> list_all num_char n)"
| "json_ok (JArr vs) = list_all json_ok vs"
| "json_ok (JObj kvs) = list_all (\<lambda>(k, v). json_ok v) kvs"
| "json_ok _ = True"

text \<open>Fuel that is enough for a value, and for the rest of an array or object.\<close>

fun json_size :: "json \<Rightarrow> nat" where
  "json_size (JArr vs) = Suc (length vs + sum_list (map json_size vs))"
| "json_size (JObj kvs) = Suc (length kvs + sum_list (map (\<lambda>(k, v). json_size v) kvs))"
| "json_size _ = 1"

lemma num_char_special:
  "\<not> num_char CHR '',''" "\<not> num_char CHR '']''" "\<not> num_char CHR ''}''" "\<not> num_char CHR 0x22"
  "\<not> num_char CHR ''[''" "\<not> num_char CHR ''{''" "\<not> num_char CHR ''n''" "\<not> num_char CHR ''t''"
  "\<not> num_char CHR ''f''" "\<not> num_char CHR '' ''" "\<not> num_char CHR 0x09" "\<not> num_char CHR 0x0A"
  "\<not> num_char CHR 0x0D"
  by (simp_all add: num_char_def is_digit_def)

lemma valid_num_ne: "valid_num n \<Longrightarrow> n \<noteq> []"
  by (auto simp: valid_num_def)

lemma show_json_head:
  assumes "json_ok v"
  shows "\<exists>c cs. show_json v = c # cs \<and> \<not> json_space c \<and> c \<noteq> CHR '']'' \<and> c \<noteq> CHR ''}''"
proof (cases v)
  case (JNum n)
  with assms obtain c cs where n: "n = c # cs" "num_char c"
    by (cases n) (auto dest: valid_num_ne)
  then have "\<not> json_space c" "c \<noteq> CHR '']''" "c \<noteq> CHR ''}''"
    using num_char_special by (auto simp: json_space_def)
  with JNum n show ?thesis by simp
qed (auto simp: quote_json_def json_space_def)

lemma parse_num:
  assumes n: "valid_num n" "list_all num_char n" and r: "r = [] \<or> \<not> num_char (hd r)"
  shows "parse_value (Suc f) (n @ r) = Some (JNum n, r)"
proof -
  obtain c cs where c: "n = c # cs" "num_char c"
    using n by (cases n) (auto dest: valid_num_ne)
  have "takeWhile num_char r = []" "dropWhile num_char r = r"
    using r by (cases r; simp)+
  moreover have "\<And>x. x \<in> set n \<Longrightarrow> num_char x"
    using n(2) by (simp add: list_all_iff)
  ultimately have "takeWhile num_char (n @ r) = n" "dropWhile num_char (n @ r) = r"
    by (simp_all add: takeWhile_append2 dropWhile_append2)
  moreover have "c \<noteq> CHR 0x22" "c \<noteq> CHR ''[''" "c \<noteq> CHR ''{''" "c \<noteq> CHR ''n''" "c \<noteq> CHR ''t''"
    "c \<noteq> CHR ''f''"
    using c(2) num_char_special by auto
  ultimately show ?thesis
    using n(1) c(1) by (simp add: Let_def)
qed

lemma skip_ws_id: "\<not> json_space c \<Longrightarrow> skip_ws (c # cs) = c # cs"
  by simp

lemma json_space_special:
  "\<not> json_space CHR 0x22" "\<not> json_space CHR '',''" "\<not> json_space CHR '']''" "\<not> json_space CHR ''}''"
  "\<not> json_space CHR '':''" "\<not> json_space CHR ''[''" "\<not> json_space CHR ''{''"
  by (simp_all add: json_space_def)

lemma skip_ws_show [simp]: "json_ok v \<Longrightarrow> skip_ws (show_json v @ r) = show_json v @ r"
  using show_json_head [of v] by auto

abbreviation show_elems :: "json list \<Rightarrow> string" where
  "show_elems vs \<equiv> join_with '','' (map show_json vs)"

abbreviation show_members :: "(string \<times> json) list \<Rightarrow> string" where
  "show_members kvs \<equiv> join_with '','' (map (\<lambda>(k, v). quote_json k @ '':'' @ show_json v) kvs)"

lemma quote_json_append: "quote_json s @ r = CHR 0x22 # quote_bytes s @ CHR 0x22 # r"
  by (simp add: quote_json_def)

lemma parse_show_fuel:
  "(\<forall>v r. json_ok v \<longrightarrow> json_size v \<le> f \<longrightarrow> (r = [] \<or> \<not> num_char (hd r)) \<longrightarrow>
      parse_value f (show_json v @ r) = Some (v, r)) \<and>
   (\<forall>v vs r. list_all json_ok (v # vs) \<longrightarrow> length (v # vs) + sum_list (map json_size (v # vs)) \<le> f \<longrightarrow>
      parse_elems f (show_elems (v # vs) @ CHR '']'' # r) = Some (v # vs, r)) \<and>
   (\<forall>k v kvs r. list_all (\<lambda>(k, v). json_ok v) ((k, v) # kvs) \<longrightarrow>
      length ((k, v) # kvs) + sum_list (map (\<lambda>(k, v). json_size v) ((k, v) # kvs)) \<le> f \<longrightarrow>
      parse_members f (show_members ((k, v) # kvs) @ CHR ''}'' # r) = Some ((k, v) # kvs, r))"
proof (induction f)
  case 0
  have [simp]: "json_size v \<noteq> 0" for v by (cases v) auto
  show ?case by simp
next
  case (Suc f)
  note V = Suc.IH [THEN conjunct1, rule_format]
  note E = Suc.IH [THEN conjunct2, THEN conjunct1, rule_format]
  note M = Suc.IH [THEN conjunct2, THEN conjunct2, rule_format]
  have val: "parse_value (Suc f) (show_json v @ r) = Some (v, r)"
    if ok: "json_ok v" and sz: "json_size v \<le> Suc f" and r: "r = [] \<or> \<not> num_char (hd r)" for v r
  proof (cases v)
    case (JNum n)
    with ok r show ?thesis by (simp del: parse_value.simps add: parse_num)
  next
    case (JStr s)
    then show ?thesis by (simp add: quote_json_append unquote_quoted)
  next
    case (JArr vs)
    show ?thesis
    proof (cases vs)
      case Nil
      with JArr show ?thesis by (simp add: json_space_special)
    next
      case (Cons w ws)
      obtain c cs where c: "show_json w = c # cs" "\<not> json_space c" "c \<noteq> CHR '']''"
        using show_json_head [of w] ok JArr Cons by auto
      have "\<exists>ds. show_elems vs @ CHR '']'' # r = c # ds"
        using c Cons by (cases ws) auto
      then obtain ds where ds: "show_elems vs @ CHR '']'' # r = c # ds" ..
      have "parse_elems f (c # ds) = Some (vs, r)"
        using E [of w ws r] ok sz JArr Cons ds by simp
      then show ?thesis
        using JArr c ds by simp
    qed
  next
    case (JObj kvs)
    show ?thesis
    proof (cases kvs)
      case Nil
      with JObj show ?thesis by (simp add: json_space_special)
    next
      case (Cons kv ws)
      obtain k w where kv: "kv = (k, w)" by fastforce
      have "\<exists>ds. show_members kvs @ CHR ''}'' # r = CHR 0x22 # ds"
        using Cons kv by (cases ws) (auto simp: quote_json_def)
      then obtain ds where ds: "show_members kvs @ CHR ''}'' # r = CHR 0x22 # ds" ..
      have "parse_members f (CHR 0x22 # ds) = Some (kvs, r)"
        using M [of k w ws r] ok sz JObj Cons kv ds by simp
      then show ?thesis
        using JObj ds by (simp add: json_space_special)
    qed
  qed simp_all
  moreover have "parse_elems (Suc f) (show_elems (v # vs) @ CHR '']'' # r) = Some (v # vs, r)"
    if "list_all json_ok (v # vs)" "length (v # vs) + sum_list (map json_size (v # vs)) \<le> Suc f" for v vs r
  proof (cases vs)
    case Nil
    with that show ?thesis by (simp add: V num_char_special json_space_special)
  next
    case (Cons w ws)
    have "parse_elems f (show_elems (w # ws) @ CHR '']'' # r) = Some (w # ws, r)"
      by (rule E) (use that Cons in auto)
    moreover have "skip_ws (show_elems (w # ws) @ CHR '']'' # r) = show_elems (w # ws) @ CHR '']'' # r"
      using that Cons by (cases ws) simp_all
    ultimately show ?thesis
      using that Cons by (simp add: V num_char_special json_space_special)
  qed
  moreover have "parse_members (Suc f) (show_members ((k, v) # kvs) @ CHR ''}'' # r) = Some ((k, v) # kvs, r)"
    if "list_all (\<lambda>(k, v). json_ok v) ((k, v) # kvs)"
      "length ((k, v) # kvs) + sum_list (map (\<lambda>(k, v). json_size v) ((k, v) # kvs)) \<le> Suc f" for k v kvs r
  proof (cases kvs)
    case Nil
    with that show ?thesis
      by (simp add: V quote_json_append unquote_quoted num_char_special json_space_special)
  next
    case (Cons kv ws)
    obtain j w where kv: "kv = (j, w)" by fastforce
    have "parse_members f (show_members (kv # ws) @ CHR ''}'' # r) = Some (kv # ws, r)"
      unfolding kv by (rule M) (use that Cons kv in auto)
    moreover have "skip_ws (show_members (kv # ws) @ CHR ''}'' # r) = show_members (kv # ws) @ CHR ''}'' # r"
      using kv by (cases ws) (simp_all add: quote_json_append json_space_special)
    ultimately show ?thesis
      using that Cons kv
      by (simp add: V quote_json_append unquote_quoted num_char_special json_space_special)
  qed
  ultimately show ?case by blast
qed

lemma json_size_le_show: "json_ok v \<Longrightarrow> json_size v \<le> 2 * length (show_json v)"
proof (induction v)
  case (JNum n)
  then show ?case by (cases n) (auto dest: valid_num_ne)
next
  case (JArr vs)
  have "length us + sum_list (map json_size us) \<le> 2 * length (show_elems us) + 1"
    if "set us \<subseteq> set vs" for us
    using that
  proof (induction "'',''" "map show_json us" arbitrary: us rule: join_with.induct)
    case (3 w v' ws)
    then obtain a b cs where us: "us = a # b # cs" "w = show_json a"
      by (metis map_eq_Cons_conv)
    have "json_size a \<le> 2 * length (show_json a)"
      using JArr us 3 by (auto simp: list_all_iff)
    moreover have "length (b # cs) + sum_list (map json_size (b # cs)) \<le> 2 * length (show_elems (b # cs)) + 1"
      by (rule 3) (use us 3 in auto)
    ultimately show ?case
      using us by simp
  next
    case (2 w)
    then obtain a where "us = [a]" by auto
    with 2 JArr show ?case by (force simp: list_all_iff)
  qed simp
  from this [of vs] show ?case by simp
next
  case (JObj kvs)
  have "length us + sum_list (map (\<lambda>(k, v). json_size v) us) \<le> 2 * length (show_members us) + 1"
    if "set us \<subseteq> set kvs" for us
    using that
  proof (induction us rule: induct_list012)
    case (2 u)
    obtain k a where u: "u = (k, a)" by fastforce
    with 2 have "json_size a \<le> 2 * length (show_json a)"
      using JObj by (fastforce simp: list_all_iff)
    with u show ?case by (simp add: quote_json_def)
  next
    case (3 u w us)
    obtain k a where u: "u = (k, a)" by fastforce
    with 3 have "json_size a \<le> 2 * length (show_json a)"
      using JObj by (fastforce simp: list_all_iff)
    with u 3 show ?case by (simp add: quote_json_def)
  qed simp
  from this [of kvs] show ?case by simp
qed (simp_all add: quote_json_def)

theorem parse_show_json: "json_ok v \<Longrightarrow> parse_json (show_json v) = Some v"
proof -
  assume ok: "json_ok v"
  have "parse_value (2 * length (show_json v) + 2) (show_json v @ []) = Some (v, [])"
    by (rule parse_show_fuel [THEN conjunct1, rule_format])
       (use ok json_size_le_show [OF ok] in auto)
  moreover have "skip_ws (show_json v) = show_json v"
    using skip_ws_show [OF ok, of "[]"] by simp
  ultimately show ?thesis
    by (simp add: parse_json_def)
qed

text \<open>Integers as literals.\<close>

definition json_int :: "int \<Rightarrow> json" where
  "json_int i = JNum (show_int i)"

lemma show_nat_hd_zero: "hd (show_nat n) = CHR ''0'' \<Longrightarrow> n = 0"
proof (induction n rule: show_nat.induct)
  case (1 n)
  show ?case
  proof (cases "n < 10")
    case True
    with "1.prems" have "digit_val (digit_char n) = digit_val CHR ''0''"
      by (simp add: show_nat.simps [of n])
    with True show ?thesis by (simp add: digit_val_def [of "CHR ''0''"])
  next
    case False
    with 1 show ?thesis by (simp add: show_nat.simps [of n] hd_append)
  qed
qed

lemma valid_num_show_nat_aux:
  "(case show_nat k of
      c # cs \<Rightarrow> if c = CHR ''0'' then Some cs else drop_digits (show_nat k)
    | [] \<Rightarrow> None) = Some []"
proof -
  obtain c cs where s: "show_nat k = c # cs"
    by (cases "show_nat k") auto
  have d: "is_digit c" "list_all is_digit cs"
    using show_nat_digits [of _ k] s by (auto simp: list_all_iff)
  show ?thesis
  proof (cases "c = CHR ''0''")
    case True
    then have "k = 0" using show_nat_hd_zero [of k] s by simp
    with s True show ?thesis by (simp add: show_nat.simps)
  next
    case False
    with s d show ?thesis by (simp add: drop_digits_def list_all_iff)
  qed
qed

lemma valid_num_show_int: "valid_num (show_int i)"
proof -
  obtain c cs where s: "show_nat (nat i) = c # cs" "is_digit c"
    using hd_digit_show_nat [of "nat i"] by (cases "show_nat (nat i)") auto
  then have c: "c \<noteq> CHR ''-''" by (auto simp: is_digit_nonspecial)
  obtain d ds where t: "show_nat (nat (- i)) = d # ds"
    by (cases "show_nat (nat (- i))") auto
  show ?thesis
  proof (cases "i < 0")
    case True
    then show ?thesis
      using valid_num_show_nat_aux [of "nat (- i)"] t
      by (auto simp: valid_num_def show_int_def split: if_splits)
  next
    case False
    then show ?thesis
      using valid_num_show_nat_aux [of "nat i"] s c
      by (auto simp: valid_num_def show_int_def split: if_splits)
  qed
qed

lemma num_char_show_int: "list_all num_char (show_int i)"
  using show_nat_digits by (auto simp: show_int_def list_all_iff num_char_def)

lemma json_ok_int [simp]: "json_ok (json_int i)"
  by (simp add: json_int_def valid_num_show_int num_char_show_int)

end
