(* ===== verification/Float64.thy ===== *)
theory Float64
  imports GoTime "HOL-Library.Log_Nat"
begin

text \<open>
  The scores of sorted-set entries are \<open>float64\<close> values computed from timestamps.  A \<open>float64\<close>
  is a rational here, and \<open>f64\<close> rounds a rational to the nearest one with a 53-bit significand,
  ties to even (the exponent range is not bounded: no score comes near its ends).  The two facts
  the storage relies on: rounding is monotone, and a value with a 53-bit significand is not
  changed.
\<close>

definition round_even :: "rat \<Rightarrow> int" where
  "round_even x =
     (let f = \<lfloor>x\<rfloor>; r = x - of_int f in
      if r < 1 / 2 then f else if 1 / 2 < r then f + 1 else if even f then f else f + 1)"

text \<open>The exponent of the leading bit of a positive rational.\<close>

definition expo :: "rat \<Rightarrow> int" where
  "expo x =
     (let (n, d) = quotient_of x;
          k = int (floorlog 2 (nat n)) - int (floorlog 2 (nat d))
      in if x < 2 powi k then k - 1 else k)"

definition f64_pos :: "rat \<Rightarrow> rat" where
  "f64_pos x = (let u = 2 powi (expo x - 52) in of_int (round_even (x / u)) * u)"

definition f64 :: "rat \<Rightarrow> rat" where
  "f64 x = (if x = 0 then 0 else if 0 < x then f64_pos x else - f64_pos (- x))"

section \<open>Rounding to an integer\<close>

lemma round_even_cases:
  "round_even x = \<lfloor>x\<rfloor> \<and> x - of_int \<lfloor>x\<rfloor> \<le> 1 / 2 \<or>
   round_even x = \<lfloor>x\<rfloor> + 1 \<and> 1 / 2 \<le> x - of_int \<lfloor>x\<rfloor>"
  by (auto simp: round_even_def Let_def)

lemma round_even_of_int [simp]: "round_even (of_int n) = n"
  by (simp add: round_even_def)

lemma round_even_near: "\<bar>of_int (round_even x) - x\<bar> \<le> 1 / 2"
  using round_even_cases [of x] floor_correct [of x] by (auto simp: abs_le_iff)

lemma round_even_unique: "\<bar>of_int n - x\<bar> < 1 / 2 \<Longrightarrow> round_even x = n"
proof -
  assume "\<bar>of_int n - x\<bar> < 1 / 2"
  with round_even_near [of x] have "\<bar>of_int (round_even x) - of_int n :: rat\<bar> < 1"
    by linarith
  then have "\<bar>round_even x - n\<bar> < 1"
    by (metis of_int_abs of_int_diff of_int_less_1_iff)
  then show ?thesis by simp
qed

lemma round_even_mono:
  assumes "x \<le> y" shows "round_even x \<le> round_even y"
proof (cases "\<lfloor>x\<rfloor> = \<lfloor>y\<rfloor>")
  case True
  with assms show ?thesis
    by (auto simp: round_even_def Let_def)
next
  case False
  with assms have "\<lfloor>x\<rfloor> + 1 \<le> \<lfloor>y\<rfloor>"
    by (meson floor_mono not_le order_antisym_conv zless_imp_add1_zle)
  with round_even_cases [of x] round_even_cases [of y] show ?thesis by auto
qed

section \<open>The exponent\<close>

lemma floorlog2_bounds:
  "0 < n \<Longrightarrow> 2 ^ (floorlog 2 n - 1) \<le> n \<and> n < 2 ^ floorlog 2 n \<and> 0 < floorlog 2 n"
  using floorlog_bounds [of n 2] by (auto simp: floorlog_def)

lemma expo_bounds:
  assumes "0 < x"
  shows "2 powi (expo x) \<le> x" "x < 2 powi (expo x + 1)"
proof -
  obtain n d where q: "quotient_of x = (n, d)"
    by fastforce
  have d: "0 < d" and x: "x = of_int n / of_int d"
    using quotient_of_denom_pos [OF q] quotient_of_div [OF q] by auto
  have n: "0 < n"
    using assms d x by (simp add: zero_less_divide_iff)
  define a b where "a = floorlog 2 (nat n)" and "b = floorlog 2 (nat d)"
  have na: "2 ^ (a - 1) \<le> nat n" "nat n < 2 ^ a" "0 < a"
    and db: "2 ^ (b - 1) \<le> nat d" "nat d < 2 ^ b" "0 < b"
    using floorlog2_bounds [of "nat n"] floorlog2_bounds [of "nat d"] n d
    by (auto simp: a_def b_def)
  have nr: "2 powi (int a - 1) \<le> (of_int n :: rat)" "(of_int n :: rat) < 2 powi int a"
  proof -
    have "(2 ^ (a - 1) :: rat) \<le> of_nat (nat n)"
      using na(1) by (metis of_nat_le_iff of_nat_numeral of_nat_power)
    then show "2 powi (int a - 1) \<le> (of_int n :: rat)"
      using na(3) n by (simp add: power_int_def nat_diff_distrib)
    have "of_nat (nat n) < (2 ^ a :: rat)"
      using na(2) by (metis of_nat_less_iff of_nat_numeral of_nat_power)
    then show "(of_int n :: rat) < 2 powi int a"
      using n by simp
  qed
  have dr: "2 powi (int b - 1) \<le> (of_int d :: rat)" "(of_int d :: rat) < 2 powi int b"
  proof -
    have "(2 ^ (b - 1) :: rat) \<le> of_nat (nat d)"
      using db(1) by (metis of_nat_le_iff of_nat_numeral of_nat_power)
    then show "2 powi (int b - 1) \<le> (of_int d :: rat)"
      using db(3) d by (simp add: power_int_def nat_diff_distrib)
    have "of_nat (nat d) < (2 ^ b :: rat)"
      using db(2) by (metis of_nat_less_iff of_nat_numeral of_nat_power)
    then show "(of_int d :: rat) < 2 powi int b"
      using d by simp
  qed
  define k where "k = int a - int b"
  have dpos: "0 < (of_int d :: rat)" using d by simp
  have "2 powi (int a - 1) = 2 powi (k - 1) * (2 powi int b :: rat)"
    using power_int_add [of "2::rat" "k - 1" "int b"] by (simp add: k_def)
  moreover have "2 powi (k - 1) * of_int d \<le> 2 powi (k - 1) * (2 powi int b :: rat)"
    using dr(2) by (intro mult_left_mono) simp_all
  ultimately have "2 powi (k - 1) * of_int d \<le> (of_int n :: rat)"
    using nr(1) by linarith
  then have lo: "2 powi (k - 1) \<le> x"
    using dpos x by (simp add: pos_le_divide_eq)
  have "2 powi int a = 2 powi (k + 1) * (2 powi (int b - 1) :: rat)"
    using power_int_add [of "2::rat" "k + 1" "int b - 1"] by (simp add: k_def)
  moreover have "2 powi (k + 1) * (2 powi (int b - 1) :: rat) \<le> 2 powi (k + 1) * of_int d"
    using dr(1) by (intro mult_left_mono) simp_all
  ultimately have "(of_int n :: rat) < 2 powi (k + 1) * of_int d"
    using nr(2) by linarith
  then have hi: "x < 2 powi (k + 1)"
    using dpos x by (simp add: pos_divide_less_eq)
  have "expo x = (if x < 2 powi k then k - 1 else k)"
    by (simp add: expo_def q k_def a_def b_def)
  with lo hi show "2 powi (expo x) \<le> x" "x < 2 powi (expo x + 1)"
    by (auto simp: not_less)
qed

lemma powi2_mono: "a \<le> b \<Longrightarrow> 2 powi a \<le> (2 powi b :: rat)"
  by (simp add: power_int_increasing)

lemma expo_unique:
  assumes "2 powi e \<le> x" "x < 2 powi (e + 1)"
  shows "expo x = e"
proof -
  have "0 < x"
    using assms(1) zero_less_power_int [of "2::rat" e] by linarith
  note b = expo_bounds [OF this]
  have "\<not> expo x < e"
    using powi2_mono [of "expo x + 1" e] b(2) assms(1) by auto
  moreover have "\<not> e < expo x"
    using powi2_mono [of "e + 1" "expo x"] b(1) assms(2) by auto
  ultimately show ?thesis by simp
qed

section \<open>Rounding is monotone and fixes representable values\<close>

lemma f64_pos_bounds:
  assumes "0 < x"
  shows "2 powi (expo x) \<le> f64_pos x" "f64_pos x \<le> 2 powi (expo x + 1)"
proof -
  define u :: rat where "u = 2 powi (expo x - 52)"
  have u: "0 < u" by (simp add: u_def)
  have e: "2 powi (expo x) = of_int (2 ^ 52) * u" "2 powi (expo x + 1) = of_int (2 ^ 53) * u"
    using power_int_add [of "2::rat" "expo x - 52" 52] power_int_add [of "2::rat" "expo x - 52" 53]
    by (simp_all add: u_def add.commute)
  have "of_int (2 ^ 52) \<le> x / u" "x / u \<le> of_int (2 ^ 53)"
    using expo_bounds [OF assms] u unfolding e by (simp_all add: pos_le_divide_eq pos_divide_le_eq)
  then have "2 ^ 52 \<le> round_even (x / u)" "round_even (x / u) \<le> 2 ^ 53"
    using round_even_mono round_even_of_int by metis+
  then have "of_int (2 ^ 52) * u \<le> of_int (round_even (x / u)) * u"
    "of_int (round_even (x / u)) * u \<le> of_int (2 ^ 53) * u"
    using u by (simp_all only: mult_le_cancel_right_pos of_int_le_iff)
  then show "2 powi (expo x) \<le> f64_pos x" "f64_pos x \<le> 2 powi (expo x + 1)"
    unfolding e f64_pos_def Let_def u_def [symmetric] by simp_all
qed

lemma f64_pos_mono:
  assumes "0 < x" "x \<le> y" shows "f64_pos x \<le> f64_pos y"
proof (cases "expo x = expo y")
  case True
  have "x / 2 powi (expo x - 52) \<le> y / 2 powi (expo x - 52)"
    using assms by (simp add: divide_right_mono)
  from round_even_mono [OF this] True show ?thesis
    by (simp add: f64_pos_def Let_def mult_right_mono)
next
  case False
  have "0 < y" using assms by simp
  have "\<not> expo y < expo x"
    using powi2_mono [of "expo y + 1" "expo x"] expo_bounds(1) [OF assms(1)] expo_bounds(2) [OF \<open>0 < y\<close>] assms(2)
    by auto
  with False have "2 powi (expo x + 1) \<le> (2 powi (expo y) :: rat)"
    by (intro powi2_mono) simp
  with f64_pos_bounds(2) [OF assms(1)] f64_pos_bounds(1) [OF \<open>0 < y\<close>] show ?thesis by linarith
qed

lemma f64_pos_gt_0: "0 < x \<Longrightarrow> 0 < f64_pos x"
  using f64_pos_bounds(1) [of x] zero_less_power_int [of "2::rat" "expo x"] by linarith

lemma f64_mono: "x \<le> y \<Longrightarrow> f64 x \<le> f64 y"
proof -
  assume le: "x \<le> y"
  consider "0 < x" | "y < 0" | "x \<le> 0" "0 \<le> y" by linarith
  then show ?thesis
  proof cases
    case 1
    with le show ?thesis by (simp add: f64_def f64_pos_mono)
  next
    case 2
    with le show ?thesis by (simp add: f64_def f64_pos_mono)
  next
    case 3
    then show ?thesis
      using f64_pos_gt_0 [of "- x"] f64_pos_gt_0 [of y] by (auto simp: f64_def)
  qed
qed

lemma f64_pos_exact:
  assumes "0 < m" "m < 2 ^ 53"
  shows "f64_pos (of_int m * 2 powi e) = of_int m * 2 powi e"
proof -
  define x :: rat where "x = of_int m * 2 powi e"
  have "0 < x" using assms by (simp add: x_def)
  note b = expo_bounds [OF this]
  have "x < 2 powi (53 + e)"
  proof -
    have "(of_int m :: rat) < of_int (2 ^ 53)" using assms(2) by (simp only: of_int_less_iff)
    then have "x < of_int (2 ^ 53) * 2 powi e" unfolding x_def by simp
    then show ?thesis using power_int_add [of "2::rat" 53 e] by simp
  qed
  then have "expo x < 53 + e"
    using powi2_mono [of "53 + e" "expo x"] b(1) by (meson leD leI order_trans)
  define u :: rat where "u = 2 powi (expo x - 52)"
  define w where "w = nat (e - (expo x - 52))"
  have u: "u \<noteq> 0" by (simp add: u_def)
  have "2 powi e = u * 2 powi (e - (expo x - 52))"
    using power_int_add [of "2::rat" "expo x - 52" "e - (expo x - 52)"] by (simp add: u_def)
  also have "2 powi (e - (expo x - 52)) = (2 ^ w :: rat)"
    using \<open>expo x < 53 + e\<close> by (simp add: w_def power_int_def)
  finally have x: "x = of_int (m * 2 ^ w) * u"
    by (simp add: x_def)
  then have "x / u = of_int (m * 2 ^ w)"
    using u by simp
  then have "f64_pos x = of_int (m * 2 ^ w) * u"
    unfolding f64_pos_def Let_def u_def [symmetric] by (simp only: round_even_of_int)
  also have "\<dots> = x" by (rule x [symmetric])
  finally show ?thesis by (simp only: x_def)
qed

lemma f64_exact:
  assumes "\<bar>m\<bar> < 2 ^ 53"
  shows "f64 (of_int m * 2 powi e) = of_int m * 2 powi e"
proof -
  consider "m = 0" | "0 < m" | "m < 0" by linarith
  then show ?thesis
  proof cases
    case 2
    then have "0 < (of_int m * 2 powi e :: rat)" by simp
    with 2 assms show ?thesis by (simp add: f64_def f64_pos_exact)
  next
    case 3
    then have neg: "of_int m * 2 powi e < (0 :: rat)"
      by (simp add: mult_neg_pos)
    have "f64 (of_int m * 2 powi e) = - f64_pos (of_int (- m) * 2 powi e)"
      using neg 3 by (simp add: f64_def)
    also have "\<dots> = - (of_int (- m) * 2 powi e)"
      using 3 assms by (subst f64_pos_exact) simp_all
    finally show ?thesis by simp
  qed (simp add: f64_def)
qed

lemma f64_of_int [simp]: "\<bar>m\<bar> < 2 ^ 53 \<Longrightarrow> f64 (of_int m) = of_int m"
  using f64_exact [of m 0] by simp

lemma f64_nonneg: "0 \<le> x \<Longrightarrow> 0 \<le> f64 x"
  using f64_mono [of 0 x] by (simp add: f64_def)

text \<open>Rounding moves a value below one by at most \<open>2 ^ -54\<close>.\<close>

lemma f64_near:
  assumes "0 < x" "expo x \<le> e"
  shows "\<bar>f64 x - x\<bar> \<le> 2 powi (e - 53)"
proof -
  define u :: rat where "u = 2 powi (expo x - 52)"
  have u: "0 < u" by (simp add: u_def)
  have "\<bar>of_int (round_even (x / u)) - x / u\<bar> * u \<le> 1 / 2 * u"
    using round_even_near u by (simp only: mult_le_cancel_right_pos)
  then have "\<bar>(of_int (round_even (x / u)) - x / u) * u\<bar> \<le> 1 / 2 * u"
    using u by (simp add: abs_mult)
  then have "\<bar>f64 x - x\<bar> \<le> 1 / 2 * u"
    using u assms(1) by (simp add: f64_def f64_pos_def Let_def u_def left_diff_distrib)
  moreover have "1 / 2 * u = 2 powi (expo x - 53)"
    using power_int_add [of "2::rat" "expo x - 52" "- 1"] by (simp add: u_def power_int_minus)
  ultimately show ?thesis
    using powi2_mono [of "expo x - 53" "e - 53"] assms(2) by simp
qed

section \<open>Scores\<close>

text \<open>
  \<open>float64(tim.Unix()) + (float64(tim.Nanosecond()) / 1000000000)\<close>, the score of a timestamp in
  \<open>src/storage/sorted_redis.go\<close>, and the way back in \<open>setEntry.Key\<close>.
\<close>

definition time_f :: "time \<Rightarrow> rat" where
  "time_f t =
     f64 (f64 (of_int (t div second)) + f64 (f64 (of_int (t mod second)) / 1000000000))"

text \<open>Go's conversion of a float to an integer drops the fraction.\<close>

definition trunc_f :: "rat \<Rightarrow> int" where
  "trunc_f x = (if x < 0 then - \<lfloor>- x\<rfloor> else \<lfloor>x\<rfloor>)"

definition score_time :: "rat \<Rightarrow> time" where
  "score_time score =
     (let secs = trunc_f score;
          nsecs = trunc_f (f64 (f64 (score - f64 (of_int secs)) * 1000000000))
      in secs * second + nsecs)"

lemma f64_le_1: "x \<le> 1 \<Longrightarrow> f64 x \<le> 1"
  using f64_mono [of x 1] f64_of_int [of 1] by simp

lemma time_f_parts:
  assumes "time_ok t"
  shows "time_f t = f64 (of_int (t div second) + f64 (of_int (t mod second) / 1000000000))"
    "0 \<le> f64 (of_int (t mod second) / 1000000000)" "f64 (of_int (t mod second) / 1000000000) \<le> 1"
proof -
  have "\<bar>t div second\<bar> < 2 ^ 53"
    using assms unfolding time_ok_def by (simp add: abs_if) linarith
  moreover have m: "0 \<le> t mod second" "t mod second < second"
    by simp_all
  ultimately show "time_f t = f64 (of_int (t div second) + f64 (of_int (t mod second) / 1000000000))"
    by (simp add: time_f_def)
  show "0 \<le> f64 (of_int (t mod second) / 1000000000)"
    using m(1) by (intro f64_nonneg) simp
  have "(of_int (t mod second) :: rat) \<le> of_int second"
    using m(2) by (simp only: of_int_le_iff)
  then show "f64 (of_int (t mod second) / 1000000000) \<le> 1"
    by (intro f64_le_1) simp
qed

lemma time_f_mono:
  assumes "time_ok t" "time_ok u" "t \<le> u"
  shows "time_f t \<le> time_f u"
proof -
  let ?f = "\<lambda>t. f64 (of_int (t mod second) / 1000000000)"
  note pt = time_f_parts [OF assms(1)] and pu = time_f_parts [OF assms(2)]
  have "of_int (t div second) + ?f t \<le> of_int (u div second) + ?f u"
  proof (cases "t div second = u div second")
    case True
    with assms(3) have "t mod second \<le> u mod second"
      by (metis add_le_cancel_left mult_div_mod_eq)
    then have "?f t \<le> ?f u"
      by (intro f64_mono divide_right_mono) simp_all
    with True show ?thesis by simp
  next
    case False
    with assms(3) have "t div second + 1 \<le> u div second"
      using zdiv_mono1 [of t u second] by simp
    then have "of_int (t div second) + 1 \<le> (of_int (u div second) :: rat)"
      by (metis of_int_1 of_int_add of_int_le_iff)
    with pt(3) pu(2) show ?thesis by linarith
  qed
  then show ?thesis
    unfolding pt(1) pu(1) by (rule f64_mono)
qed

section \<open>A score survives the trip through its key\<close>

text \<open>
  \<open>setEntry.Key\<close> turns a score into a timestamp and \<open>decompose\<close> turns the timestamp into a score
  again.  From 2004 on the spacing of scores is at least \<open>2 ^ -22\<close> seconds, far more than the
  nanosecond the timestamp loses, so the trip ends where it began.
\<close>

lemma trunc_f_nonneg: "0 \<le> x \<Longrightarrow> trunc_f x = \<lfloor>x\<rfloor>"
  by (simp add: trunc_f_def)

lemma of_int_div_mod:
  assumes "0 < (N::int)"
  shows "of_int r / of_int N = of_int (r div N) + (of_int (r mod N) / of_int N :: rat)"
proof -
  have "(of_int r :: rat) = of_int N * of_int (r div N) + of_int (r mod N)"
    by (simp flip: of_int_mult of_int_add)
  then have "of_int r / of_int N
      = (of_int N * of_int (r div N)) / of_int N + (of_int (r mod N) / of_int N :: rat)"
    by (simp only: add_divide_distrib)
  then show ?thesis using assms by simp
qed

lemma dyadic_secs:
  fixes r :: int
  assumes "2 ^ 12 \<le> N" "0 \<le> r" "r \<le> 2 ^ 53"
  shows "0 \<le> r div N" "r div N \<le> 2 ^ 41"
proof -
  show "0 \<le> r div N" using assms by (simp add: pos_imp_zdiv_nonneg_iff)
  have "r div N \<le> 2 ^ 53 div N" using assms by (intro zdiv_mono1) simp_all
  also have "\<dots> \<le> 2 ^ 53 div 2 ^ 12" using assms by (intro zdiv_mono2) simp_all
  finally show "r div N \<le> 2 ^ 41" by simp
qed

lemma small_mod:
  fixes N :: int
  assumes "0 < N" "N \<le> 2 ^ 22"
  shows "r mod N \<le> 2 ^ 22" "\<bar>r mod N\<bar> < 2 ^ 53"
proof -
  have "w \<le> 2 ^ 22 \<and> \<bar>w\<bar> < 2 ^ 53" if "0 \<le> w" "w < N" for w
    using that assms by simp
  from this [OF pos_mod_sign [OF assms(1)] pos_mod_bound [OF assms(1)], of r]
  show "r mod N \<le> 2 ^ 22" "\<bar>r mod N\<bar> < 2 ^ 53" by blast+
qed

lemma score_time_dyadic:
  fixes r :: int
  assumes n: "12 \<le> n" "n \<le> 22" and r: "0 \<le> r" "r \<le> 2 ^ 53"
  defines "N \<equiv> (2 ^ n :: int)"
  shows "score_time (of_int r / of_int N)
    = (r div N) * second + \<lfloor>of_int (r mod N) * 1000000000 / (of_int N :: rat)\<rfloor>"
    (is "_ = _ * _ + ?q")
    and "0 \<le> \<lfloor>of_int (r mod N) * 1000000000 / (of_int N :: rat)\<rfloor>"
    and "\<lfloor>of_int (r mod N) * 1000000000 / (of_int N :: rat)\<rfloor> < second"
proof -
  have N: "0 < N" "2 ^ 12 \<le> N" "N \<le> 2 ^ 22"
    using power_increasing [OF n(1), of "2::int"] power_increasing [OF n(2), of "2::int"]
    by (simp_all add: N_def)
  have m: "0 \<le> r mod N" "r mod N < N"
    using N by simp_all
  have inv: "(1 / of_int N :: rat) = 2 powi (- int n)"
    by (simp add: N_def power_int_minus divide_inverse)
  have secs: "trunc_f (of_int r / of_int N) = r div N"
    using r N by (simp add: trunc_f_nonneg floor_divide_of_int_eq)
  have "\<bar>r div N\<bar> < 2 ^ 53"
    using dyadic_secs [OF N(2) r] by simp
  then have fsecs: "f64 (of_int (r div N)) = of_int (r div N)"
    by (rule f64_of_int)
  have diff: "of_int r / of_int N - of_int (r div N) = of_int (r mod N) * (1 / of_int N :: rat)"
    using of_int_div_mod [OF N(1), of r] by simp
  note sm = small_mod [OF N(1,3), of r]
  from sm(2) have f1: "f64 (of_int r / of_int N - of_int (r div N)) = of_int (r mod N) * (1 / of_int N)"
    unfolding diff inv by (rule f64_exact)
  have "r mod N * 1953125 \<le> 2 ^ 22 * 1953125"
    using sm(1) by (intro mult_right_mono) simp_all
  then have "\<bar>r mod N * 1953125\<bar> < 2 ^ 53"
    using m by simp
  note ex = f64_exact [OF this, of "9 - int n"]
  have "of_int (r mod N * 1953125) * 2 powi (9 - int n)
      = of_int (r mod N) * (1 / of_int N) * (1000000000 :: rat)"
    using power_int_add [of "2::rat" 9 "- int n"] by (simp add: inv)
  with ex have f2: "f64 (of_int (r mod N) * (1 / of_int N) * 1000000000)
      = of_int (r mod N) * 1000000000 / (of_int N :: rat)"
    by (simp only:) (simp add: divide_inverse)
  have nn: "0 \<le> of_int (r mod N) * 1000000000 / (of_int N :: rat)"
    using m N by simp
  show "score_time (of_int r / of_int N) = (r div N) * second + ?q"
    unfolding score_time_def Let_def secs fsecs f1 f2 using nn by (simp only: trunc_f_nonneg)
  show "0 \<le> ?q" using nn by simp
  have "of_int (r mod N) < (of_int N :: rat)" using m(2) by (simp only: of_int_less_iff)
  then show "?q < second"
    using N(1) by (simp add: floor_less_iff field_simps)
qed

text \<open>The binade of a number with 53 significant bits that is not an integer.\<close>

lemma dyadic_binade:
  fixes r :: int
  assumes n: "12 \<le> n" "n \<le> 22" and r: "2 ^ 52 \<le> r" "r \<le> 2 ^ 53" and m: "r mod 2 ^ n \<noteq> 0"
  shows "2 powi (52 - int n) \<le> (of_int (r div 2 ^ n) :: rat)"
    "of_int r / of_int (2 ^ n) < (2 powi (52 - int n + 1) :: rat)"
proof -
  let ?N = "2 ^ n :: int"
  have "2 ^ (52 - n) * ?N \<le> r" using n r(1) by (simp flip: power_add)
  then have "2 ^ (52 - n) \<le> r div ?N" using zdiv_mono1 [of "2 ^ (52 - n) * ?N" r ?N] by simp
  then have "(2 ^ (52 - n) :: rat) \<le> of_int (r div ?N)"
    by (metis of_int_le_iff of_int_numeral of_int_power)
  moreover have "2 powi (52 - int n) = (2 ^ (52 - n) :: rat)"
    using n by (simp add: power_int_def nat_diff_distrib)
  ultimately show "2 powi (52 - int n) \<le> (of_int (r div ?N) :: rat)" by simp
  have "r \<noteq> 2 ^ (53 - n) * ?N" using m by (metis mod_mult_self2_is_0)
  moreover have N: "2 ^ (53 - n) * ?N = 2 ^ 53" using n by (simp flip: power_add)
  ultimately have "r < 2 ^ (53 - n) * ?N" using r(2) by simp
  then have "(of_int r :: rat) < of_int (2 ^ (53 - n) * ?N)" by (simp only: of_int_less_iff)
  then have "of_int r / of_int ?N < (of_int (2 ^ (53 - n)) :: rat)"
    by (simp only: pos_divide_less_eq of_int_0_less_iff zero_less_power zero_less_numeral of_int_mult)
  moreover have "52 - int n + 1 = int (53 - n)" using n by simp
  ultimately show "of_int r / of_int ?N < (2 powi (52 - int n + 1) :: rat)"
    by (simp only: power_int_of_nat of_int_power of_int_numeral)
qed

text \<open>A fraction of a second cut to nanoseconds and rounded is just below it.\<close>

lemma f64_nanos:
  assumes "q = \<lfloor>g * 1000000000\<rfloor>" "0 \<le> g" "g < 1" "f64 g = g"
  shows "f64 (of_int q / 1000000000) \<le> g" "g - 1 / 1000000000 - 1 / 2 ^ 54 < f64 (of_int q / 1000000000)"
    "0 \<le> f64 (of_int q / 1000000000)"
proof -
  have q: "of_int q \<le> g * 1000000000" "g * 1000000000 < of_int q + 1" "0 \<le> q"
    using floor_correct [of "g * 1000000000"] assms(1,2) by simp_all
  let ?x = "of_int q / 1000000000 :: rat"
  have g: "?x \<le> g" "g - 1 / 1000000000 < ?x" using q by simp_all
  from f64_mono [OF g(1)] show "f64 ?x \<le> g" using assms(4) by simp
  show "0 \<le> f64 ?x" using q(3) by (intro f64_nonneg) simp
  show "g - 1 / 1000000000 - 1 / 2 ^ 54 < f64 ?x"
  proof (cases "q = 0")
    case True
    with g(2) show ?thesis by (simp add: f64_def)
  next
    case False
    with q(3) have pos: "0 < ?x" by simp
    have "expo ?x \<le> - 1"
    proof (rule ccontr)
      assume "\<not> expo ?x \<le> - 1"
      then have "2 powi 0 \<le> (2 powi (expo ?x) :: rat)"
        by (intro powi2_mono) simp
      with expo_bounds(1) [OF pos] g(1) assms(3) show False by simp
    qed
    from f64_near [OF pos this] have "\<bar>f64 ?x - ?x\<bar> \<le> 1 / 2 ^ 54"
      by (simp add: power_int_def power_one_over)
    with g(2) show ?thesis by linarith
  qed
qed

text \<open>A number near a multiple of the unit of its binade is rounded to it.\<close>

lemma f64_grid:
  assumes "u = 2 powi (e - 52)" "2 powi e \<le> y" "y < 2 powi (e + 1)" "\<bar>of_int r * u - y\<bar> < 1 / 2 * u"
  shows "f64 y = of_int r * u"
proof -
  have u: "0 < u" and y: "0 < y" using zero_less_power_int [of "2::rat"] assms(1,2) by (simp, meson less_le_trans zero_less_numeral)
  have "\<bar>of_int r - y / u\<bar> * u < 1 / 2 * u"
    using u assms(4) by (simp add: abs_mult_pos field_simps)
  then have "round_even (y / u) = r"
    using u by (intro round_even_unique) (simp only: mult_less_cancel_right_pos)
  with y show ?thesis
    by (simp add: f64_def f64_pos_def expo_unique [OF assms(2,3)] flip: assms(1))
qed

lemma time_f_dyadic:
  fixes r :: int
  assumes n: "12 \<le> n" "n \<le> 22" and r: "2 ^ 52 \<le> r" "r \<le> 2 ^ 53"
  defines "N \<equiv> (2 ^ n :: int)"
  defines "s \<equiv> of_int r / (of_int N :: rat)"
  shows "time_f (score_time s) = s"
proof -
  define q where "q = \<lfloor>of_int (r mod N) * 1000000000 / (of_int N :: rat)\<rfloor>"
  have N: "0 < N" "2 ^ 12 \<le> N" "N \<le> 2 ^ 22"
    using power_increasing [OF n(1), of "2::int"] power_increasing [OF n(2), of "2::int"]
    by (simp_all add: N_def)
  note sd = score_time_dyadic [OF n _ r(2), folded N_def, folded s_def, folded q_def]
  have st: "score_time s = r div N * second + q" and q: "0 \<le> q" "q < second"
    using sd r by simp_all
  have "0 \<le> r" using r(1) by simp
  note sdiv = dyadic_secs [OF N(2) this r(2)]
  define g :: rat where "g = of_int (r mod N) / of_int N"
  define y where "y = of_int (r div N) + f64 (of_int q / 1000000000)"
  have tf: "time_f (score_time s) = f64 y"
    using sdiv q by (simp add: time_f_def y_def st)
  have s: "s = of_int (r div N) + g" "s = of_int r * (1 / of_int N)"
    unfolding s_def g_def by (rule of_int_div_mod [OF N(1)]) simp
  have "f64 g = g"
    using f64_exact [OF small_mod(2) [OF N(1,3), of r], of "- int n"]
    by (simp add: g_def N_def power_int_minus divide_inverse)
  moreover have "0 \<le> g" "g < 1" using N(1) by (simp_all add: g_def)
  ultimately have h: "y \<le> s" "s - 1 / 1000000000 - 1 / 2 ^ 54 < y" "of_int (r div N) \<le> y"
    using f64_nanos [of q g] s(1) by (simp_all add: q_def g_def y_def)
  show ?thesis
  proof (cases "r mod N = 0")
    case True
    then have "q = 0" "g = 0" by (simp_all add: q_def g_def)
    then show ?thesis
      using tf s(1) sdiv by (simp add: y_def f64_def [of 0])
  next
    case False
    define e where "e = 52 - int n"
    note b = dyadic_binade [OF n r False [unfolded N_def], folded N_def e_def, folded s_def]
    define u :: rat where "u = 1 / of_int N"
    have ue: "u = 2 powi (e - 52)"
      by (simp add: u_def N_def e_def power_int_minus divide_inverse)
    have "(of_int N :: rat) \<le> of_int (2 ^ 22)" using N(3) by (simp only: of_int_le_iff)
    then have u: "1 / 2 ^ 22 \<le> u" using N(1) by (simp add: u_def field_simps)
    note su = s(2) [folded u_def]
    have "\<bar>of_int r * u - y\<bar> < 1 / 2 * u"
      using h(1,2) u by (simp flip: su)
    moreover note order_trans [OF b(1) h(3)] le_less_trans [OF h(1) b(2)]
    ultimately have "f64 y = of_int r * u" by (intro f64_grid [OF ue])
    then show ?thesis unfolding tf by (simp only: su)
  qed
qed

text \<open>
  Times from 2004 to the end of 9999 (less two seconds, so that a score rounded up is still in that
  year), where scores are at least \<open>2 ^ -22\<close> seconds apart.
\<close>

definition modern_time :: "time \<Rightarrow> bool" where
  "modern_time t \<longleftrightarrow> 2 ^ 30 \<le> t div second \<and> t < 253402300798 * second"

lemma modern_time_ok: "modern_time t \<Longrightarrow> time_ok t"
  unfolding modern_time_def time_ok_def by (simp; linarith)

lemma time_f_score_time:
  assumes "modern_time t"
  shows "time_f (score_time (time_f t)) = time_f t"
proof -
  define x where "x = of_int (t div second) + f64 (of_int (t mod second) / 1000000000)"
  note parts = time_f_parts [OF modern_time_ok [OF assms], folded x_def]
  have div: "2 ^ 30 \<le> t div second" "t div second \<le> 2 ^ 39"
    using assms zdiv_mono1 [of t "253402300798 * second" second] unfolding modern_time_def by simp_all
  then have "(of_int (2 ^ 30) :: rat) \<le> of_int (t div second)"
    "(of_int (t div second) :: rat) \<le> of_int (2 ^ 39)"
    by (simp_all only: of_int_le_iff)
  then have x: "2 powi 30 \<le> x" "x < 2 powi 40"
    using parts(2,3) by (simp_all add: x_def)
  then have pos: "0 < x" by simp
  have e: "30 \<le> expo x" "expo x \<le> 39"
  proof -
    show "30 \<le> expo x"
    proof (rule ccontr)
      assume "\<not> 30 \<le> expo x"
      then have "2 powi (expo x + 1) \<le> (2 powi 30 :: rat)"
        by (intro powi2_mono) simp
      with expo_bounds(2) [OF pos] x(1) show False by linarith
    qed
    show "expo x \<le> 39"
    proof (rule ccontr)
      assume "\<not> expo x \<le> 39"
      then have "2 powi 40 \<le> (2 powi (expo x) :: rat)"
        by (intro powi2_mono) simp
      with expo_bounds(1) [OF pos] x(2) show False by linarith
    qed
  qed
  define n where "n = nat (52 - expo x)"
  have n: "12 \<le> n" "n \<le> 22"
    using e by (simp_all add: n_def)
  define r where "r = round_even (x / 2 powi (expo x - 52))"
  have u: "2 powi (expo x - 52) = (1 / of_int (2 ^ n) :: rat)"
    using e by (simp add: n_def power_int_def power_one_over)
  have s: "time_f t = of_int r / of_int (2 ^ n)"
    using pos by (simp add: parts(1) f64_def f64_pos_def Let_def r_def u)
  have "f64 x = f64_pos x" using pos by (simp add: f64_def)
  then have fx: "of_int r * 2 powi (expo x - 52) = f64_pos x"
    by (simp add: f64_pos_def r_def Let_def)
  have "2 powi (expo x) = of_int (2 ^ 52) * (2 powi (expo x - 52) :: rat)"
    "2 powi (expo x + 1) = of_int (2 ^ 53) * (2 powi (expo x - 52) :: rat)"
    using power_int_add [of "2::rat" "expo x - 52" 52] power_int_add [of "2::rat" "expo x - 52" 53]
    by (simp_all add: add.commute)
  then have "of_int (2 ^ 52) * (2 powi (expo x - 52)) \<le> of_int r * (2 powi (expo x - 52) :: rat)"
    "of_int r * (2 powi (expo x - 52)) \<le> of_int (2 ^ 53) * (2 powi (expo x - 52) :: rat)"
    using f64_pos_bounds [OF pos] unfolding fx by simp_all
  then have "2 ^ 52 \<le> r" "r \<le> 2 ^ 53"
    by (simp_all only: mult_le_cancel_right_pos zero_less_power_int zero_less_numeral of_int_le_iff)
  from time_f_dyadic [OF n this] show ?thesis
    by (simp add: s)
qed

lemma score_time_bounds:
  assumes "0 \<le> x" "x \<le> of_int n" "n < 2 ^ 53"
  shows "0 \<le> score_time x" "score_time x \<le> n * second + second"
proof -
  define k where "k = \<lfloor>x\<rfloor>"
  have k: "0 \<le> k" "k \<le> n" "of_int k \<le> x" "x < of_int k + 1"
    using assms floor_correct [of x] by (auto simp: k_def floor_le_iff le_floor_iff)
  have "f64 (of_int k) = of_int k"
    using k assms by (intro f64_of_int) simp
  then have d: "0 \<le> f64 (x - f64 (of_int k))" "f64 (x - f64 (of_int k)) \<le> 1"
    using k by (auto intro: f64_nonneg f64_le_1)
  define y where "y = f64 (f64 (x - f64 (of_int k)) * 1000000000)"
  have "0 \<le> y"
    using d unfolding y_def by (intro f64_nonneg) simp
  moreover have "y \<le> 1000000000"
    using f64_mono [of "f64 (x - f64 (of_int k)) * 1000000000" "of_int 1000000000"] d
      f64_of_int [of 1000000000] by (simp add: y_def)
  ultimately have "0 \<le> trunc_f y" "trunc_f y \<le> 1000000000"
    by (simp_all add: trunc_f_nonneg floor_le_iff)
  moreover have "score_time x = k * second + trunc_f y"
    using assms(1) by (simp add: score_time_def Let_def trunc_f_nonneg k_def y_def)
  moreover have "k * second \<le> n * second" "0 \<le> k * second"
    using k by simp_all
  ultimately show "0 \<le> score_time x" "score_time x \<le> n * second + second"
    by linarith+
qed

lemma time_ok_score_time:
  assumes "modern_time t"
  shows "time_ok (score_time (time_f t))"
proof -
  note parts = time_f_parts [OF modern_time_ok [OF assms]]
  have div: "2 ^ 30 \<le> t div second" "t div second \<le> 253402300797"
    using assms zdiv_mono1 [of t "253402300798 * second - 1" second] unfolding modern_time_def by simp_all
  have lo: "0 \<le> time_f t"
    using parts div unfolding parts(1) by (intro f64_nonneg) simp
  have "time_f t \<le> f64 (of_int (t div second + 1))"
    unfolding parts(1) by (rule f64_mono) (use parts in simp)
  also have "\<dots> = of_int (t div second + 1)"
    by (rule f64_of_int) (use div in simp)
  finally have "0 \<le> score_time (time_f t)" "score_time (time_f t) \<le> (t div second + 1) * second + second"
    using score_time_bounds [OF lo, of "t div second + 1"] div by simp_all
  moreover have "(t div second + 1) * second \<le> 253402300798 * second"
    using div by (intro mult_right_mono) simp_all
  ultimately show ?thesis
    unfolding time_ok_def by simp
qed

end
