(* ===== verification/Decode.thy ===== *)
theory Decode
  imports Json Float64
begin

text \<open>
  Decoding a parsed JSON value into Go values, as \<open>json.Unmarshal\<close> does it.  Into an
  \<open>interface{}\<close> a number becomes a \<open>float64\<close>; it is represented by the literal \<open>json.Marshal\<close>
  writes for that \<open>float64\<close>, and an object becomes a map, represented by its entries in key order
  (the order \<open>json.Marshal\<close> writes).  A struct is decoded field by field in the order of the text;
  a field is matched exactly or, failing that, up to case, unknown fields are ignored and \<open>null\<close>
  leaves a string or number as it was.  A type error is reported at the end by Go and at once here:
  no caller looks at a value whose decoding failed.  The messages of syntax errors are not modelled,
  one text stands for them all.
\<close>

section \<open>Numbers as float64\<close>

definition pow10 :: "int \<Rightarrow> rat" where
  "pow10 e = 10 powi e"

text \<open>The value of a number literal.\<close>

definition num_val :: "string \<Rightarrow> rat" where
  "num_val s =
     (let neg = (s \<noteq> [] \<and> hd s = CHR ''-'');
          u = (if neg then tl s else s);
          ip = takeWhile is_digit u;
          u1 = dropWhile is_digit u;
          dot = (u1 \<noteq> [] \<and> hd u1 = CHR ''.'');
          fp = (if dot then takeWhile is_digit (tl u1) else []);
          u2 = (if dot then dropWhile is_digit (tl u1) else u1);
          ex = tl u2;
          eneg = (ex \<noteq> [] \<and> hd ex = CHR ''-'');
          ed = (if ex \<noteq> [] \<and> (hd ex = CHR ''-'' \<or> hd ex = CHR ''+'') then tl ex else ex);
          e = (if u2 = [] then 0 else if eneg then - int (read_nat ed) else int (read_nat ed));
          m = of_nat (read_nat (ip @ fp)) * pow10 (e - int (length fp))
      in if neg then - m else m)"

text \<open>Rounding with the exponent range of a \<open>float64\<close>; \<open>None\<close> is out of range.\<close>

definition to_float64 :: "rat \<Rightarrow> rat option" where
  "to_float64 x =
     (if x = 0 then Some 0
      else if expo \<bar>x\<bar> < - 1022
      then Some (of_int (round_even (x * 2 powi 1074)) * 2 powi (- 1074))
      else (let y = f64 x in if 1024 \<le> expo \<bar>y\<bar> then None else Some y))"

text \<open>The number of digits before the decimal point (negative: zeros behind it).\<close>

fun dec_low :: "nat \<Rightarrow> rat \<Rightarrow> int" where
  "dec_low 0 x = 0"
| "dec_low (Suc f) x = (if 1 / 10 \<le> x then 0 else dec_low f (10 * x) - 1)"

definition dec_exp :: "rat \<Rightarrow> int" where
  "dec_exp x = (if 1 \<le> x then int (length (show_nat (nat \<lfloor>x\<rfloor>))) else dec_low 400 x)"

text \<open>The shortest digits that denote the \<open>float64\<close> \<open>x\<close>, the closer of two: \<open>d * 10 ^ e\<close>.\<close>

fun short_digits :: "nat \<Rightarrow> int \<Rightarrow> rat \<Rightarrow> nat \<times> int" where
  "short_digits 0 e x = (0, 0)"
| "short_digits (Suc f) e x =
     (let d = \<lfloor>x / pow10 e\<rfloor>;
          lo = of_int d * pow10 e; hi = of_int (d + 1) * pow10 e;
          okl = (to_float64 lo = Some x); okh = (to_float64 hi = Some x)
      in if okl \<and> (\<not> okh \<or> x - lo \<le> hi - x) then (nat d, e)
         else if okh then (nat (d + 1), e)
         else short_digits f (e - 1) x)"

fun strip_tens :: "nat \<Rightarrow> nat \<times> int \<Rightarrow> nat \<times> int" where
  "strip_tens 0 p = p"
| "strip_tens (Suc f) (d, e) =
     (if d \<noteq> 0 \<and> d mod 10 = 0 then strip_tens f (d div 10, e + 1) else (d, e))"

text \<open>\<open>strconv.AppendFloat\<close> as \<open>encoding/json\<close> calls it, for a positive value.\<close>

definition show_pos_float :: "rat \<Rightarrow> string" where
  "show_pos_float x =
     (let (d, e) = strip_tens 20 (short_digits 18 (dec_exp x - 1) x);
          ds = show_nat d; n = int (length ds) + e
      in if x < pow10 (- 6) \<or> pow10 21 \<le> x then
           (let frac = (if length ds = 1 then [] else CHR ''.'' # tl ds)
            in [hd ds] @ frac @ (if n - 1 < 0 then ''e-'' @ show_nat (nat (1 - n)) else ''e+'' @ show_nat (nat (n - 1))))
         else if 0 \<le> e then ds @ replicate (nat e) CHR ''0''
         else if 0 < n then take (nat n) ds @ ''.'' @ drop (nat n) ds
         else ''0.'' @ replicate (nat (- n)) CHR ''0'' @ ds)"

text \<open>The literal written for the \<open>float64\<close> a literal is read as.\<close>

definition canon_num :: "string \<Rightarrow> string option" where
  "canon_num s =
     (let neg = (s \<noteq> [] \<and> hd s = CHR ''-'') in
      case to_float64 (num_val s) of
        None \<Rightarrow> None
      | Some x \<Rightarrow>
          if x = 0 then Some (if neg then ''-0'' else ''0'')
          else if 0 < x then Some (show_pos_float x)
          else Some (CHR ''-'' # show_pos_float (- x)))"

section \<open>Decoding into an interface\<close>

text \<open>A map entry, in key order, the last one for a key wins.\<close>

fun obj_put :: "string \<Rightarrow> json \<Rightarrow> (string \<times> json) list \<Rightarrow> (string \<times> json) list" where
  "obj_put k v [] = [(k, v)]"
| "obj_put k v ((j, w) # kvs) =
     (if k = j then (k, v) # kvs else if k < j then (k, v) # (j, w) # kvs else (j, w) # obj_put k v kvs)"

fun go_any :: "json \<Rightarrow> json option"
  and go_any_list :: "json list \<Rightarrow> json list option"
  and go_any_obj :: "(string \<times> json) list \<Rightarrow> (string \<times> json) list \<Rightarrow> (string \<times> json) list option" where
  "go_any JNull = Some JNull"
| "go_any (JBool b) = Some (JBool b)"
| "go_any (JNum n) = map_option JNum (canon_num n)"
| "go_any (JStr s) = Some (JStr s)"
| "go_any (JArr vs) = map_option JArr (go_any_list vs)"
| "go_any (JObj kvs) = map_option JObj (go_any_obj kvs [])"
| "go_any_list [] = Some []"
| "go_any_list (v # vs) =
     (case go_any v of
        None \<Rightarrow> None
      | Some w \<Rightarrow> map_option (\<lambda>ws. w # ws) (go_any_list vs))"
| "go_any_obj [] acc = Some acc"
| "go_any_obj ((k, v) # kvs) acc =
     (case go_any v of None \<Rightarrow> None | Some w \<Rightarrow> go_any_obj kvs (obj_put k w acc))"

text \<open>A value of type \<open>interface{}\<close> in the representation above.\<close>

definition sorted_keys :: "(string \<times> json) list \<Rightarrow> bool" where
  "sorted_keys kvs = sorted_wrt (<) (map fst kvs)"

fun json_normal :: "json \<Rightarrow> bool" where
  "json_normal (JNum n) = (valid_num n \<and> list_all num_char n \<and> canon_num n = Some n)"
| "json_normal (JArr vs) = list_all json_normal vs"
| "json_normal (JObj kvs) = (sorted_keys kvs \<and> list_all (\<lambda>(k, v). json_normal v) kvs)"
| "json_normal _ = True"

lemma obj_put_last:
  "sorted_keys (kvs @ [(k, v)]) \<Longrightarrow> obj_put k v kvs = kvs @ [(k, v)]"
  by (induction kvs) (auto simp: sorted_keys_def sorted_wrt_append)

lemma go_any_normal:
  "json_normal v \<Longrightarrow> go_any v = Some v"
  "list_all json_normal vs \<Longrightarrow> go_any_list vs = Some vs"
  "list_all (\<lambda>(k, v). json_normal v) kvs \<Longrightarrow> sorted_keys (acc @ kvs) \<Longrightarrow>
   go_any_obj kvs acc = Some (acc @ kvs)"
proof (induction v and vs and kvs acc rule: go_any_go_any_list_go_any_obj.induct)
  case (10 k v kvs acc)
  then have "obj_put k v acc = acc @ [(k, v)]"
    by (intro obj_put_last) (auto simp: sorted_keys_def sorted_wrt_append)
  with 10 show ?case by simp
qed simp_all

lemma json_normal_ok [simp]: "json_normal v \<Longrightarrow> json_ok v"
  by (induction v) (auto simp: list_all_iff)

text \<open>
  A number written for \<open>encoding/json\<close>: the rounding, digit search and formatting on a one-digit
  literal, by rewriting.
\<close>

lemma floorlog_num: "floorlog 2 x = (if x > 0 then floorlog 2 (x div 2) + 1 else 0)"
  using compute_floorlog [of 2 x] by simp

lemma strip_tens_none: "d mod 10 \<noteq> 0 \<Longrightarrow> strip_tens f (d, e) = (d, e)"
  by (cases f) auto

lemma short_digits_hit:
  "\<lbrakk>\<lfloor>x / pow10 e\<rfloor> = d; of_int d * pow10 e = x; to_float64 x = Some x; 0 < pow10 e\<rbrakk> \<Longrightarrow>
   short_digits (Suc f) e x = (nat d, e)"
  by (auto simp: Let_def algebra_simps)

lemma canon_num_3: "canon_num ''3'' = Some ''3''"
proof -
  have f: "to_float64 3 = Some 3"
    by (simp add: to_float64_def expo_def f64_def f64_pos_def round_even_def floorlog_num)
  have "num_val ''3'' = 3"
    by (simp add: num_val_def is_digit_def read_nat_def digit_val_def pow10_def)
  moreover have "show_nat 3 = ''3''"
    by (simp add: show_nat.simps digit_char_def)
  moreover have "short_digits 18 0 3 = (3, 0)"
    using short_digits_hit [of 3 0 3 17] f by (simp add: pow10_def)
  moreover have "strip_tens 20 (3, 0) = (3, 0)"
    by (simp add: strip_tens_none)
  ultimately show ?thesis
    using f by (simp add: canon_num_def show_pos_float_def dec_exp_def pow10_def)
qed

section \<open>Decoding into a struct\<close>

text \<open>Keys are compared up to case; U+017F and U+212A fold to \<open>s\<close> and \<open>k\<close>.\<close>

definition lower_char :: "char \<Rightarrow> char" where
  "lower_char c =
     (let n = (of_char c :: nat) in if 65 \<le> n \<and> n \<le> 90 then char_of (n + 32) else c)"

fun fold_key :: "string \<Rightarrow> string" where
  "fold_key [] = []"
| "fold_key (c # cs) =
     (if has_prefix (c # cs) [CHR 0xC5, CHR 0xBF] then CHR ''s'' # fold_key (drop 1 cs)
      else if has_prefix (c # cs) [CHR 0xE2, CHR 0x84, CHR 0xAA] then CHR ''k'' # fold_key (drop 2 cs)
      else lower_char c # fold_key cs)"

definition find_field :: "string \<Rightarrow> (string \<times> 'a) list \<Rightarrow> 'a option" where
  "find_field k fs =
     (case map_of fs k of
        Some f \<Rightarrow> Some f
      | None \<Rightarrow> map_option snd (find (\<lambda>(n, f). fold_key n = fold_key k) fs))"

definition json_kind :: "json \<Rightarrow> string" where
  "json_kind v =
     (case v of JNull \<Rightarrow> ''null'' | JBool b \<Rightarrow> ''bool'' | JNum n \<Rightarrow> ''number'' | JStr s \<Rightarrow> ''string''
      | JArr vs \<Rightarrow> ''array'' | JObj kvs \<Rightarrow> ''object'')"

definition type_err :: "string \<Rightarrow> json \<Rightarrow> 'a gores" where
  "type_err t v = Err (GErr (''json: cannot unmarshal '' @ json_kind v @ '' into Go value of type '' @ t))"

definition dec_str :: "json \<Rightarrow> string \<Rightarrow> string gores" where
  "dec_str v old = (case v of JNull \<Rightarrow> Ok old | JStr s \<Rightarrow> Ok s | _ \<Rightarrow> type_err ''string'' v)"

definition dec_bool :: "json \<Rightarrow> bool \<Rightarrow> bool gores" where
  "dec_bool v old = (case v of JNull \<Rightarrow> Ok old | JBool b \<Rightarrow> Ok b | _ \<Rightarrow> type_err ''bool'' v)"

definition dec_int :: "json \<Rightarrow> int \<Rightarrow> int gores" where
  "dec_int v old =
     (case v of
        JNull \<Rightarrow> Ok old
      | JNum n \<Rightarrow> (case atoi n of Ok i \<Rightarrow> Ok i | _ \<Rightarrow> type_err ''int'' v)
      | _ \<Rightarrow> type_err ''int'' v)"

text \<open>A slice: \<open>null\<close> is the nil slice, elements are decoded over the old ones.\<close>

fun dec_elems :: "(json \<Rightarrow> 'a \<Rightarrow> 'a gores) \<Rightarrow> 'a \<Rightarrow> json list \<Rightarrow> 'a list \<Rightarrow> 'a list gores" where
  "dec_elems d z [] old = Ok []"
| "dec_elems d z (v # vs) old =
     (case d v (case old of [] \<Rightarrow> z | a # as \<Rightarrow> a) of
        Ok a \<Rightarrow> (case dec_elems d z vs (tl old) of Ok as \<Rightarrow> Ok (a # as) | r \<Rightarrow> r)
      | Err e \<Rightarrow> Err e
      | Panic p \<Rightarrow> Panic p)"

definition dec_slice ::
  "(json \<Rightarrow> 'a \<Rightarrow> 'a gores) \<Rightarrow> 'a \<Rightarrow> string \<Rightarrow> json \<Rightarrow> 'a list option \<Rightarrow> 'a list option gores" where
  "dec_slice d z t v old =
     (case v of
        JNull \<Rightarrow> Ok None
      | JArr vs \<Rightarrow> (case dec_elems d z vs (case old of None \<Rightarrow> [] | Some as \<Rightarrow> as) of
           Ok as \<Rightarrow> Ok (Some as) | Err e \<Rightarrow> Err e | Panic p \<Rightarrow> Panic p)
      | _ \<Rightarrow> type_err t v)"

definition dec_any :: "json \<Rightarrow> json \<Rightarrow> json gores" where
  "dec_any v old = (case go_any v of Some w \<Rightarrow> Ok w | None \<Rightarrow> type_err ''float64'' v)"

text \<open>A \<open>map[string]interface{}\<close>: new entries are added to the old map.\<close>

definition dec_map :: "json \<Rightarrow> (string \<times> json) list option \<Rightarrow> (string \<times> json) list option gores" where
  "dec_map v old =
     (case v of
        JNull \<Rightarrow> Ok None
      | JObj kvs \<Rightarrow> (case go_any_obj kvs (case old of None \<Rightarrow> [] | Some m \<Rightarrow> m) of
           Some m \<Rightarrow> Ok (Some m) | None \<Rightarrow> type_err ''float64'' v)
      | _ \<Rightarrow> type_err ''map[string]interface {}'' v)"

type_synonym 'r fields = "(string \<times> (json \<Rightarrow> 'r \<Rightarrow> 'r gores)) list"

text \<open>One field of a record, from a decoder of its type, its selector and its update.\<close>

definition fld :: "(json \<Rightarrow> 'a \<Rightarrow> 'a gores) \<Rightarrow> ('r \<Rightarrow> 'a) \<Rightarrow> ('a \<Rightarrow> 'r \<Rightarrow> 'r) \<Rightarrow> json \<Rightarrow> 'r \<Rightarrow> 'r gores" where
  "fld d sel upd v r =
     (case d v (sel r) of Ok a \<Rightarrow> Ok (upd a r) | Err e \<Rightarrow> Err e | Panic p \<Rightarrow> Panic p)"

fun dec_members :: "'r fields \<Rightarrow> (string \<times> json) list \<Rightarrow> 'r \<Rightarrow> 'r gores" where
  "dec_members fs [] r = Ok r"
| "dec_members fs ((k, v) # kvs) r =
     (case find_field k fs of
        None \<Rightarrow> dec_members fs kvs r
      | Some f \<Rightarrow>
          (case f v r of Ok r' \<Rightarrow> dec_members fs kvs r' | Err e \<Rightarrow> Err e | Panic p \<Rightarrow> Panic p))"

definition dec_struct :: "string \<Rightarrow> 'r fields \<Rightarrow> json \<Rightarrow> 'r \<Rightarrow> 'r gores" where
  "dec_struct t fs v r =
     (case v of JNull \<Rightarrow> Ok r | JObj kvs \<Rightarrow> dec_members fs kvs r | _ \<Rightarrow> type_err t v)"

text \<open>A pointer to a struct: \<open>null\<close> is the nil pointer, an object is decoded over the old target.\<close>

definition dec_ptr :: "string \<Rightarrow> 'r fields \<Rightarrow> 'r \<Rightarrow> json \<Rightarrow> 'r option \<Rightarrow> 'r option gores" where
  "dec_ptr t fs z v old =
     (case v of
        JNull \<Rightarrow> Ok None
      | _ \<Rightarrow> (case dec_struct t fs v (case old of None \<Rightarrow> z | Some r \<Rightarrow> r) of
                Ok r \<Rightarrow> Ok (Some r) | Err e \<Rightarrow> Err e | Panic p \<Rightarrow> Panic p))"

definition syntax_err :: gerror where
  "syntax_err = GErr ''invalid JSON''"

text \<open>\<open>json.Unmarshal\<close> of a text into a struct.\<close>

definition unmarshal :: "string \<Rightarrow> 'r fields \<Rightarrow> string \<Rightarrow> 'r \<Rightarrow> 'r gores" where
  "unmarshal t fs s r =
     (case parse_json s of None \<Rightarrow> Err syntax_err | Some v \<Rightarrow> dec_struct t fs v r)"

lemma dec_members_append:
  "dec_members fs (xs @ ys) r =
   (case dec_members fs xs r of Ok r' \<Rightarrow> dec_members fs ys r' | Err e \<Rightarrow> Err e | Panic p \<Rightarrow> Panic p)"
  by (induction xs arbitrary: r) (auto split: option.splits gores.splits)

lemma dec_elems_total:
  "(\<And>v a. v \<in> set vs \<Longrightarrow> d v a = Ok (f v)) \<Longrightarrow> dec_elems d z vs old = Ok (map f vs)"
  by (induction vs arbitrary: old) auto

lemma dec_any_normal [simp]: "json_normal v \<Longrightarrow> dec_any v old = Ok v"
  by (simp add: dec_any_def go_any_normal)

text \<open>Optional members: written only when they are not the zero value.\<close>

definition opt_str :: "string \<Rightarrow> string \<Rightarrow> (string \<times> json) list" where
  "opt_str k s = (if s = [] then [] else [(k, JStr s)])"

definition opt_int :: "string \<Rightarrow> int \<Rightarrow> (string \<times> json) list" where
  "opt_int k i = (if i = 0 then [] else [(k, json_int i)])"

definition int64_ok :: "int \<Rightarrow> bool" where
  "int64_ok i \<longleftrightarrow> - (2 ^ 63) \<le> i \<and> i < 2 ^ 63"

lemma dec_str_str [simp]: "dec_str (JStr s) old = Ok s"
  by (simp add: dec_str_def)

lemma dec_int_int [simp]: "int64_ok i \<Longrightarrow> dec_int (json_int i) old = Ok i"
  by (simp add: dec_int_def json_int_def atoi_show_int int64_ok_def)

end
