(* ===== verification/Job.thy ===== *)
theory Job
  imports Decode
begin

text \<open>
  Jobs (\<open>client/job.go\<close>): the two structs, the constructor, the custom metadata and their JSON
  form.  A nil slice, map or pointer is \<open>None\<close>.  \<open>marshal_job\<close> and \<open>unmarshal_job\<close> follow the
  struct tags: fields in declaration order, \<open>omitempty\<close> fields left out when empty.  They are
  inverse to each other up to the empty map and slice, which \<open>omitempty\<close> turns into nil.
\<close>

record Failure =
  RetryCount :: int
  FailedAt :: string
  NextAt :: string
  ErrorMessage :: string
  ErrorType :: string
  FailBacktrace :: "string list option"

record Job =
  Jid :: string
  Queue :: string
  JobType :: string
  Args :: "json list option"
  CreatedAt :: string
  EnqueuedAt :: string
  At :: string
  ReserveFor :: int
  Retry :: int
  Backtrace :: int
  JobFailure :: "Failure option"
  Custom :: "(string \<times> json) list option"

definition zero_failure :: Failure where
  "zero_failure = \<lparr>RetryCount = 0, FailedAt = [], NextAt = [], ErrorMessage = [], ErrorType = [],
     FailBacktrace = None\<rparr>"

definition zero_job :: Job where
  "zero_job = \<lparr>Jid = [], Queue = [], JobType = [], Args = None, CreatedAt = [], EnqueuedAt = [],
     At = [], ReserveFor = 0, Retry = 0, Backtrace = 0, JobFailure = None, Custom = None\<rparr>"

section \<open>Constructor and custom metadata\<close>

definition base64url :: string where
  "base64url = ''ABCDEFGHIJKLMNOPQRSTUVWXYZabcdefghijklmnopqrstuvwxyz0123456789-_''"

text \<open>\<open>base64.RawURLEncoding\<close>: three bytes in four characters, a rest of one or two without padding.\<close>

fun base64_encode :: "nat list \<Rightarrow> string" where
  "base64_encode [] = []"
| "base64_encode [a] = [base64url ! (a div 4), base64url ! (a mod 4 * 16)]"
| "base64_encode [a, b] =
     [base64url ! (a div 4), base64url ! (a mod 4 * 16 + b div 16), base64url ! (b mod 16 * 4)]"
| "base64_encode (a # b # c # r) =
     [base64url ! (a div 4), base64url ! (a mod 4 * 16 + b div 16),
      base64url ! (b mod 16 * 4 + c div 64), base64url ! (c mod 64)] @ base64_encode r"

text \<open>The twelve random bytes are an input.\<close>

definition RandomJid :: "nat list \<Rightarrow> string" where
  "RandomJid bytes = base64_encode bytes"

text \<open>A call without arguments passes the nil slice.\<close>

definition NewJob :: "nat list \<Rightarrow> time \<Rightarrow> string \<Rightarrow> json list \<Rightarrow> Job" where
  "NewJob bytes now jobtype args = zero_job
     \<lparr>JobType := jobtype, Queue := ''default'', Args := (if args = [] then None else Some args),
      Jid := RandomJid bytes, CreatedAt := Thens now, Retry := 25\<rparr>"

definition GetCustom :: "Job \<Rightarrow> string \<Rightarrow> json \<times> bool" where
  "GetCustom j name =
     (case Custom j of
        None \<Rightarrow> (JNull, False)
      | Some m \<Rightarrow> (case map_of m name of None \<Rightarrow> (JNull, False) | Some v \<Rightarrow> (v, True)))"

definition SetCustom :: "string \<Rightarrow> json \<Rightarrow> Job \<Rightarrow> Job" where
  "SetCustom name value j =
     j\<lparr>Custom := Some (obj_put name value (case Custom j of None \<Rightarrow> [] | Some m \<Rightarrow> m))\<rparr>"

datatype UniqueUntil = UntilSuccess | UntilStart

fun until_text :: "UniqueUntil \<Rightarrow> string" where
  "until_text UntilSuccess = ''success''"
| "until_text UntilStart = ''start''"

definition SetUniqueFor :: "nat \<Rightarrow> Job \<Rightarrow> Job" where
  "SetUniqueFor secs = SetCustom ''unique_for'' (json_int (int secs))"

definition SetUniqueness :: "UniqueUntil \<Rightarrow> Job \<Rightarrow> Job" where
  "SetUniqueness until = SetCustom ''unique_until'' (JStr (until_text until))"

definition SetExpiresAt :: "time \<Rightarrow> Job \<Rightarrow> Job" where
  "SetExpiresAt t = SetCustom ''expires_at'' (JStr (Thens t))"

section \<open>JSON form\<close>

definition encode_failure :: "Failure \<Rightarrow> json" where
  "encode_failure f = JObj
     ([(''retry_count'', json_int (RetryCount f)), (''failed_at'', JStr (FailedAt f))]
      @ opt_str ''next_at'' (NextAt f) @ opt_str ''message'' (ErrorMessage f)
      @ opt_str ''errtype'' (ErrorType f)
      @ (case FailBacktrace f of
           Some (l # ls) \<Rightarrow> [(''backtrace'', JArr (map JStr (l # ls)))] | _ \<Rightarrow> []))"

definition encode_job :: "Job \<Rightarrow> json" where
  "encode_job j = JObj
     ([(''jid'', JStr (Jid j)), (''queue'', JStr (Queue j)), (''jobtype'', JStr (JobType j)),
       (''args'', case Args j of None \<Rightarrow> JNull | Some vs \<Rightarrow> JArr vs)]
      @ opt_str ''created_at'' (CreatedAt j) @ opt_str ''enqueued_at'' (EnqueuedAt j)
      @ opt_str ''at'' (At j) @ opt_int ''reserve_for'' (ReserveFor j)
      @ [(''retry'', json_int (Retry j))] @ opt_int ''backtrace'' (Backtrace j)
      @ (case JobFailure j of None \<Rightarrow> [] | Some f \<Rightarrow> [(''failure'', encode_failure f)])
      @ (case Custom j of Some (kv # kvs) \<Rightarrow> [(''custom'', JObj (kv # kvs))] | _ \<Rightarrow> []))"

definition marshal_job :: "Job \<Rightarrow> string" where
  "marshal_job j = show_json (encode_job j)"

definition failure_fields :: "Failure fields" where
  "failure_fields =
     [(''retry_count'', fld dec_int RetryCount (\<lambda>a r. r\<lparr>RetryCount := a\<rparr>)),
      (''failed_at'', fld dec_str FailedAt (\<lambda>a r. r\<lparr>FailedAt := a\<rparr>)),
      (''next_at'', fld dec_str NextAt (\<lambda>a r. r\<lparr>NextAt := a\<rparr>)),
      (''message'', fld dec_str ErrorMessage (\<lambda>a r. r\<lparr>ErrorMessage := a\<rparr>)),
      (''errtype'', fld dec_str ErrorType (\<lambda>a r. r\<lparr>ErrorType := a\<rparr>)),
      (''backtrace'', fld (dec_slice dec_str [] ''[]string'') FailBacktrace (\<lambda>a r. r\<lparr>FailBacktrace := a\<rparr>))]"

definition job_fields :: "Job fields" where
  "job_fields =
     [(''jid'', fld dec_str Jid (\<lambda>a r. r\<lparr>Jid := a\<rparr>)),
      (''queue'', fld dec_str Queue (\<lambda>a r. r\<lparr>Queue := a\<rparr>)),
      (''jobtype'', fld dec_str JobType (\<lambda>a r. r\<lparr>JobType := a\<rparr>)),
      (''args'', fld (dec_slice dec_any JNull ''[]interface {}'') Args (\<lambda>a r. r\<lparr>Args := a\<rparr>)),
      (''created_at'', fld dec_str CreatedAt (\<lambda>a r. r\<lparr>CreatedAt := a\<rparr>)),
      (''enqueued_at'', fld dec_str EnqueuedAt (\<lambda>a r. r\<lparr>EnqueuedAt := a\<rparr>)),
      (''at'', fld dec_str At (\<lambda>a r. r\<lparr>At := a\<rparr>)),
      (''reserve_for'', fld dec_int ReserveFor (\<lambda>a r. r\<lparr>ReserveFor := a\<rparr>)),
      (''retry'', fld dec_int Retry (\<lambda>a r. r\<lparr>Retry := a\<rparr>)),
      (''backtrace'', fld dec_int Backtrace (\<lambda>a r. r\<lparr>Backtrace := a\<rparr>)),
      (''failure'', fld (dec_ptr ''client.Failure'' failure_fields zero_failure) JobFailure
                      (\<lambda>a r. r\<lparr>JobFailure := a\<rparr>)),
      (''custom'', fld dec_map Custom (\<lambda>a r. r\<lparr>Custom := a\<rparr>))]"

definition decode_job :: "json \<Rightarrow> Job \<Rightarrow> Job gores" where
  "decode_job = dec_struct ''client.Job'' job_fields"

definition unmarshal_job :: "string \<Rightarrow> Job gores" where
  "unmarshal_job s = unmarshal ''client.Job'' job_fields s zero_job"

section \<open>Properties\<close>

text \<open>What a Go value of these types satisfies: machine integers and normal interface values.\<close>

definition failure_ok :: "Failure \<Rightarrow> bool" where
  "failure_ok f \<longleftrightarrow> int64_ok (RetryCount f)"

definition job_ok :: "Job \<Rightarrow> bool" where
  "job_ok j \<longleftrightarrow>
     int64_ok (ReserveFor j) \<and> int64_ok (Retry j) \<and> int64_ok (Backtrace j)
     \<and> (case Args j of None \<Rightarrow> True | Some vs \<Rightarrow> list_all json_normal vs)
     \<and> (case JobFailure j of None \<Rightarrow> True | Some f \<Rightarrow> failure_ok f)
     \<and> (case Custom j of None \<Rightarrow> True | Some m \<Rightarrow> json_normal (JObj m))"

text \<open>The effect of \<open>omitempty\<close> on an empty map or slice.\<close>

definition nil_empty :: "'a list option \<Rightarrow> 'a list option" where
  "nil_empty x = (if x = Some [] then None else x)"

definition norm_failure :: "Failure \<Rightarrow> Failure" where
  "norm_failure f = f\<lparr>FailBacktrace := nil_empty (FailBacktrace f)\<rparr>"

definition norm_job :: "Job \<Rightarrow> Job" where
  "norm_job j = j\<lparr>JobFailure := map_option norm_failure (JobFailure j), Custom := nil_empty (Custom j)\<rparr>"

lemma find_field_exact: "map_of fs k = Some f \<Longrightarrow> find_field k fs = Some f"
  by (simp add: find_field_def)

lemma dec_one:
  assumes "map_of fs k = Some (fld d sel upd)" "d v (sel r) = Ok a"
  shows "dec_members fs ((k, v) # kvs) r = dec_members fs kvs (upd a r)"
  using assms by (simp add: find_field_exact fld_def)

lemma dec_opt_str:
  assumes "map_of fs k = Some (fld dec_str sel upd)" "s = [] \<Longrightarrow> upd s r = r"
  shows "dec_members fs (opt_str k s @ kvs) r = dec_members fs kvs (upd s r)"
  using assms by (auto simp: opt_str_def find_field_exact fld_def)

lemma dec_opt_int:
  assumes "map_of fs k = Some (fld dec_int sel upd)" "i = 0 \<Longrightarrow> upd i r = r" "int64_ok i"
  shows "dec_members fs (opt_int k i @ kvs) r = dec_members fs kvs (upd i r)"
  using assms by (auto simp: opt_int_def find_field_exact fld_def)

lemmas dec_opt = dec_opt_str dec_opt_int
  dec_opt_str [where kvs = "[]", simplified] dec_opt_int [where kvs = "[]", simplified]

lemma decode_failure:
  assumes "failure_ok f"
  shows "dec_struct t failure_fields (encode_failure f) zero_failure = Ok (norm_failure f)"
proof -
  have bt: "dec_slice dec_str [] ''[]string'' (JArr (map JStr ls)) old = Ok (Some ls)" for ls old
  proof -
    have "dec_elems dec_str [] (map JStr ls) o' = Ok (map (\<lambda>v. case v of JStr s \<Rightarrow> s | _ \<Rightarrow> []) (map JStr ls))" for o'
      by (rule dec_elems_total) auto
    then show ?thesis by (simp add: dec_slice_def comp_def)
  qed
  obtain rc fa na em et bk where f: "f = \<lparr>RetryCount = rc, FailedAt = fa, NextAt = na,
      ErrorMessage = em, ErrorType = et, FailBacktrace = bk\<rparr>"
    by (cases f)
  show ?thesis
    using assms
    by (auto simp: f failure_ok_def dec_struct_def encode_failure_def zero_failure_def dec_one
        dec_opt failure_fields_def norm_failure_def nil_empty_def bt
        simp del: dec_members.simps(2) list.map split: option.split list.split)
qed

lemma dec_ptr_failure:
  "failure_ok f \<Longrightarrow>
   dec_ptr t failure_fields zero_failure (encode_failure f) None = Ok (Some (norm_failure f))"
  using decode_failure [of f t] by (simp add: dec_ptr_def encode_failure_def)

lemma dec_args:
  "list_all json_normal vs \<Longrightarrow> dec_slice dec_any JNull t (JArr vs) old = Ok (Some vs)"
proof -
  assume "list_all json_normal vs"
  then have "dec_elems dec_any JNull vs o' = Ok (map (\<lambda>v. v) vs)" for o'
    by (intro dec_elems_total) (auto simp: list_all_iff)
  then show ?thesis by (simp add: dec_slice_def)
qed

lemma dec_custom:
  "json_normal (JObj m) \<Longrightarrow> dec_map (JObj m) None = Ok (Some m)"
  using go_any_normal(3) [of m "[]"] by (simp add: dec_map_def)

lemma decode_encode_job:
  assumes "job_ok j"
  shows "decode_job (encode_job j) zero_job = Ok (norm_job j)"
proof -
  obtain ji qu ty ar ca ea ta rf re bt fl cu where j: "j = \<lparr>Jid = ji, Queue = qu, JobType = ty,
      Args = ar, CreatedAt = ca, EnqueuedAt = ea, At = ta, ReserveFor = rf, Retry = re,
      Backtrace = bt, JobFailure = fl, Custom = cu\<rparr>"
    by (cases j)
  have nil: "dec_slice dec_any JNull t JNull old = Ok None" for t old
    by (simp add: dec_slice_def)
  show ?thesis
    using assms
    by (auto simp: j job_ok_def decode_job_def dec_struct_def encode_job_def zero_job_def dec_one
        dec_opt job_fields_def norm_job_def nil_empty_def nil dec_args dec_custom
        dec_ptr_failure
        simp del: dec_members.simps(2) json_normal.simps split: option.split option.split_asm list.split)
qed

lemma json_ok_opt [simp]:
  "list_all (\<lambda>(k, v). json_ok v) (opt_str k s)" "list_all (\<lambda>(k, v). json_ok v) (opt_int k i)"
  by (simp_all add: opt_str_def opt_int_def)

lemma json_ok_failure [simp]: "json_ok (encode_failure f)"
  by (auto simp: encode_failure_def list_all_iff opt_str_def split: option.split list.split)

lemma json_ok_job: "job_ok j \<Longrightarrow> json_ok (encode_job j)"
  using json_normal_ok by (fastforce simp: encode_job_def job_ok_def list_all_iff opt_str_def opt_int_def
      split: option.split option.split_asm list.split)

lemma unmarshal_marshal: "job_ok j \<Longrightarrow> unmarshal_job (marshal_job j) = Ok (norm_job j)"
  using parse_show_json [OF json_ok_job] decode_encode_job [unfolded decode_job_def]
  by (simp add: unmarshal_job_def marshal_job_def unmarshal_def)


definition sample_job :: Job where
  "sample_job = SetCustom ''b'' (JStr ''x'') (SetCustom ''a'' JNull
     (zero_job\<lparr>Jid := ''0123456789abcdef'', Queue := ''default'', JobType := ''Email'',
        Args := Some [JStr ''to'', JNum ''3'', JObj [(''k'', JBool True)]], Retry := 25,
        JobFailure := Some (zero_failure\<lparr>RetryCount := 2, FailedAt := ''2020-02-29T12:00:00Z''\<rparr>)\<rparr>))"

lemma sample_job_ok: "job_ok sample_job"
proof -
  have "valid_num ''3''" "num_char CHR ''3''"
    by (simp_all add: valid_num_def drop_digits_def is_digit_def num_char_def)
  then show ?thesis
    by (simp add: sample_job_def SetCustom_def job_ok_def zero_job_def zero_failure_def int64_ok_def
        failure_ok_def sorted_keys_def canon_num_3 less_list_code)
qed


lemma GetCustom_SetCustom:
  "GetCustom (SetCustom k v j) k' = (if k' = k then (v, True) else GetCustom j k')"
proof -
  have "map_of (obj_put k v m) k' = (if k' = k then Some v else map_of m k')"
    for m
    by (induction m) auto
  then show ?thesis
    by (auto simp: GetCustom_def SetCustom_def split: option.split)
qed

lemma obj_put_keys: "fst ` set (obj_put k v m) = insert k (fst ` set m)"
  by (induction k v m rule: obj_put.induct) auto

lemma sorted_keys_obj_put: "sorted_keys m \<Longrightarrow> sorted_keys (obj_put k v m)"
proof (induction m)
  case (Cons a m)
  obtain j w where a: "a = (j, w)" by fastforce
  have j: "\<forall>x \<in> fst ` set m. j < x" and m: "sorted_keys m"
    using Cons.prems a by (auto simp: sorted_keys_def)
  consider "k = j" | "k < j" | "j < k" by (meson linorder_neqE)
  then show ?case
  proof cases
    case 3
    have "\<forall>x \<in> fst ` set (obj_put k v m). j < x"
      using 3 j by (simp add: obj_put_keys)
    with 3 a Cons.IH [OF m] show ?thesis
      by (auto simp: sorted_keys_def)
  qed (use a j m in \<open>auto simp: sorted_keys_def\<close>)
qed (simp add: sorted_keys_def)

lemma length_RandomJid: "length bytes = 12 \<Longrightarrow> length (RandomJid bytes) = 16"
proof -
  assume "length bytes = 12"
  then obtain a b c d e f g h i j k l where "bytes = [a, b, c, d, e, f, g, h, i, j, k, l]"
    by (auto simp: numeral_eq_Suc length_Suc_conv)
  then show ?thesis by (simp add: RandomJid_def)
qed

end
