(* ===== verification/Storage.thy ===== *)
theory Storage
  imports Redis Job
begin

text \<open>
  The state the storage and manager code works on (\<open>redisStore\<close> of \<open>storage/redis.go\<close>): the Redis
  server behind the client, the map of known queues, and the clock and random source of the process.
  \<open>time.Now()\<close> reads the next value of the clock, \<open>rand.Intn\<close> the next of the random source: every
  call gets a value of its own.  The record is extended by the manager and the server, so that the
  operations of this layer apply to their states as they are.
\<close>

record redisQueue =
  qname :: string
  qdone :: bool

record 's store =
  rs :: 's
  queueSet :: "(string \<times> redisQueue) list"
  clock :: "nat \<Rightarrow> time"
  rands :: "nat \<Rightarrow> nat"
  tick :: nat
  local_offset :: "time \<Rightarrow> int"

section \<open>Plumbing\<close>

text \<open>A Redis command, its value with errors ignored, its error only.\<close>

definition call :: "('s \<Rightarrow> 'a gores \<times> 's) \<Rightarrow> (('s, 'm) store_scheme, 'a) gofun" where
  "call c st = (case c (rs st) of (r, s') \<Rightarrow> (r, st\<lparr>rs := s'\<rparr>))"

definition val_or :: "'a \<Rightarrow> ('s, 'a) gofun \<Rightarrow> ('s, 'a) gofun" where
  "val_or z m s = (case m s of (Err e, s') \<Rightarrow> (Ok z, s') | r \<Rightarrow> r)"

definition ignore :: "('s, 'a) gofun \<Rightarrow> ('s, unit) gofun" where
  "ignore m s = (case m s of (Panic p, s') \<Rightarrow> (Panic p, s') | (_, s') \<Rightarrow> (Ok (), s'))"

definition void :: "('s, 'a) gofun \<Rightarrow> ('s, unit) gofun" where
  "void m = bindS m (\<lambda>_. retS ())"

definition wrap_err :: "(gerror \<Rightarrow> gerror) \<Rightarrow> ('s, 'a) gofun \<Rightarrow> ('s, 'a) gofun" where
  "wrap_err f m s = (case m s of (r, s') \<Rightarrow> (map_err f r, s'))"

text \<open>The outcome of a computation as a value.\<close>

definition tryS :: "('s, 'a) gofun \<Rightarrow> ('s, 'a gores) gofun" where
  "tryS m s = (case m s of (r, s') \<Rightarrow> (Ok r, s'))"

definition getS :: "('s \<Rightarrow> 'a) \<Rightarrow> ('s, 'a) gofun" where
  "getS f s = (Ok (f s), s)"

definition modS :: "('s \<Rightarrow> 's) \<Rightarrow> ('s, unit) gofun" where
  "modS f s = (Ok (), f s)"

definition Now :: "(('s, 'm) store_scheme, time) gofun" where
  "Now st = (Ok (clock st (tick st)), st\<lparr>tick := tick st + 1\<rparr>)"

text \<open>\<open>util.Nows\<close>.\<close>

definition Nows :: "(('s, 'm) store_scheme, string) gofun" where
  "Nows = bindS Now (\<lambda>t. retS (Thens t))"

definition Intn :: "nat \<Rightarrow> (('s, 'm) store_scheme, nat) gofun" where
  "Intn n st = (Ok (rands st (tick st) mod n), st\<lparr>tick := tick st + 1\<rparr>)"

text \<open>A loop over indexed elements that stops at the first error.\<close>

fun for_idx :: "(nat \<Rightarrow> 'e \<Rightarrow> ('s, unit) gofun) \<Rightarrow> nat \<Rightarrow> 'e list \<Rightarrow> ('s, unit) gofun" where
  "for_idx fn i [] = retS ()"
| "for_idx fn i (e # es) = bindS (fn i e) (\<lambda>_. for_idx fn (Suc i) es)"

definition err_text :: "gerror \<Rightarrow> string" where
  "err_text e = (case e of GErr m \<Rightarrow> m | KnownErr c m \<Rightarrow> c @ '' '' @ m)"

text \<open>The value a loop of the model gives when its fuel is used up; no Go code panics with it.\<close>

definition fuel_out :: string where
  "fuel_out = ''out of fuel''"

section \<open>Simulation\<close>

definition sview :: "('s \<Rightarrow> 't) \<Rightarrow> ('s, 'm) store_scheme \<Rightarrow> ('t, 'm) store_scheme" where
  "sview v st = \<lparr>rs = v (rs st), queueSet = queueSet st, clock = clock st, rands = rands st,
     tick = tick st, local_offset = local_offset st, \<dots> = store.more st\<rparr>"

abbreviation shealthy :: "('s \<Rightarrow> bool) \<Rightarrow> ('s, 'm) store_scheme \<Rightarrow> bool" where
  "shealthy h st \<equiv> h (rs st)"

lemma sview_simps [simp]:
  "rs (sview v st) = v (rs st)" "queueSet (sview v st) = queueSet st" "clock (sview v st) = clock st"
  "rands (sview v st) = rands st" "tick (sview v st) = tick st"
  "local_offset (sview v st) = local_offset st" "store.more (sview v st) = store.more st"
  "sview v (st\<lparr>rs := s\<rparr>) = sview v st\<lparr>rs := v s\<rparr>"
  "sview v (st\<lparr>queueSet := q\<rparr>) = sview v st\<lparr>queueSet := q\<rparr>"
  "sview v (st\<lparr>tick := n\<rparr>) = sview v st\<lparr>tick := n\<rparr>"
  by (simp_all add: sview_def)

lemma sview_id [simp]: "sview (\<lambda>d. d) st = st"
  by (simp add: sview_def)

lemma sim_cases:
  assumes "sim v h c d" "h s"
  obtains r s' where "c s = (r, s')" "d (v s) = (r, v s')" "h s'"
  using assms unfolding sim_def by (metis prod.collapse)

lemma simI:
  assumes "\<And>s. h s \<Longrightarrow> \<exists>r s'. c s = (r, s') \<and> d (v s) = (r, v s') \<and> h s'"
  shows "sim v h c d"
  unfolding sim_def
proof (intro allI impI)
  fix s assume "h s"
  from assms [OF this] obtain r s' where "c s = (r, s')" "d (v s) = (r, v s')" "h s'"
    by blast
  then show "fst (c s) = fst (d (v s)) \<and> v (snd (c s)) = snd (d (v s)) \<and> h (snd (c s))"
    by simp
qed

lemma sim_call [sims]:
  assumes "sim v h c d"
  shows "sim (sview v) (shealthy h) (call c) (call d)"
proof (rule simI, goal_cases)
  case (1 st)
  with assms obtain r s' where "c (rs st) = (r, s')" "d (v (rs st)) = (r, v s')" "h s'"
    by (blast elim: sim_cases)
  then show ?case
    by (simp add: call_def)
qed

lemma sim_val_or [sims]:
  assumes "sim v h c d"
  shows "sim v h (val_or z c) (val_or z d)"
proof (rule simI)
  fix s assume "h s"
  with assms obtain r s' where "c s = (r, s')" "d (v s) = (r, v s')" "h s'"
    by (blast elim: sim_cases)
  then show "\<exists>r s'. val_or z c s = (r, s') \<and> val_or z d (v s) = (r, v s') \<and> h s'"
    by (cases r) (simp_all add: val_or_def)
qed

lemma sim_ignore [sims]:
  assumes "sim v h c d"
  shows "sim v h (ignore c) (ignore d)"
proof (rule simI)
  fix s assume "h s"
  with assms obtain r s' where "c s = (r, s')" "d (v s) = (r, v s')" "h s'"
    by (blast elim: sim_cases)
  then show "\<exists>r s'. ignore c s = (r, s') \<and> ignore d (v s) = (r, v s') \<and> h s'"
    by (cases r) (simp_all add: ignore_def)
qed

lemma sim_wrap_err [sims]:
  assumes "sim v h c d"
  shows "sim v h (wrap_err f c) (wrap_err f d)"
proof (rule simI)
  fix s assume "h s"
  with assms obtain r s' where "c s = (r, s')" "d (v s) = (r, v s')" "h s'"
    by (blast elim: sim_cases)
  then show "\<exists>r s'. wrap_err f c s = (r, s') \<and> wrap_err f d (v s) = (r, v s') \<and> h s'"
    by (cases r) (simp_all add: wrap_err_def)
qed

lemma sim_tryS [sims]:
  assumes "sim v h c d"
  shows "sim v h (tryS c) (tryS d)"
proof (rule simI)
  fix s assume "h s"
  with assms obtain r s' where "c s = (r, s')" "d (v s) = (r, v s')" "h s'"
    by (blast elim: sim_cases)
  then show "\<exists>r s'. tryS c s = (r, s') \<and> tryS d (v s) = (r, v s') \<and> h s'"
    by (simp add: tryS_def)
qed

lemma sim_void [sims]: "sim v h c d \<Longrightarrow> sim v h (void c) (void d)"
  unfolding void_def by (intro sims)

lemma sim_getS [sims]: "(\<And>s. h s \<Longrightarrow> f s = g (v s)) \<Longrightarrow> sim v h (getS f) (getS g)"
  by (simp add: sim_def getS_def)

lemma sim_modS [sims]:
  "(\<And>s. h s \<Longrightarrow> v (f s) = g (v s)) \<Longrightarrow> (\<And>s. h s \<Longrightarrow> h (f s)) \<Longrightarrow> sim v h (modS f) (modS g)"
  by (simp add: sim_def modS_def)

lemma sim_Now [sims]: "sim (sview v) (shealthy h) Now Now"
  by (simp add: sim_def Now_def)

lemma sim_Nows [sims]: "sim (sview v) (shealthy h) Nows Nows"
  unfolding Nows_def by (intro sims)

lemma sim_Intn [sims]: "sim (sview v) (shealthy h) (Intn n) (Intn n)"
  by (simp add: sim_def Intn_def)

lemma sim_for_idx [sims]:
  "(\<And>i e. sim v h (f i e) (g i e)) \<Longrightarrow> sim v h (for_idx f i es) (for_idx g i es)"
  by (induction es arbitrary: i) (auto intro!: sims)

section \<open>Running the plumbing\<close>

lemma call_simp [gosimps]: "c (rs st) = (r, s') \<Longrightarrow> call c st = (r, st\<lparr>rs := s'\<rparr>)"
  by (simp add: call_def)

lemma Now_simp [gosimps]: "Now st = (Ok (clock st (tick st)), st\<lparr>tick := tick st + 1\<rparr>)"
  by (simp add: Now_def)

lemma Nows_simp [gosimps]: "Nows st = (Ok (Thens (clock st (tick st))), st\<lparr>tick := tick st + 1\<rparr>)"
  by (simp add: Nows_def bindS_def Now_def retS_def)

lemma Intn_simp [gosimps]: "Intn n st = (Ok (rands st (tick st) mod n), st\<lparr>tick := tick st + 1\<rparr>)"
  by (simp add: Intn_def)

declare getS_def [gosimps] modS_def [gosimps] void_def [gosimps]

lemma ignore_ok [gosimps]: "m s = (Ok a, s') \<Longrightarrow> ignore m s = (Ok (), s')"
  by (simp add: ignore_def)

lemma ignore_err [gosimps]: "m s = (Err e, s') \<Longrightarrow> ignore m s = (Ok (), s')"
  by (simp add: ignore_def)

lemma val_or_ok [gosimps]: "m s = (Ok a, s') \<Longrightarrow> val_or z m s = (Ok a, s')"
  by (simp add: val_or_def)

lemma val_or_err [gosimps]: "m s = (Err e, s') \<Longrightarrow> val_or z m s = (Ok z, s')"
  by (simp add: val_or_def)

lemma tryS_simp [gosimps]: "m s = (r, s') \<Longrightarrow> tryS m s = (Ok r, s')"
  by (simp add: tryS_def)

lemma wrap_err_ok [gosimps]: "m s = (Ok a, s') \<Longrightarrow> wrap_err f m s = (Ok a, s')"
  by (simp add: wrap_err_def)

lemma wrap_err_err [gosimps]: "m s = (Err e, s') \<Longrightarrow> wrap_err f m s = (Err (f e), s')"
  by (simp add: wrap_err_def)

end
