(* ===== verification/SortedSet.thy ===== *)
theory SortedSet
  imports Storage
begin

text \<open>
  The sorted sets of the storage (\<open>storage/sorted_redis.go\<close>): scheduled jobs, retries, dead jobs and
  the working set.  A \<open>redisSorted\<close> is its name; an entry is a payload with its score, the
  \<open>float64\<close> seconds of a timestamp.
\<close>

record setEntry =
  entry_value :: string
  entry_score :: rat

definition NewEntry :: "rat \<Rightarrow> string \<Rightarrow> setEntry" where
  "NewEntry score value = \<lparr>entry_value = value, entry_score = score\<rparr>"

text \<open>The lazily decoded job of an entry, and its key \<open>timestamp|jid\<close>.\<close>

definition entry_Job :: "setEntry \<Rightarrow> Job gores" where
  "entry_Job e = unmarshal_job (entry_value e)"

definition entry_Key :: "setEntry \<Rightarrow> string gores" where
  "entry_Key e =
     (case entry_Job e of
        Ok j \<Rightarrow> Ok (Thens (score_time (entry_score e)) @ ''|'' @ Jid j)
      | Err x \<Rightarrow> Err x
      | Panic p \<Rightarrow> Panic p)"

definition Size :: "'s redis \<Rightarrow> string \<Rightarrow> (('s, 'm) store_scheme, int) gofun" where
  "Size rd name = bindS (val_or 0 (call (zcard rd name))) (\<lambda>n. retS (u64 n))"

definition Clear :: "'s redis \<Rightarrow> string \<Rightarrow> (('s, 'm) store_scheme, unit) gofun" where
  "Clear rd name = void (call (unlink rd name))"

definition AddElement :: "'s redis \<Rightarrow> string \<Rightarrow> string \<Rightarrow> string \<Rightarrow> string \<Rightarrow> (('s, 'm) store_scheme, unit) gofun" where
  "AddElement rd name timestamp jid payload =
     bindS (liftR (ParseTime timestamp)) (\<lambda>tim. void (call (zadd rd name (time_f tim) payload)))"

definition Add :: "'s redis \<Rightarrow> string \<Rightarrow> Job \<Rightarrow> (('s, 'm) store_scheme, unit) gofun" where
  "Add rd name job =
     (if At job = [] then errS (GErr ''Job does not have an At timestamp'')
      else AddElement rd name (At job) (Jid job) (marshal_job job))"

definition RemoveEntry :: "'s redis \<Rightarrow> string \<Rightarrow> setEntry \<Rightarrow> (('s, 'm) store_scheme, unit) gofun" where
  "RemoveEntry rd name ent = void (call (zrem rd name (entry_value ent)))"

definition decompose :: "string \<Rightarrow> (rat \<times> string) gores" where
  "decompose key =
     (case split_on CHR ''|'' key of
        [timestamp, jid] \<Rightarrow>
          (case ParseTime timestamp of
             Ok tim \<Rightarrow> Ok (time_f tim, jid) | Err e \<Rightarrow> Err e | Panic p \<Rightarrow> Panic p)
      | _ \<Rightarrow> Err (GErr (''Invalid key, expected '' @ [CHR 0x22] @ ''timestamp|jid'' @ [CHR 0x22] @ '', not '' @ key)))"

definition getScore :: "'s redis \<Rightarrow> string \<Rightarrow> rat \<Rightarrow> (('s, 'm) store_scheme, string list) gofun" where
  "getScore rd name score = call (zrangebyscore rd name (Some score) score None)"

text \<open>
  The element chosen among those with a score: a single one as it is, of several the first whose
  text contains the jid (not at its start).
\<close>

definition pick :: "string \<Rightarrow> string list \<Rightarrow> string option" where
  "pick jid elms =
     (case elms of
        [] \<Rightarrow> None
      | [e] \<Rightarrow> Some e
      | _ \<Rightarrow> find (\<lambda>e. 0 < str_index e jid) elms)"

definition Get :: "'s redis \<Rightarrow> string \<Rightarrow> string \<Rightarrow> (('s, 'm) store_scheme, setEntry option) gofun" where
  "Get rd name key =
     bindS (liftR (decompose key)) (\<lambda>(score, jid).
       bindS (getScore rd name score) (\<lambda>elms. retS (map_option (NewEntry score) (pick jid elms))))"

definition rem :: "'s redis \<Rightarrow> string \<Rightarrow> rat \<Rightarrow> string \<Rightarrow> (('s, 'm) store_scheme, bool) gofun" where
  "rem rd name score jid =
     bindS (getScore rd name score) (\<lambda>elms.
       case pick jid elms of
         None \<Rightarrow> retS False
       | Some e \<Rightarrow> bindS (call (zrem rd name e)) (\<lambda>count. retS (count = 1)))"

definition Remove :: "'s redis \<Rightarrow> string \<Rightarrow> string \<Rightarrow> (('s, 'm) store_scheme, bool) gofun" where
  "Remove rd name key = bindS (liftR (decompose key)) (\<lambda>(score, jid). rem rd name score jid)"

definition RemoveElement :: "'s redis \<Rightarrow> string \<Rightarrow> string \<Rightarrow> string \<Rightarrow> (('s, 'm) store_scheme, bool) gofun" where
  "RemoveElement rd name timestamp jid =
     bindS (liftR (ParseTime timestamp)) (\<lambda>tim. rem rd name (time_f tim) jid)"

text \<open>
  The entries are removed before the function sees them; an error of the function is logged, its
  entry stays removed and is not counted.
\<close>

fun remove_loop :: "'s redis \<Rightarrow> string \<Rightarrow> (string \<Rightarrow> (('s, 'm) store_scheme, unit) gofun) \<Rightarrow> int \<Rightarrow>
    string list \<Rightarrow> (('s, 'm) store_scheme, int) gofun" where
  "remove_loop rd name fn count [] = retS count"
| "remove_loop rd name fn count (j # js) =
     bindS (call (zrem rd name j)) (\<lambda>cnt.
       if cnt = 1 then
         bindS (val_or False (bindS (fn j) (\<lambda>_. retS True))) (\<lambda>ok.
           remove_loop rd name fn (if ok then count + 1 else count) js)
       else remove_loop rd name fn count js)"

definition RemoveBefore :: "'s redis \<Rightarrow> string \<Rightarrow> string \<Rightarrow> int \<Rightarrow> (string \<Rightarrow> (('s, 'm) store_scheme, unit) gofun) \<Rightarrow>
    (('s, 'm) store_scheme, int) gofun" where
  "RemoveBefore rd name timestamp maxCount fn =
     bindS (liftR (ParseTime timestamp)) (\<lambda>tim.
       bindS (call (zrangebyscore rd name None (time_f tim) (if maxCount = 0 then None else Some maxCount)))
         (remove_loop rd name fn 0))"

definition MoveTo :: "'s redis \<Rightarrow> string \<Rightarrow> string \<Rightarrow> setEntry \<Rightarrow> time \<Rightarrow> (('s, 'm) store_scheme, unit) gofun" where
  "MoveTo rd name sset entry newtime =
     bindS (liftR (entry_Job entry)) (\<lambda>job.
       bindS (call (zrem rd name (entry_value entry))) (\<lambda>cnt.
         if cnt = 0 then retS ()
         else AddElement rd sset (Thens newtime) (Jid job) (entry_value entry)))"

text \<open>\<open>Page\<close> gives the number of entries it visited; with an error no caller looks at the number.\<close>

definition Page :: "'s redis \<Rightarrow> string \<Rightarrow> int \<Rightarrow> int \<Rightarrow> (nat \<Rightarrow> setEntry \<Rightarrow> (('s, 'm) store_scheme, unit) gofun) \<Rightarrow>
    (('s, 'm) store_scheme, int) gofun" where
  "Page rd name start count fn =
     bindS (call (zrange rd name start (start + count - 1))) (\<lambda>zs.
       bindS (for_idx (\<lambda>idx (m, x). fn idx (NewEntry x m)) 0 zs) (\<lambda>_. retS (int (length zs))))"

text \<open>The pages of \<open>Each\<close>; the fuel is the number of pages.\<close>

fun each_loop :: "nat \<Rightarrow> 's redis \<Rightarrow> string \<Rightarrow> int \<Rightarrow> (nat \<Rightarrow> setEntry \<Rightarrow> (('s, 'm) store_scheme, unit) gofun) \<Rightarrow>
    (('s, 'm) store_scheme, unit) gofun" where
  "each_loop 0 rd name current fn = panicS fuel_out"
| "each_loop (Suc f) rd name current fn =
     bindS (Page rd name current 50 fn) (\<lambda>elms.
       if elms < 50 then retS () else each_loop f rd name (current + 50) fn)"

definition Each :: "nat \<Rightarrow> 's redis \<Rightarrow> string \<Rightarrow> (nat \<Rightarrow> setEntry \<Rightarrow> (('s, 'm) store_scheme, unit) gofun) \<Rightarrow>
    (('s, 'm) store_scheme, unit) gofun" where
  "Each fuel rd name fn = each_loop fuel rd name 0 fn"

section \<open>The operations depend on the contract of Redis only\<close>

context redis_server
begin

lemma laws: 
  "sim (sview view) (shealthy healthy) (call (zadd rd k x m)) (call (zadd db_redis k x m))"
  "sim (sview view) (shealthy healthy) (call (zrem rd k m)) (call (zrem db_redis k m))"
  "sim (sview view) (shealthy healthy) (call (zcard rd k)) (call (zcard db_redis k))"
  "sim (sview view) (shealthy healthy) (call (zrangebyscore rd k lo hi c)) (call (zrangebyscore db_redis k lo hi c))"
  "sim (sview view) (shealthy healthy) (call (zrange rd k a b)) (call (zrange db_redis k a b))"
  "sim (sview view) (shealthy healthy) (call (lpush rd k u)) (call (lpush db_redis k u))"
  "sim (sview view) (shealthy healthy) (call (rpop rd k)) (call (rpop db_redis k))"
  "sim (sview view) (shealthy healthy) (call (brpop rd ks)) (call (brpop db_redis ks))"
  "sim (sview view) (shealthy healthy) (call (llen rd k)) (call (llen db_redis k))"
  "sim (sview view) (shealthy healthy) (call (lrange rd k a b)) (call (lrange db_redis k a b))"
  "sim (sview view) (shealthy healthy) (call (lrem1 rd k u)) (call (lrem1 db_redis k u))"
  "sim (sview view) (shealthy healthy) (call (sadd rd k m)) (call (sadd db_redis k m))"
  "sim (sview view) (shealthy healthy) (call (srem rd k m)) (call (srem db_redis k m))"
  "sim (sview view) (shealthy healthy) (call (sismember rd k m)) (call (sismember db_redis k m))"
  "sim (sview view) (shealthy healthy) (call (rget rd k)) (call (rget db_redis k))"
  "sim (sview view) (shealthy healthy) (call (rset rd k u)) (call (rset db_redis k u))"
  "sim (sview view) (shealthy healthy) (call (incrby rd k n)) (call (incrby db_redis k n))"
  "sim (sview view) (shealthy healthy) (call (unlink rd k)) (call (unlink db_redis k))"
  "sim (sview view) (shealthy healthy) (call (flushdb rd)) (call (flushdb db_redis))"
  by (simp_all only: db_redis_def redis.simps
      sim_call [OF zadd_law] sim_call [OF zrem_law] sim_call [OF zcard_law]
      sim_call [OF zrangebyscore_law] sim_call [OF zrange_law] sim_call [OF lpush_law]
      sim_call [OF rpop_law] sim_call [OF brpop_law] sim_call [OF llen_law] sim_call [OF lrange_law]
      sim_call [OF lrem1_law] sim_call [OF sadd_law] sim_call [OF srem_law]
      sim_call [OF sismember_law] sim_call [OF rget_law] sim_call [OF rset_law]
      sim_call [OF incrby_law] sim_call [OF unlink_law] sim_call [OF flushdb_law])

abbreviation simS where "simS \<equiv> sim (sview view) (shealthy healthy)"

lemma Size_sim: "simS (Size rd n) (Size db_redis n)"
  unfolding Size_def by (intro sims laws)

lemma Clear_sim: "simS (Clear rd n) (Clear db_redis n)"
  unfolding Clear_def by (intro sims laws)

lemma AddElement_sim: "simS (AddElement rd n t j p) (AddElement db_redis n t j p)"
  unfolding AddElement_def by (intro sims laws)

lemma Add_sim: "simS (Add rd n j) (Add db_redis n j)"
  unfolding Add_def by (intro sims laws AddElement_sim)

lemma RemoveEntry_sim: "simS (RemoveEntry rd n e) (RemoveEntry db_redis n e)"
  unfolding RemoveEntry_def by (intro sims laws)

lemma Get_sim: "simS (Get rd n k) (Get db_redis n k)"
  unfolding Get_def getScore_def by (intro sims laws)

lemma rem_sim: "simS (rem rd n x j) (rem db_redis n x j)"
  unfolding rem_def getScore_def by (intro sims laws)

lemma Remove_sim: "simS (Remove rd n k) (Remove db_redis n k)"
  unfolding Remove_def by (intro sims laws rem_sim)

lemma RemoveElement_sim: "simS (RemoveElement rd n t j) (RemoveElement db_redis n t j)"
  unfolding RemoveElement_def by (intro sims laws rem_sim)

lemma remove_loop_sim:
  "(\<And>j. simS (fn j) (fn' j)) \<Longrightarrow> simS (remove_loop rd n fn c js) (remove_loop db_redis n fn' c js)"
  by (induction js arbitrary: c) (auto intro!: sims laws)

lemma RemoveBefore_sim:
  "(\<And>j. simS (fn j) (fn' j)) \<Longrightarrow> simS (RemoveBefore rd n t m fn) (RemoveBefore db_redis n t m fn')"
  unfolding RemoveBefore_def by (intro sims laws remove_loop_sim)

lemma MoveTo_sim: "simS (MoveTo rd n n' e t) (MoveTo db_redis n n' e t)"
  unfolding MoveTo_def by (intro sims laws AddElement_sim)

lemma Page_sim:
  "(\<And>i e. simS (fn i e) (fn' i e)) \<Longrightarrow> simS (Page rd n a b fn) (Page db_redis n a b fn')"
  unfolding Page_def by (intro sims laws)

lemma Each_sim:
  assumes "\<And>i e. simS (fn i e) (fn' i e)"
  shows "simS (Each f rd n fn) (Each f db_redis n fn')"
proof -
  have "simS (each_loop f rd n c fn) (each_loop f db_redis n c fn')" for c
    by (induction f arbitrary: c) (auto intro!: sims Page_sim assms)
  then show ?thesis by (simp add: Each_def)
qed

lemmas sorted_sims = Size_sim Clear_sim AddElement_sim Add_sim RemoveEntry_sim Get_sim rem_sim
  Remove_sim RemoveElement_sim RemoveBefore_sim MoveTo_sim Page_sim Each_sim

end

section \<open>What the operations do to the keyspace\<close>

lemmas db_redis_sel = db_redis_def redis.simps

lemma call_zadd [gosimps]:
  "get_zset k (rs st) = Ok z \<Longrightarrow>
   call (zadd db_redis k x m) st =
     (Ok (if m \<in> fst ` set z then 0 else 1), st\<lparr>rs := put_zset k (zset_put m x z) (rs st)\<rparr>)"
  by (simp add: call_def db_redis_def db_zadd_def on_val_def)

lemma call_zrem [gosimps]:
  "get_zset k (rs st) = Ok z \<Longrightarrow>
   call (zrem db_redis k m) st =
     (Ok (if m \<in> fst ` set z then 1 else 0), st\<lparr>rs := put_zset k (zrem_m m z) (rs st)\<rparr>)"
  by (simp add: call_def db_redis_def db_zrem_def on_val_def)

lemma store_same [simp]: "st\<lparr>rs := rs st\<rparr> = (st :: ('s, 'm) store_scheme)"
  by simp

lemma call_zrangebyscore [gosimps]:
  "get_zset k (rs st) = Ok z \<Longrightarrow> db_ok (rs st) \<Longrightarrow>
   call (zrangebyscore db_redis k lo hi c) st =
     (Ok (limit_to c (map fst (filter (\<lambda>(m, x). in_range lo hi x) z))), st)"
  by (simp add: call_def db_redis_def db_zrangebyscore_def on_val_def)

lemma call_zrange [gosimps]:
  "get_zset k (rs st) = Ok z \<Longrightarrow> db_ok (rs st) \<Longrightarrow>
   call (zrange db_redis k a b) st = (Ok (slice a b z), st)"
  by (simp add: call_def db_redis_def db_zrange_def on_val_def)

lemma AddElement_db:
  assumes "get_zset k (rs st) = Ok z" "time_ok t"
  shows "AddElement db_redis k (Thens t) jid p st =
     (Ok (), st\<lparr>rs := put_zset k (zset_put p (time_f t) z) (rs st)\<rparr>)"
  using assms by (simp add: AddElement_def gosimps)

lemma AddElement_bad_time:
  "ParseTime ts = Err e \<Longrightarrow> AddElement rd k ts jid p st = (Err e, st)"
  by (simp add: AddElement_def gosimps)

text \<open>The members of a score.\<close>

abbreviation at_score :: "rat \<Rightarrow> (string \<times> rat) list \<Rightarrow> string list" where
  "at_score x z \<equiv> map fst (filter (\<lambda>(m, y). y = x) z)"

lemma set_at_score [simp]: "set (at_score x z) = {m. (m, x) \<in> set z}"
  by force

lemma getScore_db:
  "get_zset k (rs st) = Ok z \<Longrightarrow> db_ok (rs st) \<Longrightarrow>
   getScore db_redis k x st = (Ok (at_score x z), st)"
  by (simp add: getScore_def gosimps limit_to_def)

lemma find_in: "find P es = Some e \<Longrightarrow> e \<in> set es"
  by (induction es) (auto split: if_splits)

lemma pick_in: "pick jid es = Some e \<Longrightarrow> e \<in> set es"
  by (auto simp: pick_def simp del: find.simps dest: find_in split: list.splits)

text \<open>A payload that names its jid, and no other payload at its score does.\<close>

definition own_jid :: "string \<Rightarrow> string \<Rightarrow> string list \<Rightarrow> bool" where
  "own_jid jid p es \<longleftrightarrow> p \<in> set es \<and> (\<forall>e \<in> set es. 0 < str_index e jid \<longleftrightarrow> e = p)"

lemma pick_own: "own_jid jid p es \<Longrightarrow> pick jid es = Some p"
proof -
  assume own: "own_jid jid p es"
  then have "\<exists>e \<in> set es. 0 < str_index e jid"
    by (auto simp: own_jid_def)
  then obtain e where "find (\<lambda>e. 0 < str_index e jid) es = Some e"
    by (metis find_None_iff not_None_eq)
  moreover from this have "e = p"
    using own by (auto simp: find_Some_iff own_jid_def)
  ultimately show ?thesis
    using own by (auto simp: pick_def own_jid_def split: list.split)
qed

lemma Get_db:
  "get_zset k (rs st) = Ok z \<Longrightarrow> db_ok (rs st) \<Longrightarrow> decompose key = Ok (x, jid) \<Longrightarrow>
   Get db_redis k key st = (Ok (map_option (NewEntry x) (pick jid (at_score x z))), st)"
  by (simp add: Get_def gosimps getScore_db)

lemma rem_db:
  assumes "get_zset k (rs st) = Ok z" "db_ok (rs st)"
  shows "rem db_redis k x jid st =
    (case pick jid (at_score x z) of
       None \<Rightarrow> (Ok False, st)
     | Some e \<Rightarrow> (Ok True, st\<lparr>rs := put_zset k (zrem_m e z) (rs st)\<rparr>))"
proof (cases "pick jid (at_score x z)")
  case None
  then show ?thesis using assms by (simp add: rem_def gosimps getScore_db)
next
  case (Some e)
  then have "e \<in> set (at_score x z)" by (rule pick_in)
  then have "e \<in> fst ` set z" by force
  with Some show ?thesis
    using assms by (simp add: rem_def gosimps getScore_db)
qed

lemma Remove_db:
  assumes "get_zset k (rs st) = Ok z" "db_ok (rs st)" "decompose key = Ok (x, jid)"
  shows "Remove db_redis k key st = rem db_redis k x jid st"
  using assms(3) by (simp add: Remove_def gosimps)

lemma RemoveElement_db:
  assumes "time_ok t"
  shows "RemoveElement db_redis k (Thens t) jid st = rem db_redis k (time_f t) jid st"
  using assms by (simp add: RemoveElement_def gosimps)

section \<open>Keys\<close>

lemma Thens_no_pipe: "CHR ''|'' \<notin> set (Thens t)"
proof -
  have d: "CHR ''|'' \<notin> set (show_fixed w n)" "CHR ''|'' \<notin> set (show_nat n)" for w n
    using show_fixed_digits [of "CHR ''|''" w n] show_nat_digits [of "CHR ''|''" n]
    by (auto simp: is_digit_nonspecial)
  have "CHR ''|'' \<notin> set (format_frac n)" for n
    using d(1) [of 9 n] set_dropWhileD [of "CHR ''|''" _ "rev (show_fixed 9 n)"]
    by (auto simp: format_frac_def strip_zeros.simps)
  then show ?thesis
    by (auto simp: Thens_def Let_def format_year_def d split: prod.split)
qed

lemma decompose_key:
  "time_ok t \<Longrightarrow> CHR ''|'' \<notin> set jid \<Longrightarrow> decompose (Thens t @ ''|'' @ jid) = Ok (time_f t, jid)"
  using split_on_append_sep [OF Thens_no_pipe, of t jid] by (simp add: decompose_def)

lemma entry_Key_decompose:
  assumes "modern_time t" "unmarshal_job p = Ok j" "CHR ''|'' \<notin> set (Jid j)"
  shows "\<exists>key. entry_Key (NewEntry (time_f t) p) = Ok key \<and> decompose key = Ok (time_f t, Jid j)"
  using assms decompose_key [OF time_ok_score_time [OF assms(1)] assms(3)] time_f_score_time [OF assms(1)]
  by (simp add: entry_Key_def entry_Job_def NewEntry_def)

text \<open>A jid with a separator in it has no key that can be read.\<close>

lemma decompose_pipe_jid:
  "CHR ''|'' \<in> set jid \<Longrightarrow> \<exists>e. decompose (Thens t @ ''|'' @ jid) = Err e"
proof -
  assume "CHR ''|'' \<in> set jid"
  then obtain a b where "jid = a @ CHR ''|'' # b" "CHR ''|'' \<notin> set a"
    by (meson split_list_first)
  then have "split_on CHR ''|'' (Thens t @ ''|'' @ jid) = Thens t # a # split_on CHR ''|'' b"
    using split_on_append_sep [OF Thens_no_pipe, of t jid] by (simp add: split_on_append_sep)
  then show ?thesis
    by (cases "split_on CHR ''|'' b") (simp_all add: decompose_def)
qed

end
