(* ===== verification/Queue.thy ===== *)
theory Queue
  imports SortedSet "HOL-Library.AList"
begin

text \<open>
  Queues and the rest of the store (\<open>storage/queue_redis.go\<close>, \<open>storage/redis.go\<close>,
  \<open>storage/raw.go\<close>, \<open>storage/history.go\<close>): a queue is a Redis list, pushed at the head and popped
  at the tail; the store keeps the map of known queues and mirrors its keys in the Redis set
  \<open>queues\<close>.
\<close>

section \<open>Queues\<close>

definition NewQueue :: "string \<Rightarrow> redisQueue" where
  "NewQueue name = \<lparr>qname = name, qdone = False\<rparr>"

definition queue_Close :: "redisQueue \<Rightarrow> redisQueue" where
  "queue_Close q = q\<lparr>qdone := True\<rparr>"

definition queue_Pause :: "'s redis \<Rightarrow> redisQueue \<Rightarrow> (('s, 'm) store_scheme, unit) gofun" where
  "queue_Pause rd q = void (call (sadd rd ''paused'' (qname q)))"

definition queue_Resume :: "'s redis \<Rightarrow> redisQueue \<Rightarrow> (('s, 'm) store_scheme, unit) gofun" where
  "queue_Resume rd q = void (call (srem rd ''paused'' (qname q)))"

definition IsPaused :: "'s redis \<Rightarrow> redisQueue \<Rightarrow> (('s, 'm) store_scheme, bool) gofun" where
  "IsPaused rd q = val_or False (call (sismember rd ''paused'' (qname q)))"

text \<open>The range of \<open>LRANGE\<close> includes both ends.\<close>

definition queue_Page :: "'s redis \<Rightarrow> redisQueue \<Rightarrow> int \<Rightarrow> int \<Rightarrow> (nat \<Rightarrow> string \<Rightarrow> (('s, 'm) store_scheme, unit) gofun) \<Rightarrow>
    (('s, 'm) store_scheme, unit) gofun" where
  "queue_Page rd q start count fn =
     bindS (call (lrange rd (qname q) start (start + count))) (for_idx fn 0)"

definition queue_Each :: "'s redis \<Rightarrow> redisQueue \<Rightarrow> (nat \<Rightarrow> string \<Rightarrow> (('s, 'm) store_scheme, unit) gofun) \<Rightarrow>
    (('s, 'm) store_scheme, unit) gofun" where
  "queue_Each rd q fn = queue_Page rd q 0 (- 1) fn"

definition queue_Clear :: "'s redis \<Rightarrow> redisQueue \<Rightarrow> (('s, 'm) store_scheme, int) gofun" where
  "queue_Clear rd q =
     bindS (ignore (call (unlink rd (qname q)))) (\<lambda>_.
     bindS (ignore (call (srem rd ''queues'' (qname q)))) (\<lambda>_.
     bindS (modS (\<lambda>st. st\<lparr>queueSet := AList.delete (qname q) (queueSet st)\<rparr>)) (\<lambda>_.
     retS 0)))"

definition queue_Size :: "'s redis \<Rightarrow> redisQueue \<Rightarrow> (('s, 'm) store_scheme, int) gofun" where
  "queue_Size rd q = bindS (val_or 0 (call (llen rd (qname q)))) (\<lambda>n. retS (u64 n))"

text \<open>The debug message of \<open>init\<close> asks for the size.\<close>

definition queue_init :: "'s redis \<Rightarrow> redisQueue \<Rightarrow> (('s, 'm) store_scheme, unit) gofun" where
  "queue_init rd q = void (queue_Size rd q)"

text \<open>The result of LPUSH is not looked at.\<close>

definition queue_Push :: "'s redis \<Rightarrow> redisQueue \<Rightarrow> string \<Rightarrow> (('s, 'm) store_scheme, unit) gofun" where
  "queue_Push rd q payload = ignore (call (lpush rd (qname q) payload))"

definition queue_Add :: "'s redis \<Rightarrow> redisQueue \<Rightarrow> Job \<Rightarrow> (('s, 'm) store_scheme, unit) gofun" where
  "queue_Add rd q job =
     bindS Nows (\<lambda>now. queue_Push rd q (marshal_job (job\<lparr>EnqueuedAt := now\<rparr>)))"

text \<open>An error of RPOP comes with an empty value, which reads as an empty queue.\<close>

definition queue_pop :: "'s redis \<Rightarrow> redisQueue \<Rightarrow> (('s, 'm) store_scheme, string option) gofun" where
  "queue_pop rd q =
     bindS (val_or None (call (rpop rd (qname q)))) (\<lambda>val. retS (if val = Some [] then None else val))"

definition queue_Pop :: "'s redis \<Rightarrow> redisQueue \<Rightarrow> (('s, 'm) store_scheme, string option) gofun" where
  "queue_Pop rd q = (if qdone q then retS None else queue_pop rd q)"

definition queue_BPop :: "'s redis \<Rightarrow> redisQueue \<Rightarrow> (('s, 'm) store_scheme, string option) gofun" where
  "queue_BPop rd q = bindS (call (brpop rd [qname q])) (\<lambda>val. retS (map_option snd val))"

fun queue_Delete :: "'s redis \<Rightarrow> redisQueue \<Rightarrow> string list \<Rightarrow> (('s, 'm) store_scheme, unit) gofun" where
  "queue_Delete rd q [] = retS ()"
| "queue_Delete rd q (v # vs) = bindS (call (lrem1 rd (qname q) v)) (\<lambda>_. queue_Delete rd q vs)"

section \<open>The store\<close>

definition queue_char :: "char \<Rightarrow> bool" where
  "queue_char c =
     (let n = (of_char c :: nat) in
      97 \<le> n \<and> n \<le> 122 \<or> 65 \<le> n \<and> n \<le> 90 \<or> is_digit c \<or> c = CHR ''.'' \<or> c = CHR ''_'' \<or> c = CHR ''-'')"

text \<open>\<open>ValidQueueName\<close>.\<close>

definition valid_queue_name :: "string \<Rightarrow> bool" where
  "valid_queue_name s \<longleftrightarrow> s \<noteq> [] \<and> list_all queue_char s"

definition GetQueue :: "'s redis \<Rightarrow> string \<Rightarrow> (('s, 'm) store_scheme, redisQueue) gofun" where
  "GetQueue rd name =
     (if name = [] then errS (GErr ''queue name cannot be blank'')
      else bindS (getS queueSet) (\<lambda>qs.
        case map_of qs name of
          Some q \<Rightarrow> retS q
        | None \<Rightarrow>
            if \<not> valid_queue_name name
            then errS (GErr (''queue names must match '' @ [CHR 0x5C] @ ''A[a-zA-Z0-9._-]+'' @ [CHR 0x5C] @ ''z''))
            else
              bindS (queue_init rd (NewQueue name)) (\<lambda>_.
              bindS (wrap_err (\<lambda>e. GErr (''Unable to store queue name: '' @ err_text e))
                       (call (sadd rd ''queues'' name))) (\<lambda>_.
              bindS (modS (\<lambda>st. st\<lparr>queueSet := queueSet st @ [(name, NewQueue name)]\<rparr>)) (\<lambda>_.
              retS (NewQueue name))))))"

text \<open>
  \<open>EachQueue\<close> ranges over a map: the order is Go's choice, given by \<open>order\<close>, and an entry removed
  on the way is not visited.
\<close>

fun each_queue :: "(redisQueue \<Rightarrow> (('s, 'm) store_scheme, unit) gofun) \<Rightarrow> (string \<times> redisQueue) list \<Rightarrow>
    (('s, 'm) store_scheme, unit) gofun" where
  "each_queue x [] = retS ()"
| "each_queue x ((k, q) # qs) =
     bindS (getS queueSet) (\<lambda>now.
       bindS (if map_of now k = None then retS () else x q) (\<lambda>_. each_queue x qs))"

definition EachQueue :: "((string \<times> redisQueue) list \<Rightarrow> (string \<times> redisQueue) list) \<Rightarrow>
    (redisQueue \<Rightarrow> (('s, 'm) store_scheme, unit) gofun) \<Rightarrow> (('s, 'm) store_scheme, unit) gofun" where
  "EachQueue order x = bindS (getS queueSet) (\<lambda>qs. each_queue x (order qs))"

definition PausedQueues :: "'s redis \<Rightarrow> (('s, 'm) store_scheme, string list) gofun" where
  "PausedQueues rd = call (smembers rd ''paused'')"

definition Flush :: "'s redis \<Rightarrow> (('s, 'm) store_scheme, unit) gofun" where
  "Flush rd = call (flushdb rd)"

fun init_queues :: "'s redis \<Rightarrow> string list \<Rightarrow> (('s, 'm) store_scheme, unit) gofun" where
  "init_queues rd [] = retS ()"
| "init_queues rd (v # vs) =
     bindS (queue_init rd (NewQueue v)) (\<lambda>_.
     bindS (modS (\<lambda>st. st\<lparr>queueSet := AList.update v (NewQueue v) (queueSet st)\<rparr>)) (\<lambda>_.
     init_queues rd vs))"

text \<open>The state starts with an empty map of queues.\<close>

definition NewRedisStore :: "'s redis \<Rightarrow> (('s, 'm) store_scheme, unit) gofun" where
  "NewRedisStore rd =
     bindS (modS (\<lambda>st. st\<lparr>queueSet := []\<rparr>)) (\<lambda>_.
       bindS (call (smembers rd ''queues'')) (init_queues rd))"

definition EnqueueAll :: "nat \<Rightarrow> 's redis \<Rightarrow> string \<Rightarrow> (('s, 'm) store_scheme, unit) gofun" where
  "EnqueueAll fuel rd sset =
     Each fuel rd sset (\<lambda>_ entry.
       bindS (liftR (entry_Job entry)) (\<lambda>j.
       bindS (liftR (entry_Key entry)) (\<lambda>k.
       bindS (GetQueue rd (Queue j)) (\<lambda>q.
       bindS (Remove rd sset k) (\<lambda>ok.
       if \<not> ok then retS () else queue_Add rd q j)))))"

definition EnqueueFrom :: "'s redis \<Rightarrow> string \<Rightarrow> string \<Rightarrow> (('s, 'm) store_scheme, unit) gofun" where
  "EnqueueFrom rd sset key =
     bindS (Get rd sset key) (\<lambda>entry.
       case entry of
         None \<Rightarrow> retS ()
       | Some e \<Rightarrow>
           bindS (liftR (entry_Job e)) (\<lambda>job.
           bindS (GetQueue rd (Queue job)) (\<lambda>q.
           bindS (Remove rd sset key) (\<lambda>ok.
           if \<not> ok then retS () else queue_Add rd q job))))"

section \<open>Raw access\<close>

definition kv_Get :: "'s redis \<Rightarrow> string \<Rightarrow> (('s, 'm) store_scheme, string option) gofun" where
  "kv_Get rd key = call (rget rd key)"

definition kv_Set :: "'s redis \<Rightarrow> string \<Rightarrow> string option \<Rightarrow> (('s, 'm) store_scheme, unit) gofun" where
  "kv_Set rd key value =
     (case value of None \<Rightarrow> errS (GErr ''Nil value not allowed'') | Some v \<Rightarrow> call (rset rd key v))"

section \<open>Counters\<close>

text \<open>The date of a time in the local zone.\<close>

definition daystr :: "(time \<Rightarrow> int) \<Rightarrow> time \<Rightarrow> string" where
  "daystr off t = take 10 (Thens (t + off t * second))"

definition Today :: "(('s, 'm) store_scheme, string) gofun" where
  "Today = bindS Now (\<lambda>t. bindS (getS local_offset) (\<lambda>off. retS (daystr off t)))"

definition store_Success :: "'s redis \<Rightarrow> (('s, 'm) store_scheme, unit) gofun" where
  "store_Success rd =
     bindS Today (\<lambda>day.
     bindS (ignore (call (incrby rd (''processed:'' @ day) 1))) (\<lambda>_.
     bindS (ignore (call (incrby rd ''processed'' 1))) (\<lambda>_.
     retS ())))"

definition store_Failure :: "'s redis \<Rightarrow> (('s, 'm) store_scheme, unit) gofun" where
  "store_Failure rd =
     bindS (ignore (call (incrby rd ''processed'' 1))) (\<lambda>_.
     bindS (ignore (call (incrby rd ''failures'' 1))) (\<lambda>_.
     bindS Today (\<lambda>day.
     bindS (ignore (call (incrby rd (''processed:'' @ day) 1))) (\<lambda>_.
     bindS (ignore (call (incrby rd (''failures:'' @ day) 1))) (\<lambda>_.
     retS ())))))"

definition TotalProcessed :: "'s redis \<Rightarrow> (('s, 'm) store_scheme, int) gofun" where
  "TotalProcessed rd = bindS (val_or 0 (call (incrby rd ''processed'' 0))) (\<lambda>n. retS (u64 n))"

definition TotalFailures :: "'s redis \<Rightarrow> (('s, 'm) store_scheme, int) gofun" where
  "TotalFailures rd = bindS (val_or 0 (call (incrby rd ''failures'' 0))) (\<lambda>n. retS (u64 n))"

text \<open>
  \<open>History\<close>: the replies of the pipeline, one day after the other into the past; an error of any
  command of the pipeline is the error of the call, after all of them ran.
\<close>

fun history_pipe :: "'s redis \<Rightarrow> string list \<Rightarrow>
    (('s, 'm) store_scheme, (string \<times> int gores \<times> int gores) list) gofun" where
  "history_pipe rd [] = retS []"
| "history_pipe rd (d # ds) =
     bindS (tryS (call (incrby rd (''processed:'' @ d) 0))) (\<lambda>p.
     bindS (tryS (call (incrby rd (''failures:'' @ d) 0))) (\<lambda>f.
     bindS (history_pipe rd ds) (\<lambda>r. retS ((d, p, f) # r))))"

fun pipe_vals :: "(string \<times> int gores \<times> int gores) list \<Rightarrow> (string \<times> int \<times> int) list gores" where
  "pipe_vals [] = Ok []"
| "pipe_vals ((d, p, f) # r) =
     (case (p, f, pipe_vals r) of
        (Ok a, Ok b, Ok t) \<Rightarrow> Ok ((d, u64 a, u64 b) # t)
      | (Err e, _, _) \<Rightarrow> Err e
      | (Panic e, _, _) \<Rightarrow> Panic e
      | (_, Err e, _) \<Rightarrow> Err e
      | (_, Panic e, _) \<Rightarrow> Panic e
      | (_, _, x) \<Rightarrow> x)"

definition history_days :: "(time \<Rightarrow> int) \<Rightarrow> time \<Rightarrow> nat \<Rightarrow> string list" where
  "history_days off ts days = map (\<lambda>i. daystr off (ts - int i * 86400 * second)) [0..<days]"

definition History :: "'s redis \<Rightarrow> int \<Rightarrow> (('s, 'm) store_scheme, (string \<times> int \<times> int) list) gofun" where
  "History rd days =
     bindS Now (\<lambda>ts.
       if days < 0 then panicS ''makeslice: len out of range''
       else bindS (getS local_offset) (\<lambda>off.
         bindS (history_pipe rd (history_days off ts (nat days))) (\<lambda>r. liftR (pipe_vals r))))"

section \<open>The operations depend on the contract of Redis only\<close>

context redis_server
begin

lemma queue_sims:
  "simS (queue_Pause rd q) (queue_Pause db_redis q)"
  "simS (queue_Resume rd q) (queue_Resume db_redis q)"
  "simS (IsPaused rd q) (IsPaused db_redis q)"
  "simS (queue_Size rd q) (queue_Size db_redis q)"
  "simS (queue_Clear rd q) (queue_Clear db_redis q)"
  "simS (queue_Push rd q p) (queue_Push db_redis q p)"
  "simS (queue_Add rd q j) (queue_Add db_redis q j)"
  "simS (queue_Pop rd q) (queue_Pop db_redis q)"
  "simS (queue_BPop rd q) (queue_BPop db_redis q)"
  unfolding queue_Pause_def queue_Resume_def IsPaused_def queue_Size_def queue_Clear_def
    queue_Push_def queue_Add_def queue_Pop_def queue_pop_def queue_BPop_def
  by ((intro sims laws; simp)+)

lemma queue_Delete_sim: "simS (queue_Delete rd q vs) (queue_Delete db_redis q vs)"
  by (induction vs) (auto intro!: sims laws)

lemma queue_Page_sim:
  "(\<And>i e. simS (fn i e) (fn' i e)) \<Longrightarrow> simS (queue_Page rd q a b fn) (queue_Page db_redis q a b fn')"
  unfolding queue_Page_def by (intro sims laws)

lemma queue_Each_sim:
  "(\<And>i e. simS (fn i e) (fn' i e)) \<Longrightarrow> simS (queue_Each rd q fn) (queue_Each db_redis q fn')"
  unfolding queue_Each_def by (intro queue_Page_sim)

lemma GetQueue_sim: "simS (GetQueue rd n) (GetQueue db_redis n)"
  unfolding GetQueue_def queue_init_def by (intro sims laws queue_sims; simp)

lemma EnqueueAll_sim: "simS (EnqueueAll f rd n) (EnqueueAll f db_redis n)"
  unfolding EnqueueAll_def by (intro sims laws sorted_sims queue_sims GetQueue_sim)

lemma EnqueueFrom_sim: "simS (EnqueueFrom rd n k) (EnqueueFrom db_redis n k)"
  unfolding EnqueueFrom_def by (intro sims laws sorted_sims queue_sims GetQueue_sim)

lemma counter_sims:
  "simS (store_Success rd) (store_Success db_redis)"
  "simS (store_Failure rd) (store_Failure db_redis)"
  "simS (TotalProcessed rd) (TotalProcessed db_redis)"
  "simS (TotalFailures rd) (TotalFailures db_redis)"
  unfolding store_Success_def store_Failure_def TotalProcessed_def TotalFailures_def Today_def
  by ((intro sims laws; simp)+)

lemma history_pipe_sim: "simS (history_pipe rd ds) (history_pipe db_redis ds)"
  by (induction ds) (auto intro!: sims laws)

lemma History_sim: "simS (History rd n) (History db_redis n)"
  unfolding History_def by (intro sims laws history_pipe_sim; simp)

lemma kv_sims:
  "simS (kv_Get rd k) (kv_Get db_redis k)"
  "simS (kv_Set rd k v) (kv_Set db_redis k v)"
  "simS (Flush rd) (Flush db_redis)"
  unfolding kv_Get_def kv_Set_def Flush_def by (intro sims laws)+

lemmas store_sims = sorted_sims queue_sims queue_Delete_sim queue_Page_sim queue_Each_sim GetQueue_sim
  EnqueueAll_sim EnqueueFrom_sim counter_sims History_sim kv_sims

end

end
