(* ===== verification/WebHelpers.thy ===== *)
theory WebHelpers
  imports Queue Dashboard
begin

text \<open>
  The formatter of counters of the web pages (\<open>webui/helpers.go\<close>), and that it agrees with the one of the
  script that updates the pages.  A \<open>uint64\<close> is a number here: the text has at most 20 digits.
\<close>

section \<open>uintWithDelimiter\<close>

text \<open>
  The loop writes the digits from the right into \<open>out\<close>, with a comma before every fourth; an index outside
  the array panics.
\<close>

definition out_of_range :: string where
  "out_of_range = ''runtime error: index out of range''"

fun delimiter_loop :: "string \<Rightarrow> nat \<Rightarrow> int \<Rightarrow> nat \<Rightarrow> string \<Rightarrow> string gores" where
  "delimiter_loop inp i j k out =
     (if j < 0 \<or> int (length out) \<le> j then Panic out_of_range
      else
        let out = out[nat j := inp ! i] in
        case i of
          0 \<Rightarrow> Ok out
        | Suc i' \<Rightarrow>
            if k + 1 = 3 then
              (if j - 1 < 0 then Panic out_of_range
               else delimiter_loop inp i' (j - 2) 0 (out[nat (j - 1) := CHR '','']))
            else delimiter_loop inp i' (j - 1) (k + 1) out)"

declare delimiter_loop.simps [simp del]

text \<open>The first byte is a digit, so that \<open>in[0]/'0'\<close> is 1 and there is no minus sign.\<close>

definition uintWithDelimiter :: "nat \<Rightarrow> string gores" where
  "uintWithDelimiter val =
     (let inp = show_nat val;
          len = nat (int (length inp) + go_div (int (length inp) - 2 + int (of_char (hd inp) div 48)) 3);
          out = replicate len (CHR 0x00)
      in delimiter_loop inp (length inp - 1) (int len - 1) 0 out)"

section \<open>Equivalence\<close>

text \<open>What the loop writes, from the right, with \<open>k\<close> digits in the current group.\<close>

fun delimited :: "nat \<Rightarrow> string \<Rightarrow> string" where
  "delimited k [] = []"
| "delimited k (c # u) =
     c # (if u = [] then [] else if k + 1 = 3 then CHR '','' # delimited 0 u else delimited (k + 1) u)"

lemma length_delimited:
  "u \<noteq> [] \<Longrightarrow> k < 3 \<Longrightarrow> length (delimited k u) = length u + (length u - 1 + k) div 3"
proof (induction k u rule: delimited.induct)
  case (2 k c u)
  show ?case
  proof (cases "u = []")
    case False
    then obtain n where n: "length u = Suc n" by (cases u) auto
    with 2 False show ?thesis by (cases "k + 1 = 3") auto
  qed (use 2 in simp)
qed simp

lemma drop_update_at: "n < length xs \<Longrightarrow> drop n (xs[n := x]) = x # drop (Suc n) xs"
  using Cons_nth_drop_Suc [of n "xs[n := x]"] by simp

lemma delimiter_loop_run:
  "i < length inp \<Longrightarrow> k < 3 \<Longrightarrow> d = delimited k (rev (take (Suc i) inp)) \<Longrightarrow> j = int (length d) - 1 \<Longrightarrow>
   length d \<le> length out \<Longrightarrow> delimiter_loop inp i j k out = Ok (rev d @ drop (length d) out)"
proof (induction i arbitrary: k d j out)
  case 0
  then have d: "d = [inp ! 0]" by (cases inp) simp_all
  show ?case
    using "0.prems"(4,5) unfolding d by (cases out) (simp_all add: delimiter_loop.simps)
next
  case (Suc i)
  let ?u = "rev (take (Suc i) inp)" and ?c = "inp ! Suc i"
  have ne: "?u \<noteq> []" using Suc.prems(1) by auto
  have d: "d = ?c # (if k + 1 = 3 then CHR '','' # delimited 0 ?u else delimited (k + 1) ?u)"
    using Suc.prems(1,3) ne by (simp add: take_Suc_conv_app_nth)
  have i: "i < length inp" using Suc.prems(1) by simp
  show ?case
  proof (cases "k + 1 = 3")
    case True
    let ?d = "delimited 0 ?u"
    let ?out = "out[Suc (length ?d) := ?c, length ?d := CHR '','']"
    have l: "d = ?c # CHR '','' # ?d" "j = int (length ?d) + 1" "length ?d + 2 \<le> length out"
      using d True Suc.prems(4,5) by simp_all
    have "drop (length ?d) ?out = CHR '','' # ?c # drop (length ?d + 2) out"
      using l(3) by (simp add: drop_update_at)
    moreover have "delimiter_loop inp i (j - 2) 0 ?out = Ok (rev ?d @ drop (length ?d) ?out)"
      by (rule Suc.IH [OF i]) (use l in simp_all)
    moreover have "delimiter_loop inp (Suc i) j k out = delimiter_loop inp i (j - 2) 0 ?out"
      using l True by (subst delimiter_loop.simps) (simp add: nat_add_distrib Let_def)
    ultimately show ?thesis by (simp add: l(1))
  next
    case False
    let ?d = "delimited (k + 1) ?u"
    let ?out = "out[length ?d := ?c]"
    have l: "d = ?c # ?d" "j = int (length ?d)" "length ?d + 1 \<le> length out"
      using d False Suc.prems(4,5) by simp_all
    have "drop (length ?d) ?out = ?c # drop (length ?d + 1) out"
      using l(3) by (simp add: drop_update_at)
    moreover have "delimiter_loop inp i (j - 1) (k + 1) ?out = Ok (rev ?d @ drop (length ?d) ?out)"
      by (rule Suc.IH [OF i]) (use l False Suc.prems(2) in simp_all)
    moreover have "delimiter_loop inp (Suc i) j k out = delimiter_loop inp i (j - 1) (k + 1) ?out"
      using l False by (subst delimiter_loop.simps) (simp add: Let_def)
    ultimately show ?thesis by (simp add: l(1))
  qed
qed

definition go_format :: "nat \<Rightarrow> string" where
  "go_format n = rev (delimited 0 (rev (show_nat n)))"

lemma digit_div: "is_digit c \<Longrightarrow> of_char c div (48 :: nat) = 1"
  by (auto simp: is_digit_def)

lemma uintWithDelimiter_run: "uintWithDelimiter n = Ok (go_format n)"
proof -
  let ?s = "show_nat n" and ?d = "delimited 0 (rev (show_nat n))"
  have pos: "1 \<le> length ?s" by (simp add: Suc_le_eq)
  have "int (length ?s) - 2 + int (of_char (hd ?s) div 48) = int (length ?s - 1)"
    using digit_div [OF hd_digit_show_nat, of n] pos by simp
  then have len: "nat (int (length ?s) + go_div (int (length ?s) - 2 + int (of_char (hd ?s) div 48)) 3) = length ?d"
    using length_delimited [of "rev ?s" 0] by (simp add: nat_add_distrib nat_div_distrib)
  have "delimiter_loop ?s (length ?s - 1) (int (length ?d) - 1) 0 (replicate (length ?d) (CHR 0x00)) =
      Ok (rev ?d @ drop (length ?d) (replicate (length ?d) (CHR 0x00)))"
    by (rule delimiter_loop_run) (use pos in simp_all)
  then show ?thesis unfolding uintWithDelimiter_def Let_def len go_format_def by simp
qed

lemma delimited_group:
  "u \<noteq> [] \<Longrightarrow> delimited 0 (c # b # a # u) = [c, b, a] @ CHR '','' # delimited 0 u"
  by simp

lemma delimited_short: "length u \<le> 3 \<Longrightarrow> delimited 0 u = u"
  by (cases u; cases "tl u"; cases "tl (tl u)") auto

interpretation go: thousands_format go_format
proof
  fix n :: nat assume "n < 1000"
  then show "go_format n = show_nat n"
    using length_show_nat_small [of n] by (simp add: go_format_def delimited_short)
next
  fix n :: nat assume n: "1000 \<le> n"
  have s: "show_nat n = show_nat (n div 1000) @ show_fixed 3 (n mod 1000)"
    using show_nat_thousand [OF n] by simp
  obtain a b c where abc: "show_fixed 3 (n mod 1000) = [a, b, c]"
    using length_show_fixed [of 3 "n mod 1000"] by (auto simp: numeral_3_eq_3 length_Suc_conv)
  show "go_format n = go_format (n div 1000) @ '','' @ show_fixed 3 (n mod 1000)"
    unfolding go_format_def s abc using delimited_group [of "rev (show_nat (n div 1000))" c b a] by simp
qed


end
