(* ===== verification/StoreFacts.thy ===== *)
theory StoreFacts
  imports Queue
begin

text \<open>
  Invariant and effects of the storage operations, on keyspaces.  \<open>store_ok\<close> says that every key the
  storage uses holds the kind of value it is used for and that the map of queues agrees with the Redis
  set \<open>queues\<close>.  It is kept by every operation whose queue name is not one of the keys the storage
  uses itself; the code does not refuse those names.
\<close>

section \<open>The invariant\<close>

definition sset_names :: "string list" where
  "sset_names = [''scheduled'', ''retries'', ''dead'', ''working'']"

definition reserved_key :: "string \<Rightarrow> bool" where
  "reserved_key k \<longleftrightarrow> k \<in> set (sset_names @ [''queues'', ''paused'', ''processed'', ''failures''])"

definition queue_key :: "string \<Rightarrow> bool" where
  "queue_key k \<longleftrightarrow> valid_queue_name k \<and> \<not> reserved_key k"

definition db_typed :: "db \<Rightarrow> bool" where
  "db_typed d \<longleftrightarrow> db_ok d
     \<and> (\<forall>k \<in> set sset_names. is_ok (get_zset k d))
     \<and> is_ok (get_set ''queues'' d) \<and> is_ok (get_set ''paused'' d)
     \<and> (\<forall>k. queue_key k \<longrightarrow> is_ok (get_list k d))"

definition queue_names :: "db \<Rightarrow> string set" where
  "queue_names d = (case get_set ''queues'' d of Ok s \<Rightarrow> s | _ \<Rightarrow> {})"

definition store_ok :: "(db, 'm) store_scheme \<Rightarrow> bool" where
  "store_ok st \<longleftrightarrow> db_typed (rs st)
     \<and> distinct (map fst (queueSet st))
     \<and> (\<forall>(n, q) \<in> set (queueSet st). qname q = n \<and> queue_key n)
     \<and> fst ` set (queueSet st) = queue_names (rs st)"

text \<open>The contents of a sorted set and of a queue, the queue in the order it is popped.\<close>

definition zset_of :: "string \<Rightarrow> (db, 'm) store_scheme \<Rightarrow> (string \<times> rat) list" where
  "zset_of k st = (case get_zset k (rs st) of Ok z \<Rightarrow> z | _ \<Rightarrow> [])"

definition queue_of :: "string \<Rightarrow> (db, 'm) store_scheme \<Rightarrow> string list" where
  "queue_of k st = (case get_list k (rs st) of Ok l \<Rightarrow> rev l | _ \<Rightarrow> [])"

text \<open>What the storage operations leave alone: the process around the store.\<close>

definition same_env :: "('s, 'm) store_scheme \<Rightarrow> ('s, 'm) store_scheme \<Rightarrow> bool" where
  "same_env st st' \<longleftrightarrow> clock st' = clock st \<and> rands st' = rands st \<and> local_offset st' = local_offset st
     \<and> store.more st' = store.more st"

lemma same_env_refl [simp]: "same_env st st"
  by (simp add: same_env_def)

lemma same_env_trans [trans]: "same_env a b \<Longrightarrow> same_env b c \<Longrightarrow> same_env a c"
  by (simp add: same_env_def)

lemma same_env_upd [simp]:
  "same_env st (st\<lparr>rs := d\<rparr>)" "same_env st (st\<lparr>queueSet := q\<rparr>)" "same_env st (st\<lparr>tick := n\<rparr>)"
  by (simp_all add: same_env_def)

lemma is_ok_iff: "is_ok r \<longleftrightarrow> (\<exists>a. r = Ok a)"
  by (cases r) auto

lemma is_ok_Ok [simp]: "is_ok (if b then Ok x else r) = (b \<or> is_ok r)"
  by simp

lemma queue_key_special [simp]:
  "\<not> queue_key ''scheduled''" "\<not> queue_key ''retries''" "\<not> queue_key ''dead''" "\<not> queue_key ''working''"
  "\<not> queue_key ''queues''" "\<not> queue_key ''paused''" "\<not> queue_key ''processed''" "\<not> queue_key ''failures''"
  by (simp_all add: queue_key_def reserved_key_def sset_names_def)

lemma queue_key_ne: "queue_key k \<Longrightarrow> k \<noteq> []" "queue_key k \<Longrightarrow> valid_queue_name k"
  by (auto simp: queue_key_def valid_queue_name_def)

lemma queue_key_sset: "queue_key k \<Longrightarrow> n \<in> set sset_names \<Longrightarrow> k \<noteq> n"
  by (auto simp: queue_key_def reserved_key_def)

lemma queue_key_neq [simp]:
  "queue_key k \<Longrightarrow> k \<noteq> ''queues''" "queue_key k \<Longrightarrow> ''queues'' \<noteq> k"
  "queue_key k \<Longrightarrow> k \<noteq> ''paused''" "queue_key k \<Longrightarrow> ''paused'' \<noteq> k"
  by auto

lemma get_zset_put_queue [simp]:
  "queue_key k \<Longrightarrow> n \<in> set sset_names \<Longrightarrow> get_zset n (put_list k l d) = get_zset n d"
  using queue_key_sset [of k n] by auto

lemma sset_names_iff: "n \<in> set sset_names \<longleftrightarrow> n \<in> {''scheduled'', ''retries'', ''dead'', ''working''}"
  by (auto simp: sset_names_def)

lemma sset_not_special: "n \<in> set sset_names \<Longrightarrow>
   n \<noteq> ''queues'' \<and> n \<noteq> ''paused'' \<and> n \<noteq> ''processed'' \<and> n \<noteq> ''failures''"
  by (auto simp: sset_names_iff)

section \<open>Reading the state\<close>

lemma get_zset_of:
  "store_ok st \<Longrightarrow> n \<in> set sset_names \<Longrightarrow> get_zset n (rs st) = Ok (zset_of n st)"
  by (auto simp: store_ok_def db_typed_def is_ok_iff zset_of_def)

lemma get_queue_of:
  "store_ok st \<Longrightarrow> queue_key k \<Longrightarrow> get_list k (rs st) = Ok (rev (queue_of k st))"
  by (auto simp: store_ok_def db_typed_def is_ok_iff queue_of_def)

lemma get_queue_names:
  "store_ok st \<Longrightarrow> get_set ''queues'' (rs st) = Ok (queue_names (rs st))"
  by (auto simp: store_ok_def db_typed_def is_ok_iff queue_names_def)

lemma store_ok_db: "store_ok st \<Longrightarrow> db_ok (rs st)"
  by (simp add: store_ok_def db_typed_def)

lemma zset_of_ok: "store_ok st \<Longrightarrow> zset_ok (zset_of n st)"
  using db_ok_zset [of "rs st" n] by (auto simp: zset_of_def store_ok_db split: gores.split)

section \<open>Writing the state\<close>

text \<open>The two effects all operations are made of.\<close>

definition put_sorted :: "string \<Rightarrow> (string \<times> rat) list \<Rightarrow> (db, 'm) store_scheme \<Rightarrow> (db, 'm) store_scheme" where
  "put_sorted n z st = st\<lparr>rs := put_zset n z (rs st)\<rparr>"

definition put_queue :: "string \<Rightarrow> string list \<Rightarrow> (db, 'm) store_scheme \<Rightarrow> (db, 'm) store_scheme" where
  "put_queue k l st = st\<lparr>rs := put_list k (rev l) (rs st)\<rparr>"

lemma store_ok_put_sorted [simp]:
  "store_ok st \<Longrightarrow> n \<in> set sset_names \<Longrightarrow> zset_ok z \<Longrightarrow> store_ok (put_sorted n z st)"
  using sset_not_special [of n] queue_key_sset [of _ n]
  by (auto simp: store_ok_def db_typed_def put_sorted_def queue_names_def)

lemma store_ok_put_queue [simp]:
  "store_ok st \<Longrightarrow> queue_key k \<Longrightarrow> store_ok (put_queue k l st)"
  by (simp add: store_ok_def db_typed_def put_queue_def queue_names_def)

lemma store_ok_tick [simp]: "store_ok (st\<lparr>tick := n\<rparr>) = store_ok st"
  by (simp add: store_ok_def)

lemma zset_of_put [simp]:
  "zset_of n (put_sorted m z st) = (if n = m then z else zset_of n st)"
  "queue_key k \<Longrightarrow> n \<in> set sset_names \<Longrightarrow> zset_of n (put_queue k l st) = zset_of n st"
  "zset_of n (st\<lparr>tick := i\<rparr>) = zset_of n st"
  "zset_of n (st\<lparr>queueSet := qs\<rparr>) = zset_of n st"
  using queue_key_sset [of k n] by (auto simp: zset_of_def put_sorted_def put_queue_def)

lemma queue_of_put [simp]:
  "queue_of j (put_queue k l st) = (if j = k then l else queue_of j st)"
  "queue_key k \<Longrightarrow> n \<in> set sset_names \<Longrightarrow> queue_of k (put_sorted n z st) = queue_of k st"
  "queue_of k (st\<lparr>tick := i\<rparr>) = queue_of k st"
  "queue_of k (st\<lparr>queueSet := qs\<rparr>) = queue_of k st"
  using queue_key_sset [of k n] by (auto simp: queue_of_def put_sorted_def put_queue_def)

lemma put_fields [simp]:
  "tick (put_sorted n z st) = tick st" "tick (put_queue k l st) = tick st"
  "clock (put_sorted n z st) = clock st" "clock (put_queue k l st) = clock st"
  "rands (put_sorted n z st) = rands st" "rands (put_queue k l st) = rands st"
  "queueSet (put_sorted n z st) = queueSet st" "queueSet (put_queue k l st) = queueSet st"
  "same_env st (put_sorted n z st)" "same_env st (put_queue k l st)"
  by (simp_all add: put_sorted_def put_queue_def)

lemma put_sorted_same: "store_ok st \<Longrightarrow> n \<in> set sset_names \<Longrightarrow> put_sorted n (zset_of n st) st = st"
  by (simp add: put_sorted_def get_zset_of store_ok_db)

lemma put_sorted_put [simp]: "put_sorted n z (put_sorted n z' st) = put_sorted n z st"
  by (simp add: put_sorted_def)

section \<open>Effects of the operations\<close>

lemma call_lpush [gosimps]:
  "get_list k (rs st) = Ok l \<Longrightarrow>
   call (lpush db_redis k v) st = (Ok (int (length l) + 1), st\<lparr>rs := put_list k (v # l) (rs st)\<rparr>)"
  by (simp add: call_def db_redis_def db_lpush_def on_val_def)

lemma call_rpop [gosimps]:
  "get_list k (rs st) = Ok l \<Longrightarrow>
   call (rpop db_redis k) st =
     (if l = [] then (Ok None, st\<lparr>rs := put_list k l (rs st)\<rparr>)
      else (Ok (Some (last l)), st\<lparr>rs := put_list k (butlast l) (rs st)\<rparr>))"
  by (simp add: call_def db_redis_def db_rpop_def on_val_def)

lemma call_llen [gosimps]:
  "get_list k (rs st) = Ok l \<Longrightarrow> db_ok (rs st) \<Longrightarrow>
   call (llen db_redis k) st = (Ok (int (length l)), st)"
  by (simp add: call_def db_redis_def db_llen_def on_val_def)

lemma call_sadd [gosimps]:
  "get_set k (rs st) = Ok s \<Longrightarrow>
   call (sadd db_redis k m) st = (Ok (if m \<in> s then 0 else 1), st\<lparr>rs := put_set k (insert m s) (rs st)\<rparr>)"
  by (simp add: call_def db_redis_def db_sadd_def on_val_def)

lemma call_srem [gosimps]:
  "get_set k (rs st) = Ok s \<Longrightarrow>
   call (srem db_redis k m) st = (Ok (if m \<in> s then 1 else 0), st\<lparr>rs := put_set k (s - {m}) (rs st)\<rparr>)"
  by (simp add: call_def db_redis_def db_srem_def on_val_def)

lemma AddElement_ok:
  assumes "store_ok st" "n \<in> set sset_names" "time_ok t"
  shows "AddElement db_redis n (Thens t) jid p st =
     (Ok (), put_sorted n (zset_put p (time_f t) (zset_of n st)) st)"
  using AddElement_db [OF get_zset_of [OF assms(1,2)] assms(3)] by (simp add: put_sorted_def)

lemma queue_Push_ok:
  assumes "store_ok st" "queue_key (qname q)"
  shows "queue_Push db_redis q p st = (Ok (), put_queue (qname q) (queue_of (qname q) st @ [p]) st)"
  using get_queue_of [OF assms] by (simp add: queue_Push_def gosimps put_queue_def)

lemma queue_pop_ok:
  assumes "store_ok st" "queue_key (qname q)"
  shows "queue_pop db_redis q st =
    (case queue_of (qname q) st of
       [] \<Rightarrow> (Ok None, st)
     | p # ps \<Rightarrow> (Ok (if p = [] then None else Some p), put_queue (qname q) ps st))"
  using get_queue_of [OF assms] store_ok_db [OF assms(1)]
  by (cases "queue_of (qname q) st")
     (simp_all add: queue_pop_def gosimps put_queue_def)

text \<open>A queue becomes known to the store and to Redis.\<close>

definition add_queue :: "string \<Rightarrow> (db, 'm) store_scheme \<Rightarrow> (db, 'm) store_scheme" where
  "add_queue k st =
     (if k \<in> fst ` set (queueSet st) then st
      else st\<lparr>rs := put_set ''queues'' (insert k (queue_names (rs st))) (rs st),
              queueSet := queueSet st @ [(k, NewQueue k)]\<rparr>)"

lemma add_queue_facts [simp]:
  "n \<in> set sset_names \<Longrightarrow> zset_of n (add_queue k st) = zset_of n st"
  "queue_key j \<Longrightarrow> queue_of j (add_queue k st) = queue_of j st"
  "tick (add_queue k st) = tick st" "clock (add_queue k st) = clock st"
  "rands (add_queue k st) = rands st" "same_env st (add_queue k st)"
  using sset_not_special [of n]
  by (auto simp: add_queue_def zset_of_def queue_of_def same_env_def)

lemma store_ok_add_queue [simp]:
  assumes "store_ok st" "queue_key k"
  shows "store_ok (add_queue k st)"
proof (cases "k \<in> fst ` set (queueSet st)")
  case False
  have "is_ok (get_list j (put_set ''queues'' s (rs st)))" if "queue_key j" for j s
  proof -
    have "j \<noteq> ''queues''" using that by auto
    with assms(1) that show ?thesis by (simp add: store_ok_def db_typed_def)
  qed
  moreover have "is_ok (get_zset n (put_set ''queues'' s (rs st)))" if "n \<in> set sset_names" for n s
    using assms(1) that sset_not_special [OF that] by (simp add: store_ok_def db_typed_def)
  ultimately show ?thesis
    using False assms by (auto simp: store_ok_def db_typed_def add_queue_def queue_names_def NewQueue_def)
qed (simp add: assms add_queue_def)

lemma GetQueue_ok:
  assumes "store_ok st" "queue_key k"
  shows "\<exists>q. qname q = k \<and> GetQueue db_redis k st = (Ok q, add_queue k st)"
proof (cases "map_of (queueSet st) k")
  case (Some q)
  then have q: "(k, q) \<in> set (queueSet st)" by (rule map_of_SomeD)
  then have "k \<in> fst ` set (queueSet st)" by force
  moreover have "qname q = k"
    using assms(1) q by (auto simp: store_ok_def)
  ultimately show ?thesis
    using Some queue_key_ne [OF assms(2)] by (simp add: GetQueue_def gosimps add_queue_def)
next
  case None
  then have "k \<notin> fst ` set (queueSet st)"
    by (simp add: map_of_eq_None_iff)
  with None show ?thesis
    using assms queue_key_ne [OF assms(2)] get_queue_of [OF assms] get_queue_names [OF assms(1)]
      store_ok_db [OF assms(1)]
    by (simp add: GetQueue_def gosimps add_queue_def queue_init_def queue_Size_def NewQueue_def)
qed

lemma GetQueue_invalid:
  assumes "map_of (queueSet st) k = None" "\<not> valid_queue_name k"
  shows "\<exists>e. GetQueue rd k st = (Err e, st)"
  using assms by (auto simp: GetQueue_def gosimps)

lemma queue_Add_ok:
  assumes "store_ok st" "queue_key (qname q)"
  shows "queue_Add db_redis q j st =
    (Ok (), put_queue (qname q)
      (queue_of (qname q) st @ [marshal_job (j\<lparr>EnqueuedAt := Thens (clock st (tick st))\<rparr>)])
      (st\<lparr>tick := tick st + 1\<rparr>))"
  using queue_Push_ok [of "st\<lparr>tick := tick st + 1\<rparr>" q] assms
  by (simp add: queue_Add_def gosimps)

text \<open>The effect of enqueueing a job.\<close>

definition enqueued :: "Job \<Rightarrow> (db, 'm) store_scheme \<Rightarrow> (db, 'm) store_scheme" where
  "enqueued j st =
     put_queue (Queue j)
       (queue_of (Queue j) st @ [marshal_job (j\<lparr>EnqueuedAt := Thens (clock st (tick st))\<rparr>)])
       ((add_queue (Queue j) st)\<lparr>tick := tick st + 1\<rparr>)"

lemma enqueued_facts [simp]:
  assumes "queue_key (Queue j)"
  shows "store_ok st \<Longrightarrow> store_ok (enqueued j st)"
    "n \<in> set sset_names \<Longrightarrow> zset_of n (enqueued j st) = zset_of n st"
    "queue_key k \<Longrightarrow> queue_of k (enqueued j st) =
       (if k = Queue j then queue_of k st @ [marshal_job (j\<lparr>EnqueuedAt := Thens (clock st (tick st))\<rparr>)]
        else queue_of k st)"
    "tick (enqueued j st) = tick st + 1" "clock (enqueued j st) = clock st"
    "same_env st (enqueued j st)"
  using assms by (simp_all add: enqueued_def same_env_def) (simp_all add: add_queue_def put_queue_def)

lemma put_sorted_commute:
  assumes "queue_key k" "n \<in> set sset_names"
  shows "put_queue k l (put_sorted n z st) = put_sorted n z (put_queue k l st)"
    "add_queue k (put_sorted n z st) = put_sorted n z (add_queue k st)"
    "(put_sorted n z st)\<lparr>tick := i\<rparr> = put_sorted n z (st\<lparr>tick := i\<rparr>)"
  using queue_key_sset [OF assms] sset_not_special [OF assms(2)]
  by (auto simp: put_queue_def put_sorted_def add_queue_def put_list_def put_zset_def put_set_def
      fun_upd_twist queue_names_def get_set_def)

lemma enqueued_commute:
  "queue_key (Queue j) \<Longrightarrow> n \<in> set sset_names \<Longrightarrow>
   enqueued j (put_sorted n z st) = put_sorted n z (enqueued j st)"
  by (simp add: enqueued_def put_sorted_commute)

section \<open>Draining the due entries of a sorted set\<close>

lemma filter_due_takeWhile:
  "zset_ok z \<Longrightarrow> filter (\<lambda>(m, x). x \<le> t) z = takeWhile (\<lambda>(m, x). x \<le> t) z"
proof (induction z)
  case (Cons a z)
  have "\<forall>b \<in> set z. snd a \<le> snd b" "zset_ok z"
    using Cons.prems by (auto simp: zset_ok_def zlt_def)
  then have "filter (\<lambda>(m, x). x \<le> t) z = []" if "\<not> snd a \<le> t"
    using that by (force simp: filter_empty_conv)
  with Cons.IH [OF \<open>zset_ok z\<close>] show ?case
    by (cases a; cases "snd a \<le> t") simp_all
qed simp

lemma filter_not_prefix:
  "distinct (map fst z) \<Longrightarrow> filter (\<lambda>(m, x). m \<notin> set (map fst (take c z))) z = drop c z"
proof -
  assume d: "distinct (map fst z)"
  have z: "z = take c z @ drop c z" by simp
  have "filter (\<lambda>(m, x). m \<notin> set (map fst (take c z))) (drop c z) = drop c z"
  proof (rule filter_True, clarify)
    fix m x assume "(m, x) \<in> set (drop c z)" "m \<in> set (map fst (take c z))"
    then have "m \<in> set (take c (map fst z)) \<inter> set (drop c (map fst z))"
      by (force simp: take_map drop_map)
    with d show False by (metis empty_iff set_take_disj_set_drop_if_distinct order_refl)
  qed
  moreover have "filter (\<lambda>(m, x). m \<notin> set (map fst (take c z))) (take c z) = []"
    by (force simp: filter_empty_conv)
  ultimately show ?thesis
    using z by (metis append_Nil filter_append)
qed

text \<open>
  A callback that always succeeds and neither reads nor writes the sorted set: removal of the entries
  and the callback can be told apart.
\<close>

definition drains :: "string \<Rightarrow> (string \<Rightarrow> ((db, 'm) store_scheme, unit) gofun) \<Rightarrow>
    (string \<Rightarrow> (db, 'm) store_scheme \<Rightarrow> (db, 'm) store_scheme) \<Rightarrow> string set \<Rightarrow> bool" where
  "drains n fn g P \<longleftrightarrow>
     (\<forall>p \<in> P. \<forall>st. store_ok st \<longrightarrow> fn p st = (Ok (), g p st) \<and> store_ok (g p st)
        \<and> zset_of n (g p st) = zset_of n st
        \<and> (\<forall>z. g p (put_sorted n z st) = put_sorted n z (g p st)))"

lemma drainsD:
  assumes "drains n fn g P" "p \<in> P" "store_ok st"
  shows "fn p st = (Ok (), g p st)" "store_ok (g p st)" "zset_of n (g p st) = zset_of n st"
    "g p (put_sorted n z st) = put_sorted n z (g p st)"
  using assms by (simp_all add: drains_def)

lemma fold_drains:
  "drains n fn g P \<Longrightarrow> set js \<subseteq> P \<Longrightarrow> store_ok st \<Longrightarrow>
   fold g js (put_sorted n z st) = put_sorted n z (fold g js st)"
  by (induction js arbitrary: st) (simp_all add: drainsD)

lemma remove_loop_drains:
  assumes "drains n fn g P" "n \<in> set sset_names"
  shows "store_ok st \<Longrightarrow> set js \<subseteq> P \<Longrightarrow> distinct js \<Longrightarrow> set js \<subseteq> fst ` set (zset_of n st) \<Longrightarrow>
    remove_loop db_redis n fn c js st =
      (Ok (c + int (length js)),
       put_sorted n (filter (\<lambda>(m, x). m \<notin> set js) (zset_of n st)) (fold g js st))
    \<and> store_ok (fold g js st) \<and> zset_of n (fold g js st) = zset_of n st"
proof (induction js arbitrary: c st)
  case Nil
  then show ?case
    using put_sorted_same [OF Nil.prems(1) assms(2)] by (simp add: gosimps)
next
  case (Cons j js)
  let ?z = "zset_of n st"
  let ?s = "put_sorted n (zrem_m j ?z) st"
  have "call (zrem db_redis n j) st = (Ok 1, ?s)"
    using call_zrem [OF get_zset_of [OF Cons.prems(1) assms(2)], of j] Cons.prems(4)
    by (simp add: put_sorted_def)
  moreover have s: "store_ok ?s"
    using Cons.prems(1) assms(2) by (simp add: zset_of_ok)
  moreover have zs: "zset_of n ?s = zrem_m j ?z" by simp
  have j: "j \<in> P" "set js \<subseteq> P" using Cons.prems(2) by auto
  note fn = drainsD(1-3) [OF assms(1) j(1) s] and g = drainsD(4) [OF assms(1) j(1) Cons.prems(1)]
    and gj = drainsD(2,3) [OF assms(1) j(1) Cons.prems(1)]
  have sub: "set js \<subseteq> fst ` set (zset_of n (g j ?s))"
  proof
    fix m assume "m \<in> set js"
    with Cons.prems obtain x where "(m, x) \<in> set ?z" "m \<noteq> j" by fastforce
    then show "m \<in> fst ` set (zset_of n (g j ?s))" by (force simp: fn(3) zs)
  qed
  have ih: "remove_loop db_redis n fn (c + 1) js (g j ?s) =
      (Ok (c + 1 + int (length js)),
       put_sorted n (filter (\<lambda>(m, x). m \<notin> set js) (zset_of n (g j ?s))) (fold g js (g j ?s)))"
    using Cons.IH [OF fn(2), of "c + 1"] Cons.prems sub by simp
  have "filter (\<lambda>(m, x). m \<notin> set js) (zrem_m j ?z) = filter (\<lambda>(m, x). m \<notin> set (j # js)) ?z"
    by (auto simp: zrem_m_def intro!: filter_cong)
  with ih have run: "remove_loop db_redis n fn (c + 1) js (g j ?s) =
      (Ok (c + int (length (j # js))),
       put_sorted n (filter (\<lambda>(m, x). m \<notin> set (j # js)) ?z) (fold g js (g j st)))"
    using fold_drains [OF assms(1) j(2) gj(1)] by (simp add: fn(3) g zs)
  have fold_ok: "store_ok (fold g js (g j st)) \<and> zset_of n (fold g js (g j st)) = ?z"
    using Cons.IH [OF gj(1)] Cons.prems gj(2) by simp
  from calculation fn run fold_ok show ?case
    by (simp add: gosimps)
qed

lemma in_range_below_fun: "(\<lambda>(m, y). in_range None h y) = (\<lambda>(m, y). y \<le> h)"
  by (auto simp: fun_eq_iff)

lemma RemoveBefore_drains:
  assumes "drains n fn g P" "n \<in> set sset_names" "store_ok st" "time_ok t" "0 < c"
    and "due = take (nat c) (map fst (takeWhile (\<lambda>(m, x). x \<le> time_f t) (zset_of n st)))" "set due \<subseteq> P"
  shows "RemoveBefore db_redis n (Thens t) c fn st =
      (Ok (int (length due)), put_sorted n (drop (length due) (zset_of n st)) (fold g due st))"
    "store_ok (fold g due st)" "zset_of n (fold g due st) = zset_of n st"
proof -
  let ?z = "zset_of n st"
  have z: "zset_ok ?z" by (rule zset_of_ok) fact
  define w where "w = takeWhile (\<lambda>(m, x). x \<le> time_f t) ?z"
  have len: "length due = min (length w) (nat c)"
    by (simp add: assms(6) w_def)
  have w: "w = take (length w) ?z"
    unfolding w_def by (rule takeWhile_eq_take)
  have "take (length due) ?z = take (nat c) w"
    by (subst w) (simp add: len min.commute)
  then have due: "due = map fst (take (length due) ?z)"
    by (simp add: assms(6) w_def take_map)
  have d: "distinct (map fst ?z)" using z by (simp add: zset_ok_def)
  then have "distinct due" by (metis due distinct_take take_map)
  moreover have "set due \<subseteq> fst ` set ?z"
    by (subst due) (auto dest: in_set_takeD)
  moreover have "filter (\<lambda>(m, x). m \<notin> set due) ?z = drop (length due) ?z"
    using filter_not_prefix [OF d, of "length due"] due by simp
  moreover have "call (zrangebyscore db_redis n None (time_f t) (Some c)) st = (Ok due, st)"
    using call_zrangebyscore [OF get_zset_of [OF assms(3,2)] store_ok_db [OF assms(3)]] assms(5)
    by (simp add: filter_due_takeWhile [OF z] limit_to_def assms(6) in_range_below_fun)
  ultimately show "RemoveBefore db_redis n (Thens t) c fn st =
      (Ok (int (length due)), put_sorted n (drop (length due) ?z) (fold g due st))"
    "store_ok (fold g due st)" "zset_of n (fold g due st) = ?z"
    using remove_loop_drains [OF assms(1,2,3,7)] assms(4,5) by (simp_all add: RemoveBefore_def gosimps)
qed

end
