(* ===== verification/StoreProps.thy ===== *)
theory StoreProps
  imports StoreFacts
begin

text \<open>
  What the storage promises its callers, for every Redis that keeps the contract
  \<open>redis_server\<close>: queues are first in, first out; the key of a sorted-set entry leads back to the
  entry; a restart finds the queues again; \<open>EnqueueFrom\<close> moves a job, and \<open>EnqueueAll\<close> moves the
  jobs of a set of up to one page.
\<close>

section \<open>Queues are FIFO\<close>

fun pops :: "('s \<Rightarrow> 'a option \<times> 's) \<Rightarrow> nat \<Rightarrow> 's \<Rightarrow> 'a option list \<times> 's" where
  "pops pop 0 s = ([], s)"
| "pops pop (Suc n) s = (case pop s of (v, s') \<Rightarrow> (case pops pop n s' of (vs, s'') \<Rightarrow> (v # vs, s'')))"

locale fifo =
  fixes content :: "'s \<Rightarrow> 'a list" and inv :: "'s \<Rightarrow> bool" and allowed :: "'a \<Rightarrow> bool"
    and push :: "'a \<Rightarrow> 's \<Rightarrow> 's" and pop :: "'s \<Rightarrow> 'a option \<times> 's"
  assumes push_law: "inv s \<Longrightarrow> allowed x \<Longrightarrow> inv (push x s) \<and> content (push x s) = content s @ [x]"
    and pop_law: "inv s \<Longrightarrow> content s = x # xs \<Longrightarrow>
      fst (pop s) = Some x \<and> inv (snd (pop s)) \<and> content (snd (pop s)) = xs"
    and pop_empty: "inv s \<Longrightarrow> content s = [] \<Longrightarrow>
      fst (pop s) = None \<and> inv (snd (pop s)) \<and> content (snd (pop s)) = []"
begin

lemma push_all:
  "inv s \<Longrightarrow> list_all allowed xs \<Longrightarrow> inv (fold push xs s) \<and> content (fold push xs s) = content s @ xs"
  by (induction xs arbitrary: s) (auto simp: push_law)

lemma pop_all:
  "inv s \<Longrightarrow> content s = xs @ ys \<Longrightarrow>
   fst (pops pop (length xs) s) = map Some xs \<and> content (snd (pops pop (length xs) s)) = ys"
proof (induction xs arbitrary: s)
  case (Cons x xs)
  obtain v s' where p: "pop s = (v, s')" by fastforce
  have "v = Some x" "inv s'" "content s' = xs @ ys"
    using pop_law [of s x "xs @ ys"] Cons.prems p by auto
  with Cons.IH [of s'] p show ?case by (simp split: prod.split) (metis fst_conv snd_conv)
qed simp

lemma first_in_first_out:
  assumes "inv s" "content s = []" "list_all allowed xs"
  shows "fst (pops pop (length xs) (fold push xs s)) = map Some xs"
  using push_all [OF assms(1,3)] pop_all [of "fold push xs s" xs "[]"] assms(2) by simp

end

definition push_payload :: "'s redis \<Rightarrow> redisQueue \<Rightarrow> string \<Rightarrow> ('s, 'm) store_scheme \<Rightarrow> ('s, 'm) store_scheme" where
  "push_payload rd q p st = snd (queue_Push rd q p st)"

definition pop_payload :: "'s redis \<Rightarrow> redisQueue \<Rightarrow> ('s, 'm) store_scheme \<Rightarrow> string option \<times> ('s, 'm) store_scheme" where
  "pop_payload rd q st = (case queue_Pop rd q st of (Ok v, st') \<Rightarrow> (v, st') | (_, st') \<Rightarrow> (None, st'))"

definition q_content :: "('s \<Rightarrow> db) \<Rightarrow> redisQueue \<Rightarrow> ('s, 'm) store_scheme \<Rightarrow> string list" where
  "q_content view q st = queue_of (qname q) (sview view st)"

definition q_inv :: "('s \<Rightarrow> db) \<Rightarrow> ('s \<Rightarrow> bool) \<Rightarrow> redisQueue \<Rightarrow> ('s, 'm) store_scheme \<Rightarrow> bool" where
  "q_inv view healthy q st \<longleftrightarrow> healthy (rs st) \<and> store_ok (sview view st) \<and> [] \<notin> set (q_content view q st)"

locale redis_queue = redis_server rd view healthy for rd :: "'s redis" and view healthy +
  fixes q :: redisQueue
  assumes q_key: "queue_key (qname q)" and q_open: "\<not> qdone q"
begin

lemma push_step:
  assumes s: "q_inv view healthy q s" and x: "x \<noteq> []"
  shows "q_inv view healthy q (push_payload rd q x s)
    \<and> q_content view q (push_payload rd q x s) = q_content view q s @ [x]"
proof -
  have h: "healthy (rs s)" and ok: "store_ok (sview view s)" using s by (simp_all add: q_inv_def)
  have "sview view (push_payload rd q x s) =
      put_queue (qname q) (queue_of (qname q) (sview view s) @ [x]) (sview view s)"
    using simD(2) [OF queue_sims(6) h, of q x] queue_Push_ok [OF ok q_key]
    by (simp add: push_payload_def)
  moreover have "healthy (rs (push_payload rd q x s))"
    using simD(3) [OF queue_sims(6) h, of q x] by (simp add: push_payload_def)
  ultimately show ?thesis
    using s x ok q_key by (simp add: q_inv_def q_content_def)
qed

lemma pop_step:
  assumes s: "q_inv view healthy q s"
  shows "fst (pop_payload rd q s) = (case q_content view q s of [] \<Rightarrow> None | x # xs \<Rightarrow> Some x)"
    "q_inv view healthy q (snd (pop_payload rd q s))"
    "q_content view q (snd (pop_payload rd q s)) = tl (q_content view q s)"
proof -
  have h: "healthy (rs s)" and ok: "store_ok (sview view s)"
    using s by (auto simp: q_inv_def)
  have ne: "[] \<notin> set (tl (q_content view q s))"
    using s by (cases "q_content view q s") (auto simp: q_inv_def)
  obtain r s' where p: "queue_Pop rd q s = (r, s')" by fastforce
  note run = simD [OF queue_sims(8) h, of q, unfolded p]
  have "r = Ok (case q_content view q s of [] \<Rightarrow> None | x # xs \<Rightarrow> Some x)"
    "queue_of (qname q) (sview view s') = tl (q_content view q s)" "healthy (rs s')"
    "store_ok (sview view s')"
    using run queue_pop_ok [OF ok q_key] q_open s ok q_key
    by (auto simp: queue_Pop_def q_content_def q_inv_def split: list.splits)
  then show "fst (pop_payload rd q s) = (case q_content view q s of [] \<Rightarrow> None | x # xs \<Rightarrow> Some x)"
    "q_inv view healthy q (snd (pop_payload rd q s))"
    "q_content view q (snd (pop_payload rd q s)) = tl (q_content view q s)"
    using p ne by (simp_all add: pop_payload_def q_inv_def q_content_def)
qed

end

sublocale redis_queue \<subseteq> fifo "q_content view q" "q_inv view healthy q" "\<lambda>p. p \<noteq> []"
    "push_payload rd q" "pop_payload rd q"
  by unfold_locales (simp_all add: push_step pop_step)

context redis_queue
begin

lemmas in_order = first_in_first_out

end

lemma queue_key_default: "queue_key ''default''"
  by (simp add: queue_key_def reserved_key_def sset_names_def valid_queue_name_def queue_char_def Let_def)

interpretation default_queue: redis_queue db_redis "\<lambda>d. d" "\<lambda>_. True" "NewQueue ''default''"
  by unfold_locales (simp_all add: NewQueue_def queue_key_default)

text \<open>
  C4: a queue is first in, first out, on every Redis that keeps the contract: payloads pushed onto an
  empty queue are popped in the order they were pushed, none lost, none twice.
\<close>

theorem queue_fifo:
  assumes "redis_server rd view healthy" "healthy (rs st)" "store_ok (sview view st)"
    and "queue_key (qname q)" "\<not> qdone q"
    and "queue_of (qname q) (sview view st) = []" "\<forall>p \<in> set ps. p \<noteq> []"
  shows "fst (pops (pop_payload rd q) (length ps) (fold (push_payload rd q) ps st)) = map Some ps"
proof -
  have "redis_queue rd view healthy q"
    using assms(1,4,5) by (simp add: redis_queue_def redis_queue_axioms_def)
  moreover have "q_inv view healthy q st" "q_content view q st = []" "list_all (\<lambda>p. p \<noteq> []) ps"
    using assms by (simp_all add: q_inv_def q_content_def list_all_iff)
  ultimately show ?thesis
    by (rule redis_queue.in_order)
qed

section \<open>Sample states\<close>

definition sample_clock :: "nat \<Rightarrow> time" where
  "sample_clock n = (1600000000 + int (min n 1000000)) * second"

definition empty_store :: "db store" where
  "empty_store = \<lparr>rs = (\<lambda>_. None), queueSet = [], clock = sample_clock, rands = (\<lambda>n. n), tick = 0,
     local_offset = (\<lambda>_. 0)\<rparr>"

lemma empty_store_ok: "store_ok empty_store"
  by (auto simp: store_ok_def empty_store_def db_typed_def db_ok_def get_zset_def get_set_def get_list_def
      queue_names_def)

lemma empty_store_of [simp]: "zset_of n empty_store = []" "queue_of k empty_store = []"
  by (simp_all add: zset_of_def queue_of_def empty_store_def get_zset_def get_list_def)

theorem queue_fifo_witness:
  "fst (pops (pop_payload db_redis (NewQueue ''default'')) 3
     (fold (push_payload db_redis (NewQueue ''default'')) [''a'', ''b'', ''c''] empty_store))
   = [Some ''a'', Some ''b'', Some ''c'']"
  using queue_fifo [OF dbr.redis_server_axioms, of empty_store "NewQueue ''default''" "[''a'', ''b'', ''c'']"]
  by (simp add: empty_store_ok NewQueue_def queue_key_default numeral_3_eq_3)

section \<open>A payload names its jid\<close>

definition plain_char :: "char \<Rightarrow> bool" where
  "plain_char c \<longleftrightarrow> quote_char c = [c] \<and> c \<noteq> CHR 0xE2 \<and> c \<noteq> CHR ''{'' \<and> c \<noteq> CHR ''|''"

definition plain_jid :: "string \<Rightarrow> bool" where
  "plain_jid s \<longleftrightarrow> s \<noteq> [] \<and> list_all plain_char s"

lemma quote_bytes_plain: "list_all plain_char s \<Longrightarrow> quote_bytes s = s"
  by (induction s) (auto simp: plain_char_def)

lemma plain_jid_occurs:
  assumes "plain_jid jid"
  shows "0 < str_index (CHR ''{'' # u @ quote_bytes jid @ v) jid"
proof -
  obtain c cs where j: "jid = c # cs" "c \<noteq> CHR ''{''"
    using assms by (cases jid) (auto simp: plain_jid_def plain_char_def)
  then have "\<not> has_prefix (CHR ''{'' # u @ quote_bytes jid @ v) jid"
    by simp
  moreover have "CHR ''{'' # u @ quote_bytes jid @ v = (CHR ''{'' # u) @ jid @ v"
    using assms by (simp add: plain_jid_def quote_bytes_plain)
  ultimately show ?thesis
    using str_index_pos_iff [of jid] j by blast
qed

lemma show_obj_first:
  "\<exists>v. show_json (JObj ((k, w) # kvs)) = CHR ''{'' # quote_json k @ '':'' @ show_json w @ v"
  by (cases kvs) simp_all

lemma jid_in_marshal:
  assumes "plain_jid (Jid j)"
  shows "0 < str_index (marshal_job j) (Jid j)"
proof -
  obtain kvs where "encode_job j = JObj ((''jid'', JStr (Jid j)) # kvs)"
    by (simp add: encode_job_def)
  then obtain v where "marshal_job j = CHR ''{'' # quote_json ''jid'' @ '':'' @ quote_json (Jid j) @ v"
    using show_obj_first [of "''jid''" "JStr (Jid j)" kvs] by (auto simp: marshal_job_def simp del: show_json.simps(6))
  then have "marshal_job j =
      CHR ''{'' # (quote_json ''jid'' @ '':'' @ [CHR 0x22]) @ quote_bytes (Jid j) @ (CHR 0x22 # v)"
    by (simp only: quote_json_def append.simps append_assoc)
  then show ?thesis
    using plain_jid_occurs [OF assms] by metis
qed

lemma plain_no_pipe: "plain_jid s \<Longrightarrow> CHR ''|'' \<notin> set s"
  by (auto simp: plain_jid_def plain_char_def list_all_iff)

lemma base64url_plain: "list_all plain_char base64url"
  by (simp add: base64url_def plain_char_def quote_char_def Let_def)

lemma base64_nth: "i < 64 \<Longrightarrow> base64url ! i \<in> set base64url"
  by (intro nth_mem) (simp add: base64url_def)

lemma sextets:
  assumes "a < 256" "b < (256 :: nat)"
  shows "a div 4 < 64" "a mod 4 * 16 < 64" "a mod 4 * 16 + b div 16 < 64"
    "a mod 16 * 4 < 64" "a mod 16 * 4 + b div 64 < 64" "a mod 64 < 64"
proof -
  have "a mod 4 < 4" "a mod 16 < 16" "b div 16 < 16" "b div 64 < 4"
    using assms by (simp_all add: div_less_iff_less_mult)
  then show "a mod 4 * 16 < 64" "a mod 4 * 16 + b div 16 < 64" "a mod 16 * 4 < 64"
    "a mod 16 * 4 + b div 64 < 64"
    by linarith+
qed (use assms in \<open>simp_all add: div_less_iff_less_mult\<close>)

lemma base64_encode_chars:
  "\<forall>b \<in> set bytes. b < 256 \<Longrightarrow> set (base64_encode bytes) \<subseteq> set base64url"
  by (induction bytes rule: base64_encode.induct) (auto intro!: base64_nth sextets)

lemma RandomJid_plain:
  "length bytes = 12 \<Longrightarrow> \<forall>b \<in> set bytes. b < 256 \<Longrightarrow> plain_jid (RandomJid bytes)"
  using length_RandomJid [of bytes] base64_encode_chars [of bytes] base64url_plain
  by (auto simp: plain_jid_def RandomJid_def list_all_iff)

section \<open>Keys lead back to entries\<close>

text \<open>
  C5: the key computed for an entry of a sorted set (its score turned back into a timestamp, and its
  jid) finds and removes exactly that entry, although scores are rounded to \<open>float64\<close>; the other
  entries and the queues are untouched.  The payload must name its jid and no other payload with the
  same score may.
\<close>

theorem key_leads_to_entry:
  assumes "redis_server rd view healthy" "healthy (rs st)" "store_ok (sview view st)"
    and "n \<in> set sset_names" "modern_time t" "unmarshal_job p = Ok j" "CHR ''|'' \<notin> set (Jid j)"
    and "own_jid (Jid j) p (at_score (time_f t) (zset_of n (sview view st)))"
  shows "\<exists>key. entry_Key (NewEntry (time_f t) p) = Ok key
    \<and> fst (Get rd n key st) = Ok (Some (NewEntry (time_f t) p))
    \<and> fst (Remove rd n key st) = Ok True
    \<and> sview view (snd (Remove rd n key st)) =
        put_sorted n (zrem_m p (zset_of n (sview view st))) (sview view st)"
proof -
  let ?d = "sview view st"
  obtain key where key: "entry_Key (NewEntry (time_f t) p) = Ok key" "decompose key = Ok (time_f t, Jid j)"
    using entry_Key_decompose [OF assms(5-7)] by blast
  have z: "get_zset n (rs ?d) = Ok (zset_of n ?d)" and db: "db_ok (rs ?d)"
    using assms(3,4) get_zset_of store_ok_db by blast+
  have "Get db_redis n key ?d = (Ok (Some (NewEntry (time_f t) p)), ?d)"
    "Remove db_redis n key ?d = (Ok True, put_sorted n (zrem_m p (zset_of n ?d)) ?d)"
    using Get_db [OF z db key(2)] Remove_db [OF z db key(2)] rem_db [OF z db] pick_own [OF assms(8)]
    by (simp_all add: put_sorted_def)
  with key(1) show ?thesis
    using simD [OF redis_server.Get_sim [OF assms(1)] assms(2), of n key]
      simD [OF redis_server.Remove_sim [OF assms(1)] assms(2), of n key] by auto
qed

definition sample_time :: time where
  "sample_time = 1600000000 * second"

definition sample_store :: "db store" where
  "sample_store = put_sorted ''retries'' [(marshal_job sample_job, time_f sample_time)] empty_store"

lemma sample_facts:
  "modern_time sample_time" "unmarshal_job (marshal_job sample_job) = Ok sample_job"
  "plain_jid (Jid sample_job)" "Queue sample_job = ''default''"
  "store_ok sample_store"
  "zset_of ''retries'' sample_store = [(marshal_job sample_job, time_f sample_time)]"
proof -
  show "modern_time sample_time" by (simp add: modern_time_def sample_time_def)
  show "unmarshal_job (marshal_job sample_job) = Ok sample_job"
    using unmarshal_marshal [OF sample_job_ok]
    by (simp add: norm_job_def norm_failure_def nil_empty_def sample_job_def SetCustom_def zero_job_def
        zero_failure_def)
  show "plain_jid (Jid sample_job)" "Queue sample_job = ''default''"
    by (simp_all add: sample_job_def SetCustom_def zero_job_def plain_jid_def plain_char_def
        quote_char_def Let_def)
  show "store_ok sample_store"
    by (simp add: sample_store_def empty_store_ok sset_names_def zset_ok_def)
  show "zset_of ''retries'' sample_store = [(marshal_job sample_job, time_f sample_time)]"
    by (simp add: sample_store_def)
qed

theorem key_leads_to_entry_witness:
  "\<exists>key. entry_Key (NewEntry (time_f sample_time) (marshal_job sample_job)) = Ok key
    \<and> fst (Remove db_redis ''retries'' key sample_store) = Ok True
    \<and> zset_of ''retries'' (snd (Remove db_redis ''retries'' key sample_store)) = []"
proof -
  have "own_jid (Jid sample_job) (marshal_job sample_job)
      (at_score (time_f sample_time) (zset_of ''retries'' sample_store))"
    using jid_in_marshal [OF sample_facts(3)] by (simp add: own_jid_def sample_facts(6))
  from key_leads_to_entry [OF dbr.redis_server_axioms _ _ _ sample_facts(1,2) plain_no_pipe [OF sample_facts(3)],
      of sample_store "''retries''", simplified, OF sample_facts(5) _ this]
  show ?thesis
    by (auto simp: sset_names_def sample_facts(6) zrem_m_def)
qed

section \<open>Moving jobs from a sorted set to their queues\<close>

text \<open>An entry the storage can move: its key is usable, its payload is a job of a known kind of queue.\<close>

definition movable :: "(string \<times> rat) list \<Rightarrow> string \<times> rat \<Rightarrow> bool" where
  "movable z e \<longleftrightarrow> (\<exists>t j. modern_time t \<and> snd e = time_f t \<and> unmarshal_job (fst e) = Ok j
     \<and> CHR ''|'' \<notin> set (Jid j) \<and> own_jid (Jid j) (fst e) (at_score (time_f t) z) \<and> queue_key (Queue j))"

definition job_of :: "string \<Rightarrow> Job" where
  "job_of p = (case unmarshal_job p of Ok j \<Rightarrow> j | _ \<Rightarrow> zero_job)"

lemma movable_cases:
  assumes "movable z e"
  obtains key where "entry_Key (NewEntry (snd e) (fst e)) = Ok key"
    "decompose key = Ok (snd e, Jid (job_of (fst e)))"
    "entry_Job (NewEntry (snd e) (fst e)) = Ok (job_of (fst e))" "queue_key (Queue (job_of (fst e)))"
    "pick (Jid (job_of (fst e))) (at_score (snd e) z) = Some (fst e)"
proof -
  obtain t j where *: "modern_time t" "snd e = time_f t" "unmarshal_job (fst e) = Ok j"
    "CHR ''|'' \<notin> set (Jid j)" "own_jid (Jid j) (fst e) (at_score (time_f t) z)" "queue_key (Queue j)"
    using assms unfolding movable_def by blast
  then have "job_of (fst e) = j" by (simp add: job_of_def)
  with * entry_Key_decompose [OF *(1,3,4)] pick_own [OF *(5)] show ?thesis
    using that by (auto simp: entry_Job_def NewEntry_def)
qed

lemma rem_ok:
  assumes "store_ok st" "n \<in> set sset_names" "pick jid (at_score x (zset_of n st)) = Some p"
  shows "rem db_redis n x jid st = (Ok True, put_sorted n (zrem_m p (zset_of n st)) st)"
  using rem_db [OF get_zset_of [OF assms(1,2)] store_ok_db [OF assms(1)], of x jid] assms(3)
  by (simp add: put_sorted_def)

text \<open>The common part of \<open>EnqueueAll\<close> and \<open>EnqueueFrom\<close>.\<close>

lemma move_one:
  assumes "store_ok st" "n \<in> set sset_names" "queue_key (Queue j)" "decompose key = Ok (x, jid)"
    "pick jid (at_score x (zset_of n st)) = Some p"
  shows "bindS (GetQueue db_redis (Queue j)) (\<lambda>q. bindS (Remove db_redis n key) (\<lambda>ok.
      if \<not> ok then retS () else queue_Add db_redis q j)) st =
    (Ok (), put_sorted n (zrem_m p (zset_of n st)) (enqueued j st))"
proof -
  obtain q where q: "qname q = Queue j" "GetQueue db_redis (Queue j) st = (Ok q, add_queue (Queue j) st)"
    using GetQueue_ok [OF assms(1,3)] by blast
  have "Remove db_redis n key (add_queue (Queue j) st) =
      (Ok True, put_sorted n (zrem_m p (zset_of n st)) (add_queue (Queue j) st))"
    using rem_ok [of "add_queue (Queue j) st" n jid x p] assms by (simp add: Remove_def gosimps)
  moreover have "store_ok (put_sorted n (zrem_m p (zset_of n st)) (add_queue (Queue j) st))"
    using assms by (simp add: zset_of_ok)
  ultimately show ?thesis
    using q assms queue_Add_ok [of "put_sorted n (zrem_m p (zset_of n st)) (add_queue (Queue j) st)" q j]
    by (simp add: gosimps enqueued_def put_sorted_commute)
qed

lemma EnqueueFrom_db:
  assumes "store_ok st" "n \<in> set sset_names" "movable (zset_of n st) (p, x)"
    "entry_Key (NewEntry x p) = Ok key"
  shows "EnqueueFrom db_redis n key st =
    (Ok (), put_sorted n (zrem_m p (zset_of n st)) (enqueued (job_of p) st))"
proof -
  obtain "decompose key = Ok (x, Jid (job_of p))"
    "entry_Job (NewEntry x p) = Ok (job_of p)" "queue_key (Queue (job_of p))"
    "pick (Jid (job_of p)) (at_score x (zset_of n st)) = Some p"
    using movable_cases [OF assms(3)] assms(4) by auto
  with move_one [OF assms(1,2)] show ?thesis
    using Get_db [OF get_zset_of [OF assms(1,2)] store_ok_db [OF assms(1)]]
    by (simp add: EnqueueFrom_def gosimps)
qed

text \<open>
  C6: \<open>EnqueueFrom\<close> moves the job with the given key: it leaves the sorted set, and a copy of it
  with a fresh \<open>enqueued_at\<close> is the last element of the queue it names; all other entries and queues
  stay as they are.
\<close>

theorem EnqueueFrom_moves_job:
  assumes "redis_server rd view healthy" "healthy (rs st)" "store_ok (sview view st)"
    and "n \<in> set sset_names" "movable (zset_of n (sview view st)) (p, x)"
    and "entry_Key (NewEntry x p) = Ok key"
  shows "fst (EnqueueFrom rd n key st) = Ok ()
    \<and> sview view (snd (EnqueueFrom rd n key st)) =
      put_sorted n (zrem_m p (zset_of n (sview view st))) (enqueued (job_of p) (sview view st))"
  using simD [OF redis_server.EnqueueFrom_sim [OF assms(1)] assms(2), of n key]
    EnqueueFrom_db [OF assms(3-6)] by simp_all

lemma sample_movable: "movable [(marshal_job sample_job, time_f sample_time)] (marshal_job sample_job, time_f sample_time)"
  using sample_facts jid_in_marshal [OF sample_facts(3)] plain_no_pipe [OF sample_facts(3)] queue_key_default
  by (auto simp: movable_def own_jid_def intro!: exI [of _ sample_time])

lemma sample_job_of: "job_of (marshal_job sample_job) = sample_job"
  by (simp add: job_of_def sample_facts)

theorem EnqueueFrom_moves_job_witness:
  "\<exists>key. fst (EnqueueFrom db_redis ''retries'' key sample_store) = Ok ()
    \<and> zset_of ''retries'' (snd (EnqueueFrom db_redis ''retries'' key sample_store)) = []
    \<and> queue_of ''default'' (snd (EnqueueFrom db_redis ''retries'' key sample_store)) =
        [marshal_job (sample_job\<lparr>EnqueuedAt := Thens (sample_clock 0)\<rparr>)]"
proof -
  obtain key where key: "entry_Key (NewEntry (time_f sample_time) (marshal_job sample_job)) = Ok key"
    using movable_cases [OF sample_movable] by auto
  have st: "''retries'' \<in> set sset_names" "clock sample_store = sample_clock" "tick sample_store = 0"
    "queue_of ''default'' sample_store = []"
    using queue_key_default by (simp_all add: sset_names_def sample_store_def empty_store_def)
       (simp add: queue_of_def put_sorted_def get_list_def put_zset_def)
  have m: "movable (zset_of ''retries'' sample_store) (marshal_job sample_job, time_f sample_time)"
    using sample_movable by (simp add: sample_facts(6))
  note moved = EnqueueFrom_moves_job [OF dbr.redis_server_axioms _ _ st(1) _ key, of sample_store,
      simplified, OF sample_facts(5) m]
  show ?thesis
    using moved st queue_key_default
    by (intro exI [of _ key]) (simp add: sample_job_of sample_facts(4,6) zrem_m_def)
qed

text \<open>One page of \<open>EnqueueAll\<close>.\<close>

definition move_entry :: "'s redis \<Rightarrow> string \<Rightarrow> nat \<Rightarrow> setEntry \<Rightarrow> (('s, 'm) store_scheme, unit) gofun" where
  "move_entry rd n i e =
     bindS (liftR (entry_Job e)) (\<lambda>j. bindS (liftR (entry_Key e)) (\<lambda>k.
       bindS (GetQueue rd (Queue j)) (\<lambda>q. bindS (Remove rd n k) (\<lambda>ok.
         if \<not> ok then retS () else queue_Add rd q j))))"

lemma EnqueueAll_move_entry: "EnqueueAll f rd n = Each f rd n (move_entry rd n)"
  unfolding EnqueueAll_def move_entry_def ..

lemma movable_tail:
  assumes "movable (e # z) e'" "e' \<in> set z"
  shows "movable z e'"
proof -
  have "own_jid jid p (at_score x z)"
    if "own_jid jid p (at_score x (e # z))" "(p, x) \<in> set z" for jid p x
    using that by (auto simp: own_jid_def split: if_splits)
  with assms show ?thesis
    unfolding movable_def by (metis prod.collapse)
qed

lemma fold_enqueued_commute:
  "\<forall>f \<in> set zs. queue_key (Queue (job_of (fst f))) \<Longrightarrow> n \<in> set sset_names \<Longrightarrow>
   fold (\<lambda>(m, x). enqueued (job_of m)) zs (put_sorted n z s) =
   put_sorted n z (fold (\<lambda>(m, x). enqueued (job_of m)) zs s)"
  by (induction zs arbitrary: s) (auto simp: enqueued_commute)

lemma move_page:
  assumes "n \<in> set sset_names"
  shows "store_ok st \<Longrightarrow> zset_of n st = zs @ rest \<Longrightarrow> \<forall>e \<in> set zs. movable (zs @ rest) e \<Longrightarrow>
    for_idx (\<lambda>i (m, x). move_entry db_redis n i (NewEntry x m)) i zs st =
      (Ok (), put_sorted n rest (fold (\<lambda>(m, x). enqueued (job_of m)) zs st))
    \<and> store_ok (put_sorted n rest (fold (\<lambda>(m, x). enqueued (job_of m)) zs st))"
proof (induction zs arbitrary: i st)
  case Nil
  then show ?case
    using put_sorted_same [OF Nil.prems(1) assms] by (simp add: gosimps)
next
  case (Cons e zs)
  obtain p x where e: "e = (p, x)" by fastforce
  have mv: "movable (zset_of n st) (p, x)" using Cons.prems e by simp
  have zok: "zset_ok (zset_of n st)" by (rule zset_of_ok) fact
  have rm: "zrem_m p (zset_of n st) = zs @ rest"
  proof -
    have "p \<notin> fst ` set (zs @ rest)" using zok Cons.prems(2) e by (auto simp: zset_ok_def)
    then have "zrem_m p (zs @ rest) = zs @ rest" by (rule zrem_m_absent)
    then show ?thesis using Cons.prems(2) e by (simp add: zrem_m_def)
  qed
  have qk: "queue_key (Queue (job_of p))" using movable_cases [OF mv] by auto
  let ?s = "put_sorted n (zs @ rest) (enqueued (job_of p) st)"
  have step: "move_entry db_redis n i (NewEntry x p) st = (Ok (), ?s)"
    using movable_cases [OF mv] move_one [OF Cons.prems(1) assms, of "job_of p"] rm
    by (fastforce simp: move_entry_def gosimps)
  have "zset_ok (zs @ rest)" using zset_ok_zrem [OF zok, of p] by (simp add: rm)
  then have s: "store_ok ?s" "zset_of n ?s = zs @ rest"
    using Cons.prems(1) assms qk by simp_all
  have "\<forall>e' \<in> set zs. movable (zs @ rest) e'"
    using Cons.prems(3) movable_tail [of e "zs @ rest"] by simp
  from Cons.IH [OF s this, of "Suc i"] have
    "for_idx (\<lambda>i (m, x). move_entry db_redis n i (NewEntry x m)) (Suc i) zs ?s =
      (Ok (), put_sorted n rest (fold (\<lambda>(m, x). enqueued (job_of m)) zs ?s))"
    "store_ok (put_sorted n rest (fold (\<lambda>(m, x). enqueued (job_of m)) zs ?s))"
    by simp_all
  moreover have "\<forall>f \<in> set zs. queue_key (Queue (job_of (fst f)))"
    using Cons.prems(3) by (auto elim: movable_cases)
  ultimately show ?case
    using step e by (simp add: gosimps fold_enqueued_commute assms)
qed

lemma slice_page: "slice (int a) (int a + 50 - 1) xs = take 50 (drop a xs)"
  by (auto simp: slice_def Let_def min_def nat_diff_distrib)

lemma EnqueueAll_run:
  assumes "redis_server rd view healthy" "healthy (rs st)" "store_ok (sview view st)"
    and "n \<in> set sset_names" "z = zset_of n (sview view st)" "\<forall>e \<in> set z. movable z e"
    and "length z \<le> 100" "2 \<le> fuel"
  shows "fst (EnqueueAll fuel rd n st) = Ok ()"
    and "sview view (snd (EnqueueAll fuel rd n st)) =
      put_sorted n (drop 50 z) (fold (\<lambda>(m, x). enqueued (job_of m)) (take 50 z) (sview view st))"
proof -
  let ?d = "sview view st"
  let ?s = "put_sorted n (drop 50 z) (fold (\<lambda>(m, x). enqueued (job_of m)) (take 50 z) ?d)"
  obtain f where f: "fuel = Suc (Suc f)"
    using assms(8) by (metis add_2_eq_Suc le_Suc_ex)
  have pg: "Page db_redis n (int a) 50 fn d =
      bindS (for_idx (\<lambda>idx (m, x). fn idx (NewEntry x m)) 0 (take 50 (drop a (zset_of n d))))
        (\<lambda>_. retS (int (length (take 50 (drop a (zset_of n d)))))) d"
    if "store_ok d" for a fn and d :: "(db, 'b) store_scheme"
    using call_zrange [OF get_zset_of [OF that assms(4)] store_ok_db [OF that]] slice_page [of a "zset_of n d"]
    by (simp add: Page_def gosimps)
  have m: "for_idx (\<lambda>i (m, x). move_entry db_redis n i (NewEntry x m)) 0 (take 50 z) ?d = (Ok (), ?s)"
    "store_ok ?s"
    using move_page [OF assms(4) assms(3), of "take 50 z" "drop 50 z" 0] assms(5,6)
    by (auto dest: in_set_takeD)
  have p1: "Page db_redis n 0 50 (move_entry db_redis n) ?d = (Ok (int (min (length z) 50)), ?s)"
    using pg [OF assms(3), of 0] m(1) assms(5) by (simp add: gosimps)
  have "each_loop (Suc f) db_redis n 50 (move_entry db_redis n) ?s = (Ok (), ?s)" if "50 \<le> length z"
    using pg [OF m(2), of 50] assms(7) by (simp add: gosimps)
  with p1 have "EnqueueAll fuel db_redis n ?d = (Ok (), ?s)"
    by (simp add: EnqueueAll_move_entry Each_def f gosimps del: each_loop.simps(2))
       (simp add: gosimps)
  then show "fst (EnqueueAll fuel rd n st) = Ok ()" "sview view (snd (EnqueueAll fuel rd n st)) = ?s"
    using simD [OF redis_server.EnqueueAll_sim [OF assms(1)] assms(2), of fuel n] by simp_all
qed

text \<open>
  \<open>EnqueueAll\<close> on a sorted set of at most 100 entries moves the first 50 of them to their queues,
  in order, and leaves the rest where it is: the pages are counted by rank while the entries before
  them disappear.  A set of up to 50 entries is emptied; of 51 to 100 entries, those behind the first
  50 stay.
\<close>

theorem EnqueueAll_first_page:
  assumes "redis_server rd view healthy" "healthy (rs st)" "store_ok (sview view st)"
    and "n \<in> set sset_names" "z = zset_of n (sview view st)" "\<forall>e \<in> set z. movable z e"
    and "length z \<le> 100" "2 \<le> fuel"
  shows "fst (EnqueueAll fuel rd n st) = Ok ()
    \<and> sview view (snd (EnqueueAll fuel rd n st)) =
      put_sorted n (drop 50 z) (fold (\<lambda>(m, x). enqueued (job_of m)) (take 50 z) (sview view st))"
  using EnqueueAll_run [OF assms] by simp

theorem EnqueueAll_first_page_witness:
  "fst (EnqueueAll 2 db_redis ''retries'' sample_store) = Ok ()
   \<and> zset_of ''retries'' (snd (EnqueueAll 2 db_redis ''retries'' sample_store)) = []"
  using EnqueueAll_first_page [OF dbr.redis_server_axioms, of sample_store "''retries''"
      "[(marshal_job sample_job, time_f sample_time)]" 2] sample_movable
  by (simp add: sample_facts sset_names_def)

section \<open>Restart\<close>

context redis_server
begin

lemma init_queues_sim: "simS (init_queues rd vs) (init_queues db_redis vs)"
  unfolding queue_init_def by (induction vs) (auto simp: queue_init_def intro!: sims queue_sims)

end

lemma queue_init_db:
  assumes "db_typed (rs st)" "queue_key k"
  shows "queue_init db_redis (NewQueue k) st = (Ok (), st)"
proof -
  obtain l where "get_list k (rs st) = Ok l"
    using assms by (auto simp: db_typed_def is_ok_iff)
  moreover have "db_ok (rs st)" using assms(1) by (simp add: db_typed_def)
  ultimately show ?thesis
    by (simp add: queue_init_def queue_Size_def NewQueue_def gosimps)
qed

lemma update_new: "k \<notin> fst ` set al \<Longrightarrow> AList.update k v al = al @ [(k, v)]"
  by (induction al) auto

lemma init_queues_db:
  "db_typed (rs st) \<Longrightarrow> \<forall>k \<in> set vs. queue_key k \<Longrightarrow> distinct (map fst (queueSet st) @ vs) \<Longrightarrow>
   init_queues db_redis vs st = (Ok (), st\<lparr>queueSet := queueSet st @ map (\<lambda>k. (k, NewQueue k)) vs\<rparr>)"
proof (induction vs arbitrary: st)
  case (Cons v vs)
  let ?s = "st\<lparr>queueSet := queueSet st @ [(v, NewQueue v)]\<rparr>"
  have "AList.update v (NewQueue v) (queueSet st) = queueSet st @ [(v, NewQueue v)]"
    using Cons.prems(3) by (intro update_new) auto
  moreover have "init_queues db_redis vs ?s =
      (Ok (), ?s\<lparr>queueSet := queueSet ?s @ map (\<lambda>k. (k, NewQueue k)) vs\<rparr>)"
    using Cons.prems by (intro Cons.IH) auto
  ultimately show ?case
    using Cons.prems queue_init_db [of st v] by (simp add: gosimps)
qed (simp add: gosimps)

lemma NewRedisStore_run:
  assumes "redis_server rd view healthy" "healthy (rs st)" "db_typed (view (rs st))"
    and "finite (queue_names (view (rs st)))" "\<forall>k \<in> queue_names (view (rs st)). queue_key k"
  shows "fst (NewRedisStore rd st) = Ok ()"
    and "fst ` set (queueSet (snd (NewRedisStore rd st))) = queue_names (view (rs st))"
    and "view (rs (snd (NewRedisStore rd st))) = view (rs st)"
    and "store_ok (sview view (snd (NewRedisStore rd st)))"
proof -
  have "get_set ''queues'' (view (rs st)) = Ok (queue_names (view (rs st)))"
    using assms(3) by (auto simp: db_typed_def is_ok_iff queue_names_def)
  with redis_server.smembers_law [OF assms(1,2), of "''queues''"] assms(4)
  have law: "\<exists>xs. fst (smembers rd ''queues'' (rs st)) = Ok xs \<and> set xs = queue_names (view (rs st)) \<and> distinct xs"
    "view (snd (smembers rd ''queues'' (rs st))) = view (rs st)" "healthy (snd (smembers rd ''queues'' (rs st)))"
    by simp_all
  then obtain xs s1 where xs: "smembers rd ''queues'' (rs st) = (Ok xs, s1)"
    "set xs = queue_names (view (rs st))" "distinct xs" "view s1 = view (rs st)" "healthy s1"
    by (cases "smembers rd ''queues'' (rs st)") auto
  define st1 where "st1 = st\<lparr>queueSet := [], rs := s1\<rparr>"
  have st1: "healthy (rs st1)" "db_typed (rs (sview view st1))" "queueSet st1 = []" "view (rs st1) = view (rs st)"
    using xs assms(3) by (simp_all add: st1_def)
  have run: "NewRedisStore rd st = init_queues rd xs st1"
    using xs(1) by (simp add: NewRedisStore_def gosimps st1_def)
  have "init_queues db_redis xs (sview view st1) =
      (Ok (), (sview view st1)\<lparr>queueSet := map (\<lambda>k. (k, NewQueue k)) xs\<rparr>)"
    using init_queues_db [OF st1(2), of xs] xs assms(5) st1(3) by simp
  with simD [OF redis_server.init_queues_sim [OF assms(1)] st1(1), of xs]
  have *: "fst (NewRedisStore rd st) = Ok ()"
    "sview view (snd (NewRedisStore rd st)) =
       (sview view st1)\<lparr>queueSet := map (\<lambda>k. (k, NewQueue k)) xs\<rparr>"
    by (simp_all add: run)
  then show "fst (NewRedisStore rd st) = Ok ()" by simp
  have "queueSet (snd (NewRedisStore rd st)) = map (\<lambda>k. (k, NewQueue k)) xs"
    using arg_cong [OF *(2), of queueSet] by simp
  then show "fst ` set (queueSet (snd (NewRedisStore rd st))) = queue_names (view (rs st))"
    using xs(2) by (simp add: image_image)
  show "view (rs (snd (NewRedisStore rd st))) = view (rs st)"
    using arg_cong [OF *(2), of rs] st1(4) by simp
  show "store_ok (sview view (snd (NewRedisStore rd st)))"
    unfolding *(2) using st1 xs assms(3,5)
    by (auto simp: store_ok_def NewQueue_def comp_def image_image)
qed

text \<open>
  Opening the store on a Redis with data finds its queues again: the map of queues has exactly the
  names in the Redis set \<open>queues\<close>, the data is not touched, and the store invariant holds.
\<close>

theorem NewRedisStore_restores_queues:
  assumes "redis_server rd view healthy" "healthy (rs st)" "db_typed (view (rs st))"
    and "finite (queue_names (view (rs st)))" "\<forall>k \<in> queue_names (view (rs st)). queue_key k"
  shows "fst (NewRedisStore rd st) = Ok ()
    \<and> fst ` set (queueSet (snd (NewRedisStore rd st))) = queue_names (view (rs st))
    \<and> view (rs (snd (NewRedisStore rd st))) = view (rs st)
    \<and> store_ok (sview view (snd (NewRedisStore rd st)))"
  using NewRedisStore_run [OF assms] by simp

theorem NewRedisStore_restores_queues_witness:
  "fst (NewRedisStore db_redis (add_queue ''default'' empty_store)) = Ok ()
   \<and> fst ` set (queueSet (snd (NewRedisStore db_redis (add_queue ''default'' empty_store)))) = {''default''}"
proof -
  have n: "queue_names (rs (add_queue ''default'' empty_store)) = {''default''}"
    by (simp add: add_queue_def queue_names_def empty_store_def put_set_def get_set_def)
  have t: "db_typed (rs (add_queue ''default'' empty_store))"
    using store_ok_add_queue [OF empty_store_ok queue_key_default] by (simp add: store_ok_def)
  show ?thesis
    using NewRedisStore_restores_queues [OF dbr.redis_server_axioms, of "add_queue ''default'' empty_store"]
      n t queue_key_default by simp
qed

end
