(* ===== verification/WebActions.thy ===== *)
theory WebActions
  imports StoreProps
begin

text \<open>
  The actions an administrator applies to the entries of a sorted set on the web pages
  (\<open>actOn\<close> of \<open>webui/helpers.go\<close>).
\<close>

text \<open>
  What the buttons of the retries, scheduled and dead pages do with the keys the form names; the single
  key \<open>all\<close> stands for the whole set.
\<close>

fun delete_keys :: "'s redis \<Rightarrow> string \<Rightarrow> string list \<Rightarrow> (('s, 'm) store_scheme, unit) gofun" where
  "delete_keys rd sset [] = retS ()"
| "delete_keys rd sset (k # ks) = bindS (Remove rd sset k) (\<lambda>_. delete_keys rd sset ks)"

fun enqueue_keys :: "'s redis \<Rightarrow> string \<Rightarrow> string list \<Rightarrow> (('s, 'm) store_scheme, unit) gofun" where
  "enqueue_keys rd sset [] = retS ()"
| "enqueue_keys rd sset (k # ks) = bindS (EnqueueFrom rd sset k) (\<lambda>_. enqueue_keys rd sset ks)"

fun kill_keys :: "'s redis \<Rightarrow> string \<Rightarrow> time \<Rightarrow> string list \<Rightarrow> (('s, 'm) store_scheme, unit) gofun" where
  "kill_keys rd sset expiry [] = retS ()"
| "kill_keys rd sset expiry (k # ks) =
     bindS (Get rd sset k) (\<lambda>entry.
     bindS (case entry of None \<Rightarrow> retS () | Some e \<Rightarrow> MoveTo rd sset ''dead'' e expiry) (\<lambda>_.
     kill_keys rd sset expiry ks))"

definition actOn :: "nat \<Rightarrow> 's redis \<Rightarrow> string \<Rightarrow> string \<Rightarrow> string list \<Rightarrow> (('s, 'm) store_scheme, unit) gofun" where
  "actOn fuel rd sset action keys =
     (if action = ''delete'' then
        (if keys = [''all''] then Clear rd sset else delete_keys rd sset keys)
      else if action = ''add_to_queue'' \<or> action = ''retry'' then
        (if keys = [''all''] then EnqueueAll fuel rd sset else enqueue_keys rd sset keys)
      else if action = ''kill'' then
        (if keys = [''all''] then EnqueueAll fuel rd sset
         else bindS Now (\<lambda>now. kill_keys rd sset (now + 180 * 24 * 3600 * second) keys))
      else errS (GErr (''invalid action: '' @ action)))"



end
