(* ===== verification/Manager.thy ===== *)
theory Manager
  imports StoreFacts
begin

text \<open>
  The job manager (\<open>manager/\<close>): middleware, push, the working set, failure and retry, fetch and the
  scheduler.  The manager's memory extends the store's record.  Middleware chains are arguments: a
  middleware turns the rest of the chain into a computation over its context, which holds the job, the
  reservation and the manager's state.  Mutexes only serialise the accesses to the maps; every operation
  here is one thread of control.  A Go pointer to a job or a reservation that may be nil is an
  \<open>option\<close>, and following a nil pointer panics.
\<close>

section \<open>Middleware (middleware.go)\<close>

text \<open>\<open>Halt\<close>, \<open>Discard\<close> and \<open>ExpectedError\<close> make an error with a code.\<close>

definition ExpectedError :: "string \<Rightarrow> string \<Rightarrow> gerror" where
  "ExpectedError code msg = KnownErr code msg"

definition Halt :: "string \<Rightarrow> string \<Rightarrow> gerror" where
  "Halt code msg = ExpectedError code msg"

definition Discard :: "string \<Rightarrow> gerror" where
  "Discard msg = ExpectedError ''DISCARD'' msg"

type_synonym 'c middleware = "('c, unit) gofun \<Rightarrow> ('c, unit) gofun"

fun callMiddleware :: "'c middleware list \<Rightarrow> ('c, unit) gofun \<Rightarrow> ('c, unit) gofun" where
  "callMiddleware [] final = final"
| "callMiddleware (link # rest) final = link (callMiddleware rest final)"

record 'c chains =
  pushChain :: "'c middleware list"
  fetchChain :: "'c middleware list"
  failChain :: "'c middleware list"
  ackChain :: "'c middleware list"

definition no_chains :: "'c chains" where
  "no_chains = \<lparr>pushChain = [], fetchChain = [], failChain = [], ackChain = []\<rparr>"

definition AddMiddleware :: "string \<Rightarrow> 'c middleware \<Rightarrow> 'c chains \<Rightarrow> 'c chains gores" where
  "AddMiddleware fntype fn ch =
     (if fntype = ''push'' then Ok (ch\<lparr>pushChain := pushChain ch @ [fn]\<rparr>)
      else if fntype = ''ack'' then Ok (ch\<lparr>ackChain := ackChain ch @ [fn]\<rparr>)
      else if fntype = ''fail'' then Ok (ch\<lparr>failChain := failChain ch @ [fn]\<rparr>)
      else if fntype = ''fetch'' then Ok (ch\<lparr>fetchChain := fetchChain ch @ [fn]\<rparr>)
      else Panic (''Unknown middleware type: '' @ fntype))"

section \<open>State\<close>

record simpleLease =
  lease_payload :: "string option"
  lease_job :: "Job option"
  lease_released :: bool

record Reservation =
  res_Job :: "Job option"
  Since :: string
  Expiry :: string
  Wid :: string
  tsince :: time
  texpiry :: time
  extension :: time
  lease :: "simpleLease option"

text \<open>The zero value of \<open>time.Time\<close>, January 1 of year 1.\<close>

definition zero_time :: time where
  "zero_time = - 62135596800 * second"

definition zero_reservation :: Reservation where
  "zero_reservation = \<lparr>res_Job = None, Since = [], Expiry = [], Wid = [], tsince = zero_time,
     texpiry = zero_time, extension = zero_time, lease = None\<rparr>"

text \<open>
  The last field is the local variable \<open>total\<close> of \<open>ReapExpiredJobs\<close>, which a closure changes.
\<close>

record 's mgr = "'s store" +
  workingMap :: "(string \<times> Reservation) list"
  paused :: "string list"
  reap_total :: int

record 'st ctx =
  ctx_job :: Job
  ctx_res :: "Reservation option"
  world :: 'st

definition inW :: "('st, 'a) gofun \<Rightarrow> ('st ctx, 'a) gofun" where
  "inW m c = (case m (world c) of (r, w) \<Rightarrow> (r, c\<lparr>world := w\<rparr>))"

text \<open>Running a chain on a job: the outcome, the job as the chain left it, and the new state.\<close>

definition run_chain :: "'st ctx middleware list \<Rightarrow> Job \<Rightarrow> Reservation option \<Rightarrow> ('st ctx, unit) gofun \<Rightarrow>
    ('st, Job gores) gofun" where
  "run_chain chain job res final st =
     (case callMiddleware chain final \<lparr>ctx_job = job, ctx_res = res, world = st\<rparr> of
        (Ok u, c) \<Rightarrow> (Ok (Ok (ctx_job c)), world c)
      | (Err e, c) \<Rightarrow> (Ok (Err e), world c)
      | (Panic p, c) \<Rightarrow> (Panic p, world c))"

abbreviation through :: "'st ctx middleware list \<Rightarrow> Job \<Rightarrow> Reservation option \<Rightarrow> ('st ctx, unit) gofun \<Rightarrow>
    ('st, Job) gofun" where
  "through chain job res final \<equiv> bindS (run_chain chain job res final) liftR"

text \<open>The JSON form of a reservation; unexported fields are not written.\<close>

definition encode_reservation :: "Reservation \<Rightarrow> json" where
  "encode_reservation r = JObj
     [(''job'', case res_Job r of None \<Rightarrow> JNull | Some j \<Rightarrow> encode_job j),
      (''reserved_at'', JStr (Since r)), (''expires_at'', JStr (Expiry r)), (''wid'', JStr (Wid r))]"

definition marshal_reservation :: "Reservation \<Rightarrow> string" where
  "marshal_reservation r = show_json (encode_reservation r)"

definition reservation_fields :: "Reservation fields" where
  "reservation_fields =
     [(''job'', fld (dec_ptr ''client.Job'' job_fields zero_job) res_Job (\<lambda>a r. r\<lparr>res_Job := a\<rparr>)),
      (''reserved_at'', fld dec_str Since (\<lambda>a r. r\<lparr>Since := a\<rparr>)),
      (''expires_at'', fld dec_str Expiry (\<lambda>a r. r\<lparr>Expiry := a\<rparr>)),
      (''wid'', fld dec_str Wid (\<lambda>a r. r\<lparr>Wid := a\<rparr>))]"

definition unmarshal_reservation :: "string \<Rightarrow> Reservation gores" where
  "unmarshal_reservation s = unmarshal ''manager.Reservation'' reservation_fields s zero_reservation"

definition nil_pointer :: string where
  "nil_pointer = ''runtime error: invalid memory address or nil pointer dereference''"

definition deref :: "'a option \<Rightarrow> ('s, 'a) gofun" where
  "deref p = (case p of None \<Rightarrow> panicS nil_pointer | Some a \<Rightarrow> retS a)"

section \<open>Push (manager.go)\<close>

definition enqueue :: "'s redis \<Rightarrow> Job \<Rightarrow> (('s, 'm) store_scheme, Job) gofun" where
  "enqueue rd job =
     bindS (GetQueue rd (Queue job)) (\<lambda>q.
     bindS Nows (\<lambda>now.
     let job = job\<lparr>EnqueuedAt := now\<rparr> in
     bindS (queue_Push rd q (marshal_job job)) (\<lambda>_. retS job)))"

definition push_final :: "'s redis \<Rightarrow> time option \<Rightarrow> (('s, 'm) mgr_scheme ctx, unit) gofun" where
  "push_final rd t =
     bindS (getS ctx_job) (\<lambda>job.
     bindS (case t of
              None \<Rightarrow> retS False
            | Some at_time \<Rightarrow>
                if At job = [] then retS False
                else bindS (inW Now) (\<lambda>now. retS (now < at_time))) (\<lambda>later.
     if later then inW (AddElement rd ''scheduled'' (At job) (Jid job) (marshal_job job))
     else bindS (inW (enqueue rd job)) (\<lambda>job'. modS (\<lambda>c. c\<lparr>ctx_job := job'\<rparr>))))"

text \<open>
  Without \<open>at\<close> the time \<open>t\<close> of the code is the zero time; a middleware that sets \<open>At\<close> then finds
  it in the past, so \<open>None\<close> stands for it.
\<close>

definition mgr_Push :: "'s redis \<Rightarrow> ('s, 'm) mgr_scheme ctx chains \<Rightarrow> Job \<Rightarrow> (('s, 'm) mgr_scheme, Job) gofun" where
  "mgr_Push rd ch job =
     (if Jid job = [] \<or> length (Jid job) < 8
      then errS (GErr ''All jobs must have a reasonable jid parameter'')
      else if JobType job = [] then errS (GErr ''All jobs must have a jobtype parameter'')
      else if Args job = None then errS (GErr ''All jobs must have an args parameter'')
      else if 86400 < ReserveFor job then errS (GErr ''Jobs cannot be reserved for more than one day'')
      else
        bindS (if CreatedAt job = [] then bindS Nows (\<lambda>now. retS (job\<lparr>CreatedAt := now\<rparr>))
               else retS job) (\<lambda>job.
        let job = (if Queue job = [] then job\<lparr>Queue := ''default''\<rparr> else job) in
        bindS (if At job = [] then retS None
               else (case ParseTime (At job) of
                       Ok t \<Rightarrow> retS (Some t)
                     | _ \<Rightarrow> errS (GErr (''Invalid timestamp for '' @ [CHR 0x27] @ ''at'' @ [CHR 0x27] @ '': ''
                                    @ [CHR 0x27] @ At job @ [CHR 0x27])))) (\<lambda>t.
        through (pushChain ch) job None (push_final rd t))))"

section \<open>The working set (working.go)\<close>

definition ExtendReservation :: "string \<Rightarrow> time \<Rightarrow> (('s, 'm) mgr_scheme, unit) gofun" where
  "ExtendReservation jid until =
     modS (\<lambda>st. case map_of (workingMap st) jid of
        None \<Rightarrow> st
      | Some r \<Rightarrow>
          if texpiry r < until
          then st\<lparr>workingMap := AList.update jid (r\<lparr>extension := until\<rparr>) (workingMap st)\<rparr> else st)"

definition WorkingCount :: "(('s, 'm) mgr_scheme, nat) gofun" where
  "WorkingCount = getS (\<lambda>st. length (workingMap st))"

definition BusyCount :: "string \<Rightarrow> (('s, 'm) mgr_scheme, nat) gofun" where
  "BusyCount wid = getS (\<lambda>st. length (filter (\<lambda>(j, r). Wid r = wid) (workingMap st)))"

definition loadWorkingSet :: "nat \<Rightarrow> 's redis \<Rightarrow> (('s, 'm) mgr_scheme, unit) gofun" where
  "loadWorkingSet fuel rd =
     Each fuel rd ''working'' (\<lambda>_ entry.
       case unmarshal_reservation (entry_value entry) of
         Ok res \<Rightarrow>
           bindS (deref (res_Job res)) (\<lambda>j.
             modS (\<lambda>st. st\<lparr>workingMap := AList.update (Jid j) res (workingMap st)\<rparr>))
       | Err e \<Rightarrow> retS ()
       | Panic p \<Rightarrow> panicS p)"

definition DefaultTimeout :: int where
  "DefaultTimeout = 30 * 60"

definition reserve_timeout :: "Job \<Rightarrow> int" where
  "reserve_timeout job =
     (let timeout = ReserveFor job;
          timeout = (if timeout = 0 then DefaultTimeout else timeout);
          timeout = (if timeout < 60 then 60 else timeout)
      in if 86400 < timeout then 86400 else timeout)"

definition new_reservation :: "string \<Rightarrow> simpleLease \<Rightarrow> Job \<Rightarrow> time \<Rightarrow> Reservation" where
  "new_reservation wid l job now =
     (let ex = now + reserve_timeout job * second in
      zero_reservation\<lparr>lease := Some l, res_Job := Some job, Since := Thens now, Expiry := Thens ex,
        Wid := wid, tsince := now, texpiry := ex\<rparr>)"

definition reserve :: "'s redis \<Rightarrow> string \<Rightarrow> simpleLease \<Rightarrow> Job \<Rightarrow> (('s, 'm) mgr_scheme, unit) gofun" where
  "reserve rd wid l job =
     bindS Now (\<lambda>now.
     let res = new_reservation wid l job now in
     bindS (AddElement rd ''working'' (Expiry res) (Jid job) (marshal_reservation res)) (\<lambda>_.
     modS (\<lambda>st. st\<lparr>workingMap := AList.update (Jid job) res (workingMap st)\<rparr>)))"

text \<open>\<open>clearReservation\<close> of retry.go.\<close>

definition clearReservation :: "string \<Rightarrow> (('s, 'm) mgr_scheme, Reservation option) gofun" where
  "clearReservation jid =
     bindS (getS (\<lambda>st. map_of (workingMap st) jid)) (\<lambda>r.
       case r of
         None \<Rightarrow> retS None
       | Some res \<Rightarrow>
           bindS (modS (\<lambda>st. st\<lparr>workingMap := AList.delete jid (workingMap st)\<rparr>)) (\<lambda>_. retS (Some res)))"

definition lease_Release :: "simpleLease \<Rightarrow> simpleLease" where
  "lease_Release l = l\<lparr>lease_released := True\<rparr>"

definition release :: "Reservation \<Rightarrow> Reservation" where
  "release res = res\<lparr>lease := map_option lease_Release (lease res)\<rparr>"

definition Acknowledge :: "'s redis \<Rightarrow> ('s, 'm) mgr_scheme ctx chains \<Rightarrow> string \<Rightarrow>
    (('s, 'm) mgr_scheme, Job option) gofun" where
  "Acknowledge rd ch jid =
     bindS (clearReservation jid) (\<lambda>r.
       case r of
         None \<Rightarrow> retS None
       | Some res \<Rightarrow>
           bindS (RemoveElement rd ''working'' (Expiry res) jid) (\<lambda>_.
           let res = release res in
           case res_Job res of
             None \<Rightarrow> retS None
           | Some job \<Rightarrow>
               bindS (store_Success rd) (\<lambda>_.
               bindS (through (ackChain ch) job (Some res) (retS ())) (\<lambda>job'. retS (Some job')))))"

section \<open>Failure and retry (retry.go)\<close>

record FailPayload =
  fail_Jid :: string
  fail_message :: string
  fail_type :: string
  fail_backtrace :: "string list option"

definition JobReservationExpired :: FailPayload where
  "JobReservationExpired = \<lparr>fail_Jid = [], fail_message = ''Faktory job reservation expired'',
     fail_type = ''ReservationExpired'', fail_backtrace = None\<rparr>"

definition cleanse :: "FailPayload \<Rightarrow> FailPayload" where
  "cleanse f =
     (let ty = trim_space (fail_type f); msg = trim_space (fail_message f);
          bt = (case fail_backtrace f of None \<Rightarrow> [] | Some b \<Rightarrow> b)
      in f\<lparr>fail_type := if ty \<noteq> [] then take 100 ty else ''unknown'',
           fail_message := if msg \<noteq> [] then take 1000 msg else ''unknown'',
           fail_backtrace := Some (take 50 bt)\<rparr>)"

text \<open>Both operations wrap around: the \<open>int\<close> seconds and the \<open>time.Duration\<close> in nanoseconds.\<close>

definition retry_delay :: "int \<Rightarrow> nat \<Rightarrow> int" where
  "retry_delay count r =
     (let secs = i64 (count * count * count * count + 15 + int r * (count + 1))
      in i64 (secs * second))"

definition nextRetry :: "int \<Rightarrow> (('s, 'm) store_scheme, time) gofun" where
  "nextRetry count = bindS (Intn 30) (\<lambda>r. bindS Now (\<lambda>now. retS (now + retry_delay count r)))"

definition retryLater :: "'s redis \<Rightarrow> Job \<Rightarrow> Failure \<Rightarrow> (('s, 'm) store_scheme, Job) gofun" where
  "retryLater rd job f =
     bindS (nextRetry (RetryCount f)) (\<lambda>t.
     let job = job\<lparr>JobFailure := Some (f\<lparr>NextAt := Thens t\<rparr>)\<rparr> in
     bindS (AddElement rd ''retries'' (Thens t) (Jid job) (marshal_job job)) (\<lambda>_. retS job))"

definition DeadTTL :: int where
  "DeadTTL = 180 * 24 * 3600 * second"

definition sendToMorgue :: "'s redis \<Rightarrow> Job \<Rightarrow> (('s, 'm) store_scheme, unit) gofun" where
  "sendToMorgue rd job =
     bindS Now (\<lambda>now. AddElement rd ''dead'' (Thens (now + DeadTTL)) (Jid job) (marshal_job job))"

text \<open>The failure recorded in the job.\<close>

definition record_failure :: "FailPayload \<Rightarrow> Job \<Rightarrow> (('s, 'm) store_scheme, Job) gofun" where
  "record_failure p job =
     (case JobFailure job of
        Some f \<Rightarrow> retS (job\<lparr>JobFailure := Some (f\<lparr>RetryCount := i64 (RetryCount f + 1),
            ErrorMessage := fail_message p, ErrorType := fail_type p, FailBacktrace := fail_backtrace p\<rparr>)\<rparr>)
      | None \<Rightarrow> bindS Nows (\<lambda>now. retS (job\<lparr>JobFailure := Some \<lparr>RetryCount = 0, FailedAt = now, NextAt = [],
            ErrorMessage = fail_message p, ErrorType = fail_type p, FailBacktrace = fail_backtrace p\<rparr>\<rparr>)))"

definition fail_final :: "'s redis \<Rightarrow> (('s, 'm) mgr_scheme ctx, unit) gofun" where
  "fail_final rd =
     bindS (getS ctx_job) (\<lambda>job.
       if Retry job = 0 then retS ()
       else bindS (deref (JobFailure job)) (\<lambda>f.
         if RetryCount f < Retry job
         then bindS (inW (retryLater rd job f)) (\<lambda>job'. modS (\<lambda>c. c\<lparr>ctx_job := job'\<rparr>))
         else inW (sendToMorgue rd job)))"

text \<open>\<open>expired\<close> says that the failure is the object \<open>JobReservationExpired\<close>.\<close>

definition processFailure :: "'s redis \<Rightarrow> ('s, 'm) mgr_scheme ctx chains \<Rightarrow> bool \<Rightarrow> string \<Rightarrow> FailPayload \<Rightarrow>
    (('s, 'm) mgr_scheme, unit) gofun" where
  "processFailure rd ch expired jid failure =
     bindS (clearReservation jid) (\<lambda>r.
       case r of
         None \<Rightarrow> errS (GErr (''Job not found '' @ jid))
       | Some res \<Rightarrow>
           let res = release res in
           bindS (if expired then retS True else RemoveElement rd ''working'' (Expiry res) jid) (\<lambda>ok.
           if \<not> ok then retS ()
           else
             bindS (store_Failure rd) (\<lambda>_.
             bindS (deref (res_Job res)) (\<lambda>job.
             bindS (record_failure failure job) (\<lambda>job.
             void (through (failChain ch) job (Some res) (fail_final rd)))))))"

definition mgr_Fail :: "'s redis \<Rightarrow> ('s, 'm) mgr_scheme ctx chains \<Rightarrow> FailPayload option \<Rightarrow>
    (('s, 'm) mgr_scheme, unit) gofun" where
  "mgr_Fail rd ch failure =
     (case failure of
        None \<Rightarrow> errS (GErr ''No failure'')
      | Some f \<Rightarrow>
          if fail_Jid f = [] then errS (GErr ''Missing JID'')
          else processFailure rd ch False (fail_Jid f) (cleanse f))"

section \<open>Reaping (working.go)\<close>

definition expire :: "'s redis \<Rightarrow> ('s, 'm) mgr_scheme ctx chains \<Rightarrow> string \<Rightarrow> (('s, 'm) mgr_scheme, unit) gofun" where
  "expire rd ch jid =
     bindS (wrap_err (\<lambda>e. GErr (''Unable to retry reservation: '' @ err_text e))
              (processFailure rd ch True jid JobReservationExpired)) (\<lambda>_.
     modS (\<lambda>st. st\<lparr>reap_total := reap_total st + 1\<rparr>))"

definition reap_entry :: "'s redis \<Rightarrow> ('s, 'm) mgr_scheme ctx chains \<Rightarrow> time \<Rightarrow> string \<Rightarrow>
    (('s, 'm) mgr_scheme, unit) gofun" where
  "reap_entry rd ch when data =
     bindS (wrap_err (\<lambda>e. GErr (''Unable to read reservation: '' @ err_text e))
              (liftR (unmarshal_reservation data))) (\<lambda>res.
     bindS (deref (res_Job res)) (\<lambda>job.
     bindS (getS (\<lambda>st. map_of (workingMap st) (Jid job))) (\<lambda>local.
       case local of
         None \<Rightarrow> expire rd ch (Jid job)
       | Some localres \<Rightarrow>
           if when < extension localres then
             let localres = localres\<lparr>texpiry := extension localres, Expiry := Thens (extension localres)\<rparr> in
             bindS (modS (\<lambda>st. st\<lparr>workingMap := AList.update (Jid job) localres (workingMap st)\<rparr>)) (\<lambda>_.
             wrap_err (\<lambda>e. GErr (''Unable to extend reservation for '' @ Jid job @ '': '' @ err_text e))
               (AddElement rd ''working'' (Expiry localres) (Jid job) data))
           else expire rd ch (Jid job))))"

text \<open>The fuel is the number of batches.\<close>

fun reap_loop :: "nat \<Rightarrow> 's redis \<Rightarrow> ('s, 'm) mgr_scheme ctx chains \<Rightarrow> time \<Rightarrow> (('s, 'm) mgr_scheme, int) gofun" where
  "reap_loop 0 rd ch when = panicS fuel_out"
| "reap_loop (Suc f) rd ch when =
     bindS (RemoveBefore rd ''working'' (Thens when) 10 (reap_entry rd ch when)) (\<lambda>count.
       if count < 10 then getS reap_total else reap_loop f rd ch when)"

definition ReapExpiredJobs :: "nat \<Rightarrow> 's redis \<Rightarrow> ('s, 'm) mgr_scheme ctx chains \<Rightarrow> time \<Rightarrow>
    (('s, 'm) mgr_scheme, int) gofun" where
  "ReapExpiredJobs fuel rd ch when =
     bindS (modS (\<lambda>st. st\<lparr>reap_total := 0\<rparr>)) (\<lambda>_. reap_loop fuel rd ch when)"

section \<open>Fetch (fetch.go)\<close>

fun contains_str :: "string \<Rightarrow> string list \<Rightarrow> bool" where
  "contains_str a [] = False"
| "contains_str a (x # xs) = (if a = x then True else contains_str a xs)"

text \<open>The loop of \<open>filter\<close>: the kept queues are written to the front of \<open>qs\<close>.\<close>

fun filter_loop :: "string list \<Rightarrow> string list \<Rightarrow> string list \<Rightarrow> nat \<Rightarrow> string list" where
  "filter_loop pd [] qs count = take count qs"
| "filter_loop pd (x # xs) qs count =
     (if \<not> contains_str x pd then filter_loop pd xs (qs[count := x]) (count + 1)
      else filter_loop pd xs qs count)"

definition filter_queues :: "string list \<Rightarrow> string list \<Rightarrow> string list" where
  "filter_queues pd queues =
     (if pd = [] then queues else filter_loop pd queues (replicate (length queues) []) 0)"

definition mgr_Pause :: "'s redis \<Rightarrow> string \<Rightarrow> (('s, 'm) mgr_scheme, unit) gofun" where
  "mgr_Pause rd qName =
     bindS (GetQueue rd qName) (\<lambda>q.
     bindS (queue_Pause rd q) (\<lambda>_.
     modS (\<lambda>st. st\<lparr>paused := filter_queues [qName] (paused st) @ [qName]\<rparr>)))"

definition mgr_Resume :: "'s redis \<Rightarrow> string \<Rightarrow> (('s, 'm) mgr_scheme, unit) gofun" where
  "mgr_Resume rd qName =
     bindS (GetQueue rd qName) (\<lambda>q.
     bindS (queue_Resume rd q) (\<lambda>_.
     modS (\<lambda>st. st\<lparr>paused := filter_queues [qName] (paused st)\<rparr>)))"

text \<open>\<open>Nothing\<close> is \<open>None\<close>.\<close>

definition BasicFetch :: "'s redis \<Rightarrow> string list \<Rightarrow> (('s, 'm) store_scheme, simpleLease option) gofun" where
  "BasicFetch rd queues =
     bindS (call (brpop rd queues)) (\<lambda>val.
       retS (map_option (\<lambda>(k, v). \<lparr>lease_payload = Some v, lease_job = None, lease_released = False\<rparr>) val))"

text \<open>The job of a lease, decoded at the first call and kept.\<close>

definition lease_Job :: "simpleLease \<Rightarrow> (Job option \<times> simpleLease) gores" where
  "lease_Job l =
     (case lease_job l of
        Some j \<Rightarrow> Ok (Some j, l)
      | None \<Rightarrow>
          (case lease_payload l of
             None \<Rightarrow> Ok (None, l)
           | Some p \<Rightarrow>
               (case unmarshal_job p of
                  Ok j \<Rightarrow> Ok (Some j, l\<lparr>lease_job := Some j\<rparr>)
                | Err e \<Rightarrow> Err e
                | Panic x \<Rightarrow> Panic x)))"

text \<open>\<open>goto restart\<close> uses one unit of fuel; the job is the one the chain leaves behind.\<close>

fun Fetch :: "nat \<Rightarrow> 's redis \<Rightarrow> ('s, 'm) mgr_scheme ctx chains \<Rightarrow> string \<Rightarrow> string list \<Rightarrow>
    (('s, 'm) mgr_scheme, Job option) gofun" where
  "Fetch 0 rd ch wid queues = panicS fuel_out"
| "Fetch (Suc f) rd ch wid queues =
     (if queues = [] then errS (GErr ''You must call fetch with at least one queue!'')
      else
        bindS (getS (\<lambda>st. filter_queues (paused st) queues)) (\<lambda>activeQueues.
        if activeQueues = [] then retS None
        else
          bindS (BasicFetch rd activeQueues) (\<lambda>l.
          case l of
            None \<Rightarrow> retS None
          | Some l \<Rightarrow>
              bindS (liftR (lease_Job l)) (\<lambda>(j, l).
              bindS (deref j) (\<lambda>job.
              bindS (run_chain (fetchChain ch) job None
                       (bindS (getS ctx_job) (\<lambda>job. inW (reserve rd wid (l\<lparr>lease_job := Some job\<rparr>) job)))) (\<lambda>r.
              case r of
                Ok job' \<Rightarrow> retS (Some job')
              | Err (KnownErr code msg) \<Rightarrow>
                  if code = ''DISCARD'' then Fetch f rd ch wid queues else errS (KnownErr code msg)
              | Err (GErr msg) \<Rightarrow> errS (GErr msg)
              | Panic p \<Rightarrow> panicS p))))))"

section \<open>Scheduler (scheduler.go)\<close>

definition Purge :: "'s redis \<Rightarrow> time \<Rightarrow> (('s, 'm) store_scheme, int) gofun" where
  "Purge rd when = RemoveBefore rd ''dead'' (Thens when) 100 (\<lambda>_. retS ())"

definition schedule_entry :: "'s redis \<Rightarrow> string \<Rightarrow> (('s, 'm) store_scheme, unit) gofun" where
  "schedule_entry rd data =
     bindS (liftR (unmarshal_job data)) (\<lambda>job.
       wrap_err (\<lambda>e. GErr (''Error pushing job to '' @ [CHR 0x27] @ Queue job @ [CHR 0x27] @ '': '' @ err_text e))
         (void (enqueue rd job)))"

fun schedule :: "nat \<Rightarrow> 's redis \<Rightarrow> time \<Rightarrow> string \<Rightarrow> int \<Rightarrow> (('s, 'm) store_scheme, int) gofun" where
  "schedule 0 rd when set_name tot = panicS fuel_out"
| "schedule (Suc f) rd when set_name tot =
     bindS (RemoveBefore rd set_name (Thens when) 100 (schedule_entry rd)) (\<lambda>count.
       if count \<noteq> 100 then retS (tot + count) else schedule f rd when set_name (tot + count))"

definition EnqueueScheduledJobs :: "nat \<Rightarrow> 's redis \<Rightarrow> time \<Rightarrow> (('s, 'm) store_scheme, int) gofun" where
  "EnqueueScheduledJobs fuel rd when = schedule fuel rd when ''scheduled'' 0"

definition RetryJobs :: "nat \<Rightarrow> 's redis \<Rightarrow> time \<Rightarrow> (('s, 'm) store_scheme, int) gofun" where
  "RetryJobs fuel rd when = schedule fuel rd when ''retries'' 0"

section \<open>A new manager\<close>

definition newManager :: "nat \<Rightarrow> 's redis \<Rightarrow> (('s, 'm) mgr_scheme, unit) gofun" where
  "newManager fuel rd =
     bindS (modS (\<lambda>st. st\<lparr>workingMap := []\<rparr>)) (\<lambda>_.
     bindS (ignore (loadWorkingSet fuel rd)) (\<lambda>_.
     bindS (val_or [] (PausedQueues rd)) (\<lambda>p.
     modS (\<lambda>st. st\<lparr>paused := p\<rparr>))))"

section \<open>The operations depend on the contract of Redis only\<close>

lemma sview_mgr [simp]:
  "workingMap (sview v st) = workingMap st" "paused (sview v st) = paused st"
  "reap_total (sview v st) = reap_total st"
  "sview v (st\<lparr>workingMap := w\<rparr>) = (sview v st)\<lparr>workingMap := w\<rparr>"
  "sview v (st\<lparr>paused := q\<rparr>) = (sview v st)\<lparr>paused := q\<rparr>"
  "sview v (st\<lparr>reap_total := n\<rparr>) = (sview v st)\<lparr>reap_total := n\<rparr>"
  by (cases st; simp add: sview_def)+

definition cview :: "('s \<Rightarrow> 't) \<Rightarrow> 's ctx \<Rightarrow> 't ctx" where
  "cview v c = \<lparr>ctx_job = ctx_job c, ctx_res = ctx_res c, world = v (world c)\<rparr>"

lemma cview_simps [simp]:
  "ctx_job (cview v c) = ctx_job c" "ctx_res (cview v c) = ctx_res c" "world (cview v c) = v (world c)"
  "cview v (c\<lparr>ctx_job := j\<rparr>) = (cview v c)\<lparr>ctx_job := j\<rparr>"
  "cview v (c\<lparr>world := w\<rparr>) = (cview v c)\<lparr>world := v w\<rparr>"
  by (simp_all add: cview_def)

abbreviation simC :: "('s \<Rightarrow> 't) \<Rightarrow> ('s \<Rightarrow> bool) \<Rightarrow> ('s ctx, 'a) gofun \<Rightarrow> ('t ctx, 'a) gofun \<Rightarrow> bool" where
  "simC v h \<equiv> sim (cview v) (\<lambda>c. h (world c))"

lemma sim_inW [sims]:
  assumes "sim v h c d"
  shows "simC v h (inW c) (inW d)"
proof (rule simI, goal_cases)
  case (1 s)
  with assms obtain r s' where "c (world s) = (r, s')" "d (v (world s)) = (r, v s')" "h s'"
    by (blast elim: sim_cases)
  then show ?case by (simp add: inW_def)
qed

text \<open>Middlewares, one over the server and one over its keyspace, that do the same.\<close>

definition mw_sim :: "('s \<Rightarrow> 't) \<Rightarrow> ('s \<Rightarrow> bool) \<Rightarrow> 's ctx middleware \<Rightarrow> 't ctx middleware \<Rightarrow> bool" where
  "mw_sim v h l l' \<longleftrightarrow> (\<forall>n n'. simC v h n n' \<longrightarrow> simC v h (l n) (l' n'))"

definition chains_sim :: "('s \<Rightarrow> 't) \<Rightarrow> ('s \<Rightarrow> bool) \<Rightarrow> 's ctx chains \<Rightarrow> 't ctx chains \<Rightarrow> bool" where
  "chains_sim v h ch ch' \<longleftrightarrow>
     list_all2 (mw_sim v h) (pushChain ch) (pushChain ch') \<and> list_all2 (mw_sim v h) (fetchChain ch) (fetchChain ch')
     \<and> list_all2 (mw_sim v h) (failChain ch) (failChain ch') \<and> list_all2 (mw_sim v h) (ackChain ch) (ackChain ch')"

lemma chains_sim_none [simp]: "chains_sim v h no_chains no_chains"
  by (simp add: chains_sim_def no_chains_def)

lemma sim_callMiddleware:
  "list_all2 (mw_sim v h) c c' \<Longrightarrow> simC v h f f' \<Longrightarrow> simC v h (callMiddleware c f) (callMiddleware c' f')"
  by (induction c c' rule: list_all2_induct) (auto simp: mw_sim_def)

lemma sim_run_chain:
  assumes "list_all2 (mw_sim v h) c c'" "simC v h f f'"
  shows "sim v h (run_chain c job res f) (run_chain c' job res f')"
proof (rule simI, goal_cases)
  case (1 s)
  let ?x = "\<lparr>ctx_job = job, ctx_res = res, world = s\<rparr>"
  have x: "cview v ?x = \<lparr>ctx_job = job, ctx_res = res, world = v s\<rparr>" by (simp add: cview_def)
  from 1 have "h (world ?x)" by simp
  with sim_callMiddleware [OF assms] obtain r y where "callMiddleware c f ?x = (r, y)"
    "callMiddleware c' f' (cview v ?x) = (r, cview v y)" "h (world y)"
    by (blast elim: sim_cases)
  then show ?case
    by (cases r) (simp_all add: run_chain_def x)
qed

lemma sim_deref [sims]: "sim v h (deref p) (deref p)"
  unfolding deref_def by (intro sims)

lemma sim_gerror [sims]:
  "(\<And>a. sim v h (f a) (g a)) \<Longrightarrow> (\<And>a b. sim v h (f' a b) (g' a b)) \<Longrightarrow>
   sim v h (case x of GErr a \<Rightarrow> f a | KnownErr a b \<Rightarrow> f' a b) (case x of GErr a \<Rightarrow> g a | KnownErr a b \<Rightarrow> g' a b)"
  by (cases x) auto

context redis_server
begin

lemma enqueue_sim: "simS (enqueue rd j) (enqueue db_redis j)"
  unfolding enqueue_def by (intro sims store_sims)

lemma push_final_sim: "simC (sview view) (shealthy healthy) (push_final rd t) (push_final db_redis t)"
  unfolding push_final_def by (intro sims store_sims enqueue_sim; simp)

lemma mgr_Push_sim:
  assumes "chains_sim (sview view) (shealthy healthy) ch ch'"
  shows "simS (mgr_Push rd ch j) (mgr_Push db_redis ch' j)"
  unfolding mgr_Push_def
  by (intro sims sim_run_chain push_final_sim assms [unfolded chains_sim_def, THEN conjunct1])

lemma reserve_sim: "simS (reserve rd w l j) (reserve db_redis w l j)"
  unfolding reserve_def by (intro sims store_sims; simp)

lemma clearReservation_sim: "simS (clearReservation j) (clearReservation j)"
  unfolding clearReservation_def by (intro sims; simp)

lemma Acknowledge_sim:
  assumes "chains_sim (sview view) (shealthy healthy) ch ch'"
  shows "simS (Acknowledge rd ch j) (Acknowledge db_redis ch' j)"
  unfolding Acknowledge_def
  by (intro sims store_sims clearReservation_sim sim_run_chain)
     (use assms in \<open>simp add: chains_sim_def\<close>)

lemma retry_sims:
  "simS (retryLater rd j f) (retryLater db_redis j f)"
  "simS (sendToMorgue rd j) (sendToMorgue db_redis j)"
  "simS (record_failure p j) (record_failure p j)"
  unfolding retryLater_def nextRetry_def sendToMorgue_def record_failure_def by (intro sims store_sims)+

lemma fail_final_sim: "simC (sview view) (shealthy healthy) (fail_final rd) (fail_final db_redis)"
  unfolding fail_final_def by (intro sims retry_sims; simp)

lemma processFailure_sim:
  assumes "chains_sim (sview view) (shealthy healthy) ch ch'"
  shows "simS (processFailure rd ch e j f) (processFailure db_redis ch' e j f)"
  unfolding processFailure_def
  by (intro sims store_sims clearReservation_sim retry_sims sim_run_chain fail_final_sim)
     (use assms in \<open>simp add: chains_sim_def\<close>)

lemma mgr_Fail_sim:
  assumes "chains_sim (sview view) (shealthy healthy) ch ch'"
  shows "simS (mgr_Fail rd ch f) (mgr_Fail db_redis ch' f)"
  unfolding mgr_Fail_def by (intro sims processFailure_sim assms)

lemma reap_entry_sim:
  assumes "chains_sim (sview view) (shealthy healthy) ch ch'"
  shows "simS (reap_entry rd ch t d) (reap_entry db_redis ch' t d)"
  unfolding reap_entry_def expire_def by (intro sims store_sims processFailure_sim assms; simp)

lemma ReapExpiredJobs_sim:
  assumes "chains_sim (sview view) (shealthy healthy) ch ch'"
  shows "simS (ReapExpiredJobs f rd ch t) (ReapExpiredJobs f db_redis ch' t)"
proof -
  have "simS (reap_loop f rd ch t) (reap_loop f db_redis ch' t)"
  proof (induction f)
    case (Suc f)
    then show ?case
      unfolding reap_loop.simps by (intro sims store_sims reap_entry_sim assms; simp)
  qed (simp add: sims)
  then show ?thesis
    unfolding ReapExpiredJobs_def by (intro sims; simp)
qed

lemma pause_sims:
  "simS (mgr_Pause rd q) (mgr_Pause db_redis q)"
  "simS (mgr_Resume rd q) (mgr_Resume db_redis q)"
  unfolding mgr_Pause_def mgr_Resume_def by ((intro sims store_sims; simp)+)

lemma Fetch_sim:
  assumes "chains_sim (sview view) (shealthy healthy) ch ch'"
  shows "simS (Fetch f rd ch w qs) (Fetch f db_redis ch' w qs)"
proof (induction f)
  case (Suc f)
  have "list_all2 (mw_sim (sview view) (shealthy healthy)) (fetchChain ch) (fetchChain ch')"
    using assms by (simp add: chains_sim_def)
  then show ?case
    unfolding Fetch.simps BasicFetch_def
    by (intro sims laws reserve_sim sim_run_chain Suc.IH; simp)
qed (simp add: sims)

lemma schedule_sim: "simS (schedule f rd t n c) (schedule f db_redis t n c)"
proof (induction f arbitrary: c)
  case (Suc f)
  then show ?case
    unfolding schedule.simps schedule_entry_def by (intro sims store_sims enqueue_sim)
qed (simp add: sims)

lemma scheduler_sims:
  "simS (EnqueueScheduledJobs f rd t) (EnqueueScheduledJobs f db_redis t)"
  "simS (RetryJobs f rd t) (RetryJobs f db_redis t)"
  "simS (Purge rd t) (Purge db_redis t)"
  unfolding EnqueueScheduledJobs_def RetryJobs_def Purge_def
  by (intro schedule_sim sims store_sims)+

end

end
