(* ===== verification/ManagerFacts.thy ===== *)
theory ManagerFacts
  imports Manager StoreProps
begin

text \<open>
  What the manager's operations do, on keyspaces and, through the simulation, on every Redis that keeps
  the contract: the scheduler, push and the choice of the queue by fetch.
\<close>

section \<open>Enqueueing and the scheduler\<close>

lemma enqueue_ok:
  assumes "store_ok st" "queue_key (Queue j)"
  shows "enqueue db_redis j st = (Ok (j\<lparr>EnqueuedAt := Thens (clock st (tick st))\<rparr>), enqueued j st)"
proof -
  obtain q where q: "qname q = Queue j" "GetQueue db_redis (Queue j) st = (Ok q, add_queue (Queue j) st)"
    using GetQueue_ok [OF assms] by blast
  then show ?thesis
    using queue_Push_ok [of "(add_queue (Queue j) st)\<lparr>tick := tick st + 1\<rparr>" q] assms
    by (simp add: enqueue_def gosimps enqueued_def Let_def)
qed

text \<open>The payloads that are jobs of a queue the storage can keep.\<close>

definition queueable :: "string set" where
  "queueable = {p. \<exists>j. unmarshal_job p = Ok j \<and> queue_key (Queue j)}"

abbreviation enqueue_payload :: "string \<Rightarrow> (db, 'm) store_scheme \<Rightarrow> (db, 'm) store_scheme" where
  "enqueue_payload p \<equiv> enqueued (job_of p)"

lemma schedule_entry_drains:
  assumes "n \<in> set sset_names"
  shows "drains n (schedule_entry db_redis) enqueue_payload queueable"
  unfolding drains_def
proof (intro ballI allI impI)
  fix p and st :: "(db, 'm) store_scheme"
  assume "p \<in> queueable" and st: "store_ok st"
  then obtain j where j: "unmarshal_job p = Ok j" "queue_key (Queue j)"
    by (auto simp: queueable_def)
  then have "job_of p = j" by (simp add: job_of_def)
  with j enqueue_ok [OF st j(2)] st assms
  show "schedule_entry db_redis p st = (Ok (), enqueue_payload p st) \<and> store_ok (enqueue_payload p st)
      \<and> zset_of n (enqueue_payload p st) = zset_of n st
      \<and> (\<forall>z. enqueue_payload p (put_sorted n z st) = put_sorted n z (enqueue_payload p st))"
    by (simp add: schedule_entry_def gosimps enqueued_commute)
qed

lemma takeWhile_drop:
  "k \<le> length (takeWhile P z) \<Longrightarrow> takeWhile P (drop k z) = drop k (takeWhile P z)"
proof (induction k arbitrary: z)
  case (Suc k)
  then show ?case by (cases z) (auto split: if_splits)
qed simp

lemma schedule_db:
  assumes "n \<in> set sset_names" "time_ok t"
  shows "store_ok st \<Longrightarrow> due = map fst (takeWhile (\<lambda>(m, x). x \<le> time_f t) (zset_of n st)) \<Longrightarrow>
    set due \<subseteq> queueable \<Longrightarrow> length due < 100 * fuel \<Longrightarrow>
    schedule fuel db_redis t n tot st =
      (Ok (tot + int (length due)),
       put_sorted n (drop (length due) (zset_of n st)) (fold enqueue_payload due st))"
proof (induction fuel arbitrary: st due tot)
  case (Suc f)
  let ?z = "zset_of n st" and ?P = "\<lambda>(m, x). x \<le> time_f t"
  note D = schedule_entry_drains [OF assms(1)]
  define d1 where "d1 = take 100 due"
  have sub: "set d1 \<subseteq> queueable" using Suc.prems(3) by (auto simp: d1_def dest: in_set_takeD)
  note RB = RemoveBefore_drains [OF D assms(1) Suc.prems(1) assms(2), of 100 d1]
  have run: "RemoveBefore db_redis n (Thens t) 100 (schedule_entry db_redis) st =
      (Ok (int (length d1)), put_sorted n (drop (length d1) ?z) (fold enqueue_payload d1 st))"
    and st1: "store_ok (fold enqueue_payload d1 st)" "zset_of n (fold enqueue_payload d1 st) = ?z"
    using RB sub Suc.prems(2) by (simp_all add: d1_def)
  show ?case
  proof (cases "length due < 100")
    case True
    then have "d1 = due" by (simp add: d1_def)
    with run True show ?thesis by (simp add: gosimps)
  next
    case False
    then have l1: "length d1 = 100" by (simp add: d1_def)
    let ?s = "put_sorted n (drop 100 ?z) (fold enqueue_payload d1 st)"
    have ok: "store_ok ?s"
    proof (rule store_ok_put_sorted [OF st1(1) assms(1)])
      show "zset_ok (drop 100 ?z)"
        using zset_of_ok [OF Suc.prems(1), of n]
        by (simp add: zset_ok_def sorted_wrt_drop drop_map [symmetric])
    qed
    have "length (takeWhile ?P ?z) = length due" using Suc.prems(2) by simp
    then have due2: "drop 100 due = map fst (takeWhile ?P (zset_of n ?s))"
      using False takeWhile_drop [of 100 ?P ?z] by (simp add: Suc.prems(2) drop_map)
    have sub2: "set (drop 100 due) \<subseteq> queueable"
      using Suc.prems(3) set_drop_subset [of 100 due] by blast
    have IH: "schedule f db_redis t n (tot + 100) ?s =
        (Ok (tot + 100 + int (length (drop 100 due))),
         put_sorted n (drop (length (drop 100 due)) (zset_of n ?s)) (fold enqueue_payload (drop 100 due) ?s))"
      by (rule Suc.IH [OF ok due2 sub2]) (use Suc.prems(4) False in simp)
    have "fold enqueue_payload (drop 100 due) ?s =
        put_sorted n (drop 100 ?z) (fold enqueue_payload due st)"
      using fold_drains [OF D sub2 st1(1), of "drop 100 ?z"]
      by (metis append_take_drop_id comp_apply d1_def fold_append)
    with IH False have "schedule f db_redis t n (tot + 100) ?s =
        (Ok (tot + int (length due)), put_sorted n (drop (length due) ?z) (fold enqueue_payload due st))"
      by simp
    with run l1 show ?thesis by (simp add: gosimps)
  qed
qed simp

lemma dropWhile_due:
  "zset_ok z \<Longrightarrow> drop (length (takeWhile (\<lambda>(m, x). x \<le> t) z)) z = filter (\<lambda>(m, x). t < x) z"
proof -
  assume z: "zset_ok z"
  let ?w = "takeWhile (\<lambda>(m, x). x \<le> t) z"
  have "filter (\<lambda>(m, x). t < x) z = filter (\<lambda>(m, x). m \<notin> set (map fst (take (length ?w) z))) z"
  proof (rule filter_cong [OF refl], clarify)
    fix m x assume m: "(m, x) \<in> set z"
    have "take (length ?w) z = filter (\<lambda>(m, x). x \<le> t) z"
      by (simp only: takeWhile_eq_take [symmetric] filter_due_takeWhile [OF z])
    then have w: "set (map fst (take (length ?w) z)) = fst ` set (filter (\<lambda>(m, x). x \<le> t) z)"
      by (simp only: list.set_map)
    have "m \<in> fst ` set (filter (\<lambda>(m, x). x \<le> t) z) \<longleftrightarrow> (\<exists>y. (m, y) \<in> set z \<and> y \<le> t)"
      by (auto simp: image_iff)
    also have "\<dots> \<longleftrightarrow> x \<le> t"
      using m zset_score_unique [OF z m] by blast
    finally have "m \<in> fst ` set (filter (\<lambda>(m, x). x \<le> t) z) \<longleftrightarrow> x \<le> t" .
    with w show "t < x \<longleftrightarrow> m \<notin> set (map fst (take (length ?w) z))"
      by (simp only: not_le [symmetric])
  qed
  also have "\<dots> = drop (length ?w) z"
    by (rule filter_not_prefix) (use z in \<open>simp add: zset_ok_def\<close>)
  finally show ?thesis by simp
qed

lemma schedule_run:
  assumes "redis_server rd view healthy" "healthy (rs st)" "store_ok (sview view st)"
    and "n \<in> {''scheduled'', ''retries''}" "time_ok t"
    and "z = zset_of n (sview view st)" "due = map fst (filter (\<lambda>(m, x). x \<le> time_f t) z)"
    and "set due \<subseteq> queueable" "length due < 100 * fuel"
  shows "fst (schedule fuel rd t n 0 st) = Ok (int (length due))"
    and "sview view (snd (schedule fuel rd t n 0 st)) =
        put_sorted n (filter (\<lambda>(m, x). time_f t < x) z) (fold enqueue_payload due (sview view st))"
    and "healthy (rs (snd (schedule fuel rd t n 0 st)))"
proof -
  have n: "n \<in> set sset_names" using assms(4) by (auto simp: sset_names_def)
  have z: "zset_ok z" using assms(3,6) by (simp add: zset_of_ok)
  have due: "due = map fst (takeWhile (\<lambda>(m, x). x \<le> time_f t) (zset_of n (sview view st)))"
    using filter_due_takeWhile [OF z] assms(6,7) by simp
  have "schedule fuel db_redis t n 0 (sview view st) =
      (Ok (int (length due)), put_sorted n (drop (length due) z) (fold enqueue_payload due (sview view st)))"
    using schedule_db [OF n assms(5,3) due assms(8,9), of 0] assms(6) by simp
  moreover have "drop (length due) z = filter (\<lambda>(m, x). time_f t < x) z"
    using dropWhile_due [OF z, of "time_f t"] due assms(6) by simp
  ultimately show "fst (schedule fuel rd t n 0 st) = Ok (int (length due))"
    "sview view (snd (schedule fuel rd t n 0 st)) =
        put_sorted n (filter (\<lambda>(m, x). time_f t < x) z) (fold enqueue_payload due (sview view st))"
    "healthy (rs (snd (schedule fuel rd t n 0 st)))"
    using simD [OF redis_server.schedule_sim [OF assms(1)] assms(2), of fuel t n 0] by simp_all
qed

text \<open>
  C14: the scheduler moves every due job: with enough rounds it returns the number of entries due at
  the given time, each of them has been appended to the queue it names in the order of their times,
  and exactly the entries that are not yet due stay, on every Redis that keeps the contract.  Rounds
  of 100 are enough when there are more than a hundredth as many as entries due.
\<close>

theorem schedule_moves_due_jobs:
  assumes "redis_server rd view healthy" "healthy (rs st)" "store_ok (sview view st)"
    and "n \<in> {''scheduled'', ''retries''}" "time_ok t"
    and "z = zset_of n (sview view st)" "due = map fst (filter (\<lambda>(m, x). x \<le> time_f t) z)"
    and "set due \<subseteq> queueable" "length due < 100 * fuel"
  shows "fst (schedule fuel rd t n 0 st) = Ok (int (length due))
    \<and> sview view (snd (schedule fuel rd t n 0 st)) =
        put_sorted n (filter (\<lambda>(m, x). time_f t < x) z) (fold enqueue_payload due (sview view st))"
  using schedule_run [OF assms] by simp

lemma sample_queueable: "marshal_job sample_job \<in> queueable"
  using sample_facts queue_key_default by (auto simp: queueable_def)

theorem schedule_moves_due_jobs_witness:
  "fst (schedule 1 db_redis sample_time ''retries'' 0 sample_store) = Ok 1
   \<and> zset_of ''retries'' (snd (schedule 1 db_redis sample_time ''retries'' 0 sample_store)) = []
   \<and> queue_of ''default'' (snd (schedule 1 db_redis sample_time ''retries'' 0 sample_store)) =
       [marshal_job (sample_job\<lparr>EnqueuedAt := Thens (sample_clock 0)\<rparr>)]"
proof -
  have st: "clock sample_store = sample_clock" "tick sample_store = 0" "queue_of ''default'' sample_store = []"
    by (simp_all add: sample_store_def empty_store_def)
       (simp add: queue_of_def put_sorted_def get_list_def put_zset_def)
  show ?thesis
    using schedule_moves_due_jobs [OF dbr.redis_server_axioms, of sample_store "''retries''" sample_time
        "[(marshal_job sample_job, time_f sample_time)]" "[marshal_job sample_job]" 1]
      sample_queueable sample_facts modern_time_ok [OF sample_facts(1)] queue_key_default st sample_job_of
    by (simp add: sset_names_def)
qed

text \<open>
  A due job whose queue has a name the storage refuses is lost: the scheduler takes it out of the
  set first, fails to enqueue it, logs the error and counts nothing.  \<open>Push\<close> accepts such a job when
  it is scheduled for later, because only \<open>GetQueue\<close> checks the name.
\<close>

theorem schedule_drops_bad_queue:
  assumes "store_ok st" "time_ok t" "zset_of ''scheduled'' st = [(p, x)]" "x \<le> time_f t"
    and "unmarshal_job p = Ok j" "Queue j \<notin> fst ` set (queueSet st)" "\<not> valid_queue_name (Queue j)"
  shows "EnqueueScheduledJobs (Suc f) db_redis t st = (Ok 0, put_sorted ''scheduled'' [] st)"
proof -
  have n: "''scheduled'' \<in> set sset_names" by (simp add: sset_names_def)
  let ?s = "put_sorted ''scheduled'' [] st"
  have "map_of (queueSet ?s) (Queue j) = None"
    using assms(6) by (simp add: map_of_eq_None_iff)
  then obtain e where "GetQueue db_redis (Queue j) ?s = (Err e, ?s)"
    using GetQueue_invalid [of ?s "Queue j" db_redis] assms(7) by blast
  then have "\<exists>e'. schedule_entry db_redis p ?s = (Err e', ?s)"
    using assms(5) by (simp add: schedule_entry_def enqueue_def gosimps)
  then obtain e' where e': "schedule_entry db_redis p ?s = (Err e', ?s)" ..
  have "call (zrem db_redis ''scheduled'' p) st = (Ok 1, ?s)"
    using call_zrem [OF get_zset_of [OF assms(1) n], of p] assms(3) by (simp add: put_sorted_def zrem_m_def)
  moreover have "val_or False (bindS (schedule_entry db_redis p) (\<lambda>_. retS True)) ?s = (Ok False, ?s)"
    by (simp add: val_or_def bindS_def e')
  ultimately have "remove_loop db_redis ''scheduled'' (schedule_entry db_redis) 0 [p] st = (Ok 0, ?s)"
    by (simp add: bindS_def retS_def)
  moreover have "call (zrangebyscore db_redis ''scheduled'' None (time_f t) (Some 100)) st = (Ok [p], st)"
    using call_zrangebyscore [OF get_zset_of [OF assms(1) n] store_ok_db [OF assms(1)]] assms(3,4)
    by (simp add: limit_to_def)
  ultimately show ?thesis
    using assms(2) by (simp add: EnqueueScheduledJobs_def RemoveBefore_def gosimps)
qed

definition bad_queue_job :: Job where
  "bad_queue_job = sample_job\<lparr>Queue := ''bad queue''\<rparr>"

lemma bad_queue_facts:
  "unmarshal_job (marshal_job bad_queue_job) = Ok bad_queue_job" "\<not> valid_queue_name (Queue bad_queue_job)"
proof -
  have "job_ok bad_queue_job"
    using sample_job_ok by (simp add: bad_queue_job_def job_ok_def)
  from unmarshal_marshal [OF this] show "unmarshal_job (marshal_job bad_queue_job) = Ok bad_queue_job"
    by (simp add: bad_queue_job_def norm_job_def norm_failure_def nil_empty_def sample_job_def
        SetCustom_def zero_job_def zero_failure_def)
  show "\<not> valid_queue_name (Queue bad_queue_job)"
    by (simp add: bad_queue_job_def valid_queue_name_def queue_char_def Let_def is_digit_def)
qed

theorem schedule_drops_bad_queue_witness:
  "EnqueueScheduledJobs 1 db_redis sample_time
     (put_sorted ''scheduled'' [(marshal_job bad_queue_job, time_f sample_time)] empty_store)
   = (Ok 0, put_sorted ''scheduled'' [] empty_store)"
  using schedule_drops_bad_queue [of "put_sorted ''scheduled'' [(marshal_job bad_queue_job, time_f sample_time)] empty_store"
      sample_time "marshal_job bad_queue_job" "time_f sample_time" bad_queue_job 0]
    bad_queue_facts modern_time_ok [OF sample_facts(1)] empty_store_ok
  by (simp add: sset_names_def zset_ok_def empty_store_def)

section \<open>Push\<close>

definition empty_mgr :: "db mgr" where
  "empty_mgr = \<lparr>rs = (\<lambda>_. None), queueSet = [], clock = sample_clock, rands = (\<lambda>n. n), tick = 0,
     local_offset = (\<lambda>_. 0), workingMap = [], paused = [], reap_total = 0\<rparr>"

lemma empty_mgr_ok: "store_ok empty_mgr"
  by (auto simp: store_ok_def empty_mgr_def db_typed_def db_ok_def get_zset_def get_set_def get_list_def
      queue_names_def)

lemma empty_mgr_of [simp]: "zset_of n empty_mgr = []" "queue_of k empty_mgr = []"
  by (simp_all add: zset_of_def queue_of_def empty_mgr_def get_zset_def get_list_def)

definition push_ready :: "Job \<Rightarrow> bool" where
  "push_ready job \<longleftrightarrow> 8 \<le> length (Jid job) \<and> JobType job \<noteq> [] \<and> Args job \<noteq> None \<and> ReserveFor job \<le> 86400
     \<and> (At job = [] \<or> is_ok (ParseTime (At job)))"

text \<open>The job and the state when the checks of \<open>Push\<close> have passed.\<close>

definition push_job :: "('s, 'm) store_scheme \<Rightarrow> Job \<Rightarrow> Job" where
  "push_job st job =
     job\<lparr>CreatedAt := if CreatedAt job = [] then Thens (clock st (tick st)) else CreatedAt job,
        Queue := if Queue job = [] then ''default'' else Queue job\<rparr>"

definition push_state :: "Job \<Rightarrow> ('s, 'm) store_scheme \<Rightarrow> ('s, 'm) store_scheme" where
  "push_state job st = (if CreatedAt job = [] then st\<lparr>tick := tick st + 1\<rparr> else st)"

lemma push_job_same [simp]:
  "Jid (push_job st job) = Jid job" "At (push_job st job) = At job" "Args (push_job st job) = Args job"
  by (simp_all add: push_job_def)

lemma inW_simp [gosimps]: "m (world c) = (r, w) \<Longrightarrow> inW m c = (r, c\<lparr>world := w\<rparr>)"
  by (simp add: inW_def)

lemma run_chain_none [gosimps]:
  "final \<lparr>ctx_job = job, ctx_res = res, world = st\<rparr> = (Ok u, c) \<Longrightarrow>
   run_chain [] job res final st = (Ok (Ok (ctx_job c)), world c)"
  by (simp add: run_chain_def)

lemma no_chains_sel [simp]:
  "pushChain no_chains = []" "fetchChain no_chains = []" "failChain no_chains = []" "ackChain no_chains = []"
  by (simp_all add: no_chains_def)

text \<open>
  A job that breaks a rule (a jid of fewer than eight bytes, no type, no arguments, a reservation
  of more than a day, a time that cannot be read) is refused with an error before anything is stored:
  only the clock may have been read.  This holds for any Redis and any middleware.
\<close>

theorem push_rejects_invalid:
  assumes "\<not> push_ready job"
  shows "\<exists>e. mgr_Push rd ch job st = (Err e, st) \<or> mgr_Push rd ch job st = (Err e, push_state job st)"
proof -
  consider "length (Jid job) < 8" | "JobType job = []" | "Args job = None" | "86400 < ReserveFor job"
    | "8 \<le> length (Jid job)" "JobType job \<noteq> []" "Args job \<noteq> None" "\<not> 86400 < ReserveFor job"
      "At job \<noteq> []" "\<not> is_ok (ParseTime (At job))"
    using assms unfolding push_ready_def by force
  then show ?thesis
  proof cases
    case 5
    then have "Jid job \<noteq> []" by auto
    with 5 show ?thesis
      by (cases "ParseTime (At job)")
         (auto simp: mgr_Push_def gosimps Let_def push_state_def)
  qed (auto simp: mgr_Push_def errS_def)
qed

theorem push_rejects_invalid_witness:
  "\<exists>e. mgr_Push db_redis no_chains zero_job empty_mgr = (Err e, empty_mgr) \<or>
       mgr_Push db_redis no_chains zero_job empty_mgr = (Err e, push_state zero_job empty_mgr)"
  by (rule push_rejects_invalid) (simp add: push_ready_def zero_job_def)

lemma push_state_facts [simp]:
  "store_ok (push_state job st) = store_ok st" "zset_of n (push_state job st) = zset_of n st"
  "queue_of k (push_state job st) = queue_of k st" "clock (push_state job st) = clock st"
  by (simp_all add: push_state_def)

lemma push_now:
  assumes "push_ready job" "At job = []" "store_ok st" "queue_key (Queue (push_job st job))"
  shows "\<exists>j'. mgr_Push db_redis no_chains job st = (Ok j', enqueued (push_job st job) (push_state job st))"
proof -
  have "Jid job \<noteq> []" using assms(1) by (auto simp: push_ready_def)
  moreover have "enqueue db_redis (push_job st job) (push_state job st) =
      (Ok ((push_job st job)\<lparr>EnqueuedAt := Thens (clock st (tick (push_state job st)))\<rparr>),
       enqueued (push_job st job) (push_state job st))"
    using enqueue_ok [of "push_state job st" "push_job st job"] assms(3,4) by simp
  ultimately show ?thesis
    using assms(1,2)
    by (auto simp: mgr_Push_def push_ready_def push_final_def gosimps Let_def push_job_def push_state_def
        split: if_splits)
qed

lemma push_later:
  assumes "push_ready job" "At job \<noteq> []" "ParseTime (At job) = Ok t"
    and "clock st (tick (push_state job st)) < t" "store_ok st"
  shows "\<exists>j'. mgr_Push db_redis no_chains job st =
    (Ok j', put_sorted ''scheduled'' (zset_put (marshal_job (push_job st job)) (time_f t) (zset_of ''scheduled'' st))
       ((push_state job st)\<lparr>tick := tick (push_state job st) + 1\<rparr>))"
proof -
  have "Jid job \<noteq> []" using assms(1) by (auto simp: push_ready_def)
  moreover have "''scheduled'' \<in> set sset_names" by (simp add: sset_names_def)
  then have "get_zset ''scheduled'' (rs st) = Ok (zset_of ''scheduled'' st)"
    using assms(5) by (simp add: get_zset_of)
  ultimately show ?thesis
    using assms(1-4)
    by (auto simp: mgr_Push_def push_ready_def push_final_def AddElement_def gosimps Let_def push_job_def
        push_state_def put_sorted_def split: if_splits)
qed

lemma push_past:
  assumes "push_ready job" "At job \<noteq> []" "ParseTime (At job) = Ok t"
    and "\<not> clock st (tick (push_state job st)) < t" "store_ok st" "queue_key (Queue (push_job st job))"
  shows "\<exists>j'. mgr_Push db_redis no_chains job st =
    (Ok j', enqueued (push_job st job) ((push_state job st)\<lparr>tick := tick (push_state job st) + 1\<rparr>))"
proof -
  let ?s = "(push_state job st)\<lparr>tick := tick (push_state job st) + 1\<rparr>"
  have "Jid job \<noteq> []" using assms(1) by (auto simp: push_ready_def)
  moreover have "enqueue db_redis (push_job st job) ?s =
      (Ok ((push_job st job)\<lparr>EnqueuedAt := Thens (clock st (tick ?s))\<rparr>), enqueued (push_job st job) ?s)"
    using enqueue_ok [of ?s "push_job st job"] assms(5,6) by simp
  ultimately show ?thesis
    using assms(1-4)
    by (auto simp: mgr_Push_def push_ready_def push_final_def gosimps Let_def push_job_def push_state_def
        split: if_splits)
qed

text \<open>What \<open>Push\<close> leaves behind: the job in its queue, or in the scheduled set if it is for later.\<close>

definition pushed :: "Job \<Rightarrow> (db, 'm) store_scheme \<Rightarrow> (db, 'm) store_scheme" where
  "pushed job st =
     (let st1 = push_state job st; j = push_job st job in
      case (if At job = [] then None else Some (ParseTime (At job))) of
        Some (Ok t) \<Rightarrow>
          if clock st (tick st1) < t
          then put_sorted ''scheduled'' (zset_put (marshal_job j) (time_f t) (zset_of ''scheduled'' st))
                 (st1\<lparr>tick := tick st1 + 1\<rparr>)
          else enqueued j (st1\<lparr>tick := tick st1 + 1\<rparr>)
      | _ \<Rightarrow> enqueued j st1)"

lemma sview_push [simp]: "push_job (sview v st) job = push_job st job"
  by (simp add: push_job_def)

lemma push_run:
  assumes "store_ok d" "push_ready job" "queue_key (Queue (push_job d job))"
  shows "\<exists>j'. mgr_Push db_redis no_chains job d = (Ok j', pushed job d)"
proof (cases "At job = []")
  case True
  with push_now [OF assms(2) True assms(1,3)] show ?thesis by (simp add: pushed_def)
next
  case False
  then obtain t where t: "ParseTime (At job) = Ok t"
    using assms(2) by (auto simp: push_ready_def is_ok_iff)
  show ?thesis
    using push_later [OF assms(2) False t _ assms(1)] push_past [OF assms(2) False t _ assms(1,3)] False t
    by (auto simp: pushed_def Let_def)
qed

text \<open>
  C9: a job that passes the checks is stored, exactly once and where it belongs: without a time, or
  with one that has come, at the end of the queue it names (\<open>default\<close> if it names none); with a
  later time, in the scheduled set under that time.  No other entry of a set or queue changes.
\<close>

theorem push_stores_job:
  assumes "redis_server rd view healthy" "healthy (rs st)" "store_ok (sview view st)"
    and "push_ready job" "queue_key (Queue (push_job st job))"
  shows "is_ok (fst (mgr_Push rd no_chains job st))
    \<and> sview view (snd (mgr_Push rd no_chains job st)) = pushed job (sview view st)"
  using push_run [OF assms(3,4)] assms(5)
    simD [OF redis_server.mgr_Push_sim [OF assms(1) chains_sim_none] assms(2), of job] by auto

theorem push_stores_job_witness:
  "is_ok (fst (mgr_Push db_redis no_chains sample_job empty_mgr))
   \<and> queue_of ''default'' (snd (mgr_Push db_redis no_chains sample_job empty_mgr)) =
       [marshal_job (sample_job\<lparr>CreatedAt := Thens (sample_clock 0), EnqueuedAt := Thens (sample_clock 1)\<rparr>)]"
proof -
  have s: "push_ready sample_job" "Queue (push_job empty_mgr sample_job) = ''default''"
    by (simp_all add: sample_job_def SetCustom_def zero_job_def push_ready_def push_job_def)
  have p: "pushed sample_job empty_mgr = enqueued (push_job empty_mgr sample_job) (push_state sample_job empty_mgr)"
    by (simp add: pushed_def sample_job_def SetCustom_def zero_job_def)
  have "queue_of ''default'' (pushed sample_job empty_mgr) =
      [marshal_job (sample_job\<lparr>CreatedAt := Thens (sample_clock 0), EnqueuedAt := Thens (sample_clock 1)\<rparr>)]"
    unfolding p using s(2) queue_key_default
    by (simp add: push_job_def push_state_def sample_job_def SetCustom_def zero_job_def)
       (simp add: empty_mgr_def)
  then show ?thesis
    using push_stores_job [OF dbr.redis_server_axioms, of empty_mgr sample_job] s empty_mgr_ok queue_key_default
    by simp
qed

text \<open>
  \<open>Push\<close> takes a job for a queue with the name of one of the storage's own keys and loses it:
  with an entry in the retry set, a job pushed to the queue \<open>retries\<close> is answered with success,
  but Redis refuses the LPUSH on that key and the refusal is ignored, so that the job is in no set and
  in no queue.
\<close>

theorem push_reserved_name_loses_job:
  assumes "store_ok st" "push_ready job" "At job = []" "CreatedAt job \<noteq> []" "Queue job = ''retries''"
    and "zset_of ''retries'' st \<noteq> []"
  shows "is_ok (fst (mgr_Push db_redis no_chains job st))
    \<and> (\<forall>n \<in> set sset_names. zset_of n (snd (mgr_Push db_redis no_chains job st)) = zset_of n st)
    \<and> (\<forall>k. get_list k (rs (snd (mgr_Push db_redis no_chains job st))) = get_list k (rs st) \<or> k = ''queues'')"
proof -
  have n: "''retries'' \<in> set sset_names" by (simp add: sset_names_def)
  have l: "get_list ''retries'' (rs st) = Err wrongtype"
    using get_zset_of [OF assms(1) n] assms(6)
    by (auto simp: get_zset_def get_list_def split: option.splits rval.splits)
  have "''retries'' \<notin> fst ` set (queueSet st)"
  proof
    assume "''retries'' \<in> fst ` set (queueSet st)"
    then obtain q where "(''retries'', q) \<in> set (queueSet st)" by force
    with assms(1) have "queue_key ''retries''" unfolding store_ok_def by blast
    then show False by simp
  qed
  then have none: "map_of (queueSet st) ''retries'' = None"
    by (simp add: map_of_eq_None_iff)
  let ?q = "NewQueue ''retries''"
  let ?d = "put_set ''queues'' (insert ''retries'' (queue_names (rs st))) (rs st)"
  let ?s = "st\<lparr>rs := ?d, queueSet := queueSet st @ [(''retries'', ?q)]\<rparr>"
  have "call (llen db_redis ''retries'') st = (Err wrongtype, st)"
    using l by (simp add: call_def db_redis_def db_llen_def on_val_def)
  then have init: "queue_init db_redis ?q st = (Ok (), st)"
    by (simp add: queue_init_def queue_Size_def NewQueue_def void_def bindS_def val_or_def retS_def)
  have "valid_queue_name ''retries''"
    by (simp add: valid_queue_name_def queue_char_def Let_def)
  then have gq: "GetQueue db_redis ''retries'' st = (Ok ?q, ?s)"
    using none init get_queue_names [OF assms(1)] by (simp add: GetQueue_def gosimps)
  have "get_list ''retries'' (rs ?s) = Err wrongtype" using l by simp
  then have push: "queue_Push db_redis ?q p (?s\<lparr>tick := i\<rparr>) = (Ok (), ?s\<lparr>tick := i\<rparr>)" for p i
    by (simp add: queue_Push_def ignore_def call_def db_redis_def db_lpush_def on_val_def NewQueue_def)
  have "Jid job \<noteq> []" using assms(2) by (auto simp: push_ready_def)
  then have "\<exists>j'. mgr_Push db_redis no_chains job st = (Ok j', ?s\<lparr>tick := tick st + 1\<rparr>)"
    using assms(2-5) gq push
    by (simp add: mgr_Push_def push_ready_def push_final_def enqueue_def gosimps Let_def)
  then show ?thesis
    using sset_not_special by (auto simp: zset_of_def)
qed

definition retries_job :: Job where
  "retries_job = sample_job\<lparr>Queue := ''retries'', CreatedAt := ''2020-09-13T12:26:40Z''\<rparr>"

theorem push_reserved_name_loses_job_witness:
  "let st = put_sorted ''retries'' [(marshal_job sample_job, time_f sample_time)] empty_mgr in
   is_ok (fst (mgr_Push db_redis no_chains retries_job st))
   \<and> zset_of ''retries'' (snd (mgr_Push db_redis no_chains retries_job st)) =
       [(marshal_job sample_job, time_f sample_time)]
   \<and> get_list ''retries'' (rs (snd (mgr_Push db_redis no_chains retries_job st))) = Err wrongtype"
proof -
  let ?st = "put_sorted ''retries'' [(marshal_job sample_job, time_f sample_time)] empty_mgr"
  have n: "''retries'' \<in> set sset_names" by (simp add: sset_names_def)
  have "store_ok ?st"
    using empty_mgr_ok n by (simp add: zset_ok_def)
  moreover have "push_ready retries_job" "At retries_job = []" "CreatedAt retries_job \<noteq> []"
    "Queue retries_job = ''retries''"
    by (simp_all add: retries_job_def sample_job_def SetCustom_def zero_job_def push_ready_def)
  ultimately have "is_ok (fst (mgr_Push db_redis no_chains retries_job ?st))
    \<and> (\<forall>n \<in> set sset_names. zset_of n (snd (mgr_Push db_redis no_chains retries_job ?st)) = zset_of n ?st)
    \<and> (\<forall>k. get_list k (rs (snd (mgr_Push db_redis no_chains retries_job ?st))) = get_list k (rs ?st)
        \<or> k = ''queues'')"
    by (intro push_reserved_name_loses_job) simp_all
  moreover have "get_list ''retries'' (rs ?st) = Err wrongtype"
    by (simp add: get_list_def put_sorted_def put_zset_def)
  ultimately show ?thesis
    using n by (auto simp: Let_def dest: spec [of _ "''retries''"])
qed

section \<open>Fetch\<close>

lemma contains_str_iff [simp]: "contains_str a xs \<longleftrightarrow> a \<in> set xs"
  by (induction xs) auto

lemma filter_loop_spec:
  "count + length xs \<le> length qs \<Longrightarrow>
   filter_loop pd xs qs count = take count qs @ filter (\<lambda>x. x \<notin> set pd) xs"
proof (induction xs arbitrary: qs count)
  case (Cons x xs)
  have "take (Suc count) (qs[count := x]) = take count qs @ [x]"
    using Cons.prems by (simp add: take_Suc_conv_app_nth)
  with Cons show ?case by simp
qed simp

lemma filter_queues_eq: "filter_queues pd queues = filter (\<lambda>q. q \<notin> set pd) queues"
  by (simp add: filter_queues_def filter_loop_spec)

text \<open>
  The in-place \<open>filter\<close> of fetch.go is the list filter: the queues that are not paused, in the
  order they were asked for.
\<close>

theorem filter_queues_is_filter: "filter_queues pd queues = filter (\<lambda>q. q \<notin> set pd) queues"
  by (rule filter_queues_eq)

text \<open>The first queue with an element.\<close>

definition first_ready :: "string list \<Rightarrow> (db, 'm) store_scheme \<Rightarrow> string option" where
  "first_ready ks st = find (\<lambda>k. queue_of k st \<noteq> []) ks"

lemma db_brpop_first:
  assumes "store_ok st" "\<forall>k \<in> set ks. queue_key k"
  shows "call (brpop db_redis ks) st =
    (case first_ready ks st of
       None \<Rightarrow> (Ok None, st)
     | Some k \<Rightarrow> (Ok (Some (k, hd (queue_of k st))), put_queue k (tl (queue_of k st)) st))"
  using assms(2)
proof (induction ks)
  case Nil
  then show ?case by (simp add: call_def db_redis_def first_ready_def)
next
  case (Cons k ks)
  then have l: "get_list k (rs st) = Ok (rev (queue_of k st))"
    using get_queue_of [OF assms(1)] by simp
  show ?case
  proof (cases "queue_of k st")
    case Nil
    then have "db_rpop k (rs st) = (Ok None, rs st)"
      using l store_ok_db [OF assms(1)] by (simp add: db_rpop_def on_val_def)
    with Cons Nil show ?thesis
      by (simp add: call_def db_redis_def first_ready_def)
  next
    case (Cons p ps)
    then have "db_rpop k (rs st) = (Ok (Some p), put_list k (rev ps) (rs st))"
      using l by (simp add: db_rpop_def on_val_def)
    with Cons show ?thesis
      by (simp add: call_def db_redis_def first_ready_def put_queue_def)
  qed
qed

text \<open>The state after a job has been fetched from a queue and reserved.\<close>

definition fetched :: "string \<Rightarrow> string \<Rightarrow> (db, 'm) mgr_scheme \<Rightarrow> (db, 'm) mgr_scheme" where
  "fetched wid k st =
     (let p = hd (queue_of k st); j = job_of p; now = clock st (tick st);
          res = new_reservation wid \<lparr>lease_payload = Some p, lease_job = Some j, lease_released = False\<rparr> j now
      in (put_sorted ''working''
            (zset_put (marshal_reservation res) (time_f (texpiry res)) (zset_of ''working'' st))
            ((put_queue k (tl (queue_of k st)) st)\<lparr>tick := tick st + 1\<rparr>))
         \<lparr>workingMap := AList.update (Jid j) res (workingMap st)\<rparr>)"

lemma workingMap_put [simp]:
  "workingMap (put_sorted n z st) = workingMap st" "workingMap (put_queue k l st) = workingMap st"
  by (simp_all add: put_sorted_def put_queue_def)

lemma new_reservation_facts [simp]:
  "Expiry (new_reservation w l j now) = Thens (now + reserve_timeout j * second)"
  "texpiry (new_reservation w l j now) = now + reserve_timeout j * second"
  "res_Job (new_reservation w l j now) = Some j"
  by (simp_all add: new_reservation_def Let_def)

lemma Fetch_db:
  assumes "store_ok st" "queues \<noteq> []" "\<forall>k \<in> set queues. queue_key k"
    and "first_ready (filter (\<lambda>q. q \<notin> set (paused st)) queues) st = Some k"
    and "unmarshal_job (hd (queue_of k st)) = Ok j"
    and "time_ok (clock st (tick st) + reserve_timeout j * second)"
  shows "Fetch (Suc f) db_redis no_chains wid queues st = (Ok (Some j), fetched wid k st)"
proof -
  let ?a = "filter (\<lambda>q. q \<notin> set (paused st)) queues"
  let ?s = "put_queue k (tl (queue_of k st)) st"
  have k: "k \<in> set ?a" using assms(4) by (auto simp: first_ready_def dest: find_in)
  then have "?a \<noteq> []" by force
  have qk: "queue_key k" using k assms(3) by auto
  have pop: "call (brpop db_redis ?a) st = (Ok (Some (k, hd (queue_of k st))), ?s)"
    using db_brpop_first [OF assms(1), of ?a] assms(3,4) by simp
  let ?l = "\<lparr>lease_payload = Some (hd (queue_of k st)), lease_job = Some j, lease_released = False\<rparr>"
  have "store_ok (?s\<lparr>tick := tick st + 1\<rparr>)" "''working'' \<in> set sset_names"
    using assms(1) qk by (simp_all add: sset_names_def)
  then have "reserve db_redis wid ?l j ?s = (Ok (), fetched wid k st)"
    using AddElement_ok [OF _ _ assms(6), of "?s\<lparr>tick := tick st + 1\<rparr>" "''working''"] assms(5) qk
    by (simp add: reserve_def gosimps Let_def fetched_def job_of_def)
  with pop \<open>?a \<noteq> []\<close> assms(2,5) show ?thesis
    by (simp add: gosimps filter_queues_eq BasicFetch_def lease_Job_def deref_def)
qed

end
