(* ===== verification/WorkingFacts.thy ===== *)
theory WorkingFacts
  imports ManagerFacts
begin

text \<open>
  Reservations: \<open>Fetch\<close> makes one, in memory and in Redis, and \<open>Acknowledge\<close> removes it; the counters
  and the clock these operations touch are framed off.
\<close>

section \<open>Counters do not touch jobs\<close>

text \<open>Two states with the same jobs: only counters and the clock differ.\<close>

definition framed :: "(db, 'm) store_scheme \<Rightarrow> (db, 'm) store_scheme \<Rightarrow> bool" where
  "framed st st' \<longleftrightarrow> store_ok st' \<and> (\<forall>n \<in> set sset_names. zset_of n st' = zset_of n st)
     \<and> (\<forall>k. queue_key k \<longrightarrow> queue_of k st' = queue_of k st) \<and> same_env st st' \<and> queueSet st' = queueSet st"

lemma framed_refl [simp]: "store_ok st \<Longrightarrow> framed st st"
  by (simp add: framed_def)

lemma framed_trans [trans]: "framed a b \<Longrightarrow> framed b c \<Longrightarrow> framed a c"
  by (auto simp: framed_def intro: same_env_trans)

lemma framed_tick [simp]: "store_ok st \<Longrightarrow> framed st (st\<lparr>tick := i\<rparr>)"
  by (simp add: framed_def)

lemma framed_put_str:
  assumes "store_ok st" "\<not> queue_key k" "k \<notin> set sset_names" "k \<noteq> ''queues''" "k \<noteq> ''paused''"
  shows "framed st (st\<lparr>rs := (rs st)(k := Some (RStr v))\<rparr>)"
proof -
  let ?d = "(rs st)(k := Some (RStr v))"
  have g: "j \<noteq> k \<Longrightarrow> get_zset j ?d = get_zset j (rs st)" "j \<noteq> k \<Longrightarrow> get_list j ?d = get_list j (rs st)"
    "j \<noteq> k \<Longrightarrow> get_set j ?d = get_set j (rs st)" for j
    by (simp_all add: get_zset_def get_list_def get_set_def)
  have "db_ok ?d"
    using store_ok_db [OF assms(1)] by (simp add: db_ok_def)
  moreover have "n \<noteq> k" if "n \<in> set sset_names" for n using that assms(3) by auto
  moreover have "j \<noteq> k" if "queue_key j" for j using that assms(2) by auto
  ultimately show ?thesis
    using assms g by (auto simp: framed_def store_ok_def db_typed_def queue_names_def zset_of_def queue_of_def)
qed

lemma incr_framed:
  assumes "store_ok st" "\<not> queue_key k" "k \<notin> set sset_names" "k \<noteq> ''queues''" "k \<noteq> ''paused''"
  shows "\<exists>st'. ignore (call (incrby db_redis k n)) st = (Ok (), st') \<and> framed st st' \<and> tick st' = tick st"
proof -
  obtain r d where d: "db_incrby k n (rs st) = (r, d)" by fastforce
  then have "r \<noteq> Panic p \<and> (d = rs st \<or> (\<exists>v. d = (rs st)(k := Some (RStr v))))" for p
    by (auto simp: db_incrby_def db_get_def split: option.splits rval.splits gores.splits if_splits)
  then consider "d = rs st" "\<forall>p. r \<noteq> Panic p" | v where "d = (rs st)(k := Some (RStr v))" "\<forall>p. r \<noteq> Panic p"
    by blast
  then show ?thesis
  proof cases
    case 1
    then show ?thesis
      using d assms(1) by (cases r) (simp_all add: ignore_def call_def db_redis_def)
  next
    case (2 v)
    then show ?thesis
      using d framed_put_str [OF assms, of v] by (cases r) (simp_all add: ignore_def call_def db_redis_def)
  qed
qed

lemma counter_keys:
  "\<not> queue_key (''processed:'' @ d)" "\<not> queue_key (''failures:'' @ d)"
  "''processed:'' @ d \<notin> set sset_names" "''failures:'' @ d \<notin> set sset_names"
  by (simp_all add: queue_key_def valid_queue_name_def queue_char_def Let_def is_digit_def sset_names_def)

text \<open>A computation that succeeds and keeps the jobs, reading the clock \<open>c\<close> times.\<close>

definition keeps_jobs :: "nat \<Rightarrow> ((db, 'm) store_scheme, unit) gofun \<Rightarrow> bool" where
  "keeps_jobs c m \<longleftrightarrow> (\<forall>st. store_ok st \<longrightarrow> (\<exists>st'. m st = (Ok (), st') \<and> framed st st' \<and> tick st' = tick st + c))"

lemma keeps_jobs_bind:
  assumes "keeps_jobs c m" "keeps_jobs d m'"
  shows "keeps_jobs (c + d) (bindS m (\<lambda>_. m'))"
  unfolding keeps_jobs_def
proof (intro allI impI)
  fix st :: "(db, 'a) store_scheme" assume "store_ok st"
  then obtain s1 where s1: "m st = (Ok (), s1)" "framed st s1" "tick s1 = tick st + c"
    using assms(1) unfolding keeps_jobs_def by blast
  then have "store_ok s1" by (simp add: framed_def)
  then obtain s2 where "m' s1 = (Ok (), s2)" "framed s1 s2" "tick s2 = tick s1 + d"
    using assms(2) unfolding keeps_jobs_def by blast
  with s1 show "\<exists>st'. bindS m (\<lambda>_. m') st = (Ok (), st') \<and> framed st st' \<and> tick st' = tick st + (c + d)"
    by (auto simp: bindS_def intro: framed_trans)
qed

lemma keeps_jobs_ret: "keeps_jobs 0 (retS ())"
  by (auto simp: keeps_jobs_def retS_def)

lemma keeps_jobs_incr:
  "\<not> queue_key k \<Longrightarrow> k \<notin> set sset_names \<Longrightarrow> k \<noteq> ''queues'' \<Longrightarrow> k \<noteq> ''paused'' \<Longrightarrow>
   keeps_jobs 0 (ignore (call (incrby db_redis k n)))"
  using incr_framed by (auto simp: keeps_jobs_def)

lemma keeps_jobs_today:
  assumes "\<And>d. keeps_jobs c (m d)"
  shows "keeps_jobs (Suc c) (bindS Today m)"
  unfolding keeps_jobs_def
proof (intro allI impI)
  fix st :: "(db, 'a) store_scheme" assume ok: "store_ok st"
  let ?s = "st\<lparr>tick := tick st + 1\<rparr>"
  have t: "Today st = (Ok (daystr (local_offset st) (clock st (tick st))), ?s)"
    by (simp add: Today_def gosimps)
  from ok have "store_ok ?s" by simp
  with assms obtain s2 where "m (daystr (local_offset st) (clock st (tick st))) ?s = (Ok (), s2)"
    "framed ?s s2" "tick s2 = tick ?s + c"
    unfolding keeps_jobs_def by blast
  with t show "\<exists>st'. bindS Today m st = (Ok (), st') \<and> framed st st' \<and> tick st' = tick st + Suc c"
    using framed_trans [OF framed_tick [OF ok]] by (auto simp: bindS_def)
qed

lemma keeps_jobs_counters:
  "keeps_jobs 1 (store_Success db_redis)" "keeps_jobs 1 (store_Failure db_redis)"
proof -
  have p: "keeps_jobs 0 (ignore (call (incrby db_redis ''processed'' 1)))"
    "keeps_jobs 0 (ignore (call (incrby db_redis ''failures'' 1)))"
    "keeps_jobs 0 (ignore (call (incrby db_redis (''processed:'' @ d) 1)))"
    "keeps_jobs 0 (ignore (call (incrby db_redis (''failures:'' @ d) 1)))" for d
    using counter_keys [of d] by (auto intro!: keeps_jobs_incr simp: sset_names_def)
  have a: "keeps_jobs (Suc (0 + (0 + 0))) (store_Success db_redis)"
    unfolding store_Success_def by (intro keeps_jobs_today keeps_jobs_bind p keeps_jobs_ret)
  have b: "keeps_jobs (0 + (0 + Suc (0 + (0 + 0)))) (store_Failure db_redis)"
    unfolding store_Failure_def by (intro keeps_jobs_today keeps_jobs_bind p keeps_jobs_ret)
  from a b show "keeps_jobs 1 (store_Success db_redis)" "keeps_jobs 1 (store_Failure db_redis)"
    by simp_all
qed

section \<open>Reservations\<close>

text \<open>
  A reservation the manager holds in memory and in Redis: it expires at \<open>t\<close>, and \<open>p\<close> is the payload
  in the working set that names the job.
\<close>

definition held :: "(db, 'm) mgr_scheme \<Rightarrow> string \<Rightarrow> Reservation \<Rightarrow> string \<Rightarrow> time \<Rightarrow> bool" where
  "held st jid res p t \<longleftrightarrow> map_of (workingMap st) jid = Some res \<and> Expiry res = Thens t \<and> time_ok t
     \<and> own_jid jid p (at_score (time_f t) (zset_of ''working'' st))"

text \<open>The state without the reservation.\<close>

definition released :: "string \<Rightarrow> string \<Rightarrow> (db, 'm) mgr_scheme \<Rightarrow> (db, 'm) mgr_scheme" where
  "released jid p st =
     (put_sorted ''working'' (zrem_m p (zset_of ''working'' st)) st)
     \<lparr>workingMap := AList.delete jid (workingMap st)\<rparr>"

lemma mgr_upd_facts [simp]:
  "zset_of n (st\<lparr>workingMap := w\<rparr>) = zset_of n st" "queue_of k (st\<lparr>workingMap := w\<rparr>) = queue_of k st"
  "store_ok (st\<lparr>workingMap := w\<rparr>) = store_ok st" "put_sorted n z (st\<lparr>workingMap := w\<rparr>) = (put_sorted n z st)\<lparr>workingMap := w\<rparr>"
  "zset_of n (st\<lparr>reap_total := i\<rparr>) = zset_of n st" "queue_of k (st\<lparr>reap_total := i\<rparr>) = queue_of k st"
  "store_ok (st\<lparr>reap_total := i\<rparr>) = store_ok st"
  by (simp_all add: zset_of_def queue_of_def store_ok_def put_sorted_def)

lemma working_sset [simp]:
  "''working'' \<in> set sset_names" "''retries'' \<in> set sset_names" "''dead'' \<in> set sset_names"
  "''scheduled'' \<in> set sset_names"
  by (simp_all add: sset_names_def)

lemma released_facts [simp]:
  "store_ok st \<Longrightarrow> store_ok (released jid p st)"
  "zset_of n (released jid p st) = (if n = ''working'' then zrem_m p (zset_of n st) else zset_of n st)"
  "queue_key k \<Longrightarrow> queue_of k (released jid p st) = queue_of k st"
  "workingMap (released jid p st) = AList.delete jid (workingMap st)"
  "tick (released jid p st) = tick st" "clock (released jid p st) = clock st"
  "rands (released jid p st) = rands st"
  by (simp_all add: released_def zset_of_ok)

lemma framed_mgr: "framed st st' \<Longrightarrow> workingMap st' = workingMap st \<and> paused st' = paused st \<and> clock st' = clock st
    \<and> rands st' = rands st"
  for st :: "(db, 'm) mgr_scheme"
  by (cases st; cases st') (simp add: framed_def same_env_def)

lemma clear_held:
  assumes "held st jid res p t" "store_ok st"
  shows "bindS (clearReservation jid) f st =
      f (Some res) (st\<lparr>workingMap := AList.delete jid (workingMap st)\<rparr>)"
    and "RemoveElement db_redis ''working'' (Expiry res) jid (st\<lparr>workingMap := AList.delete jid (workingMap st)\<rparr>) =
      (Ok True, released jid p st)"
proof -
  show "bindS (clearReservation jid) f st =
      f (Some res) (st\<lparr>workingMap := AList.delete jid (workingMap st)\<rparr>)"
    using assms(1) by (simp add: held_def clearReservation_def gosimps)
  have "pick jid (at_score (time_f t) (zset_of ''working'' st)) = Some p"
    using assms(1) by (simp add: held_def pick_own)
  then show "RemoveElement db_redis ''working'' (Expiry res) jid
      (st\<lparr>workingMap := AList.delete jid (workingMap st)\<rparr>) = (Ok True, released jid p st)"
    using assms RemoveElement_db [of t "''working''" jid "st\<lparr>workingMap := AList.delete jid (workingMap st)\<rparr>"]
      rem_ok [of "st\<lparr>workingMap := AList.delete jid (workingMap st)\<rparr>" "''working''" jid "time_f t" p]
    by (simp add: held_def released_def)
qed

lemma Acknowledge_held:
  assumes "held st jid res p t" "store_ok st"
  shows "\<exists>st'. Acknowledge db_redis no_chains jid st = (Ok (res_Job res), st') \<and> framed (released jid p st) st'"
proof (cases "res_Job res")
  case None
  then show ?thesis
    using assms(2) clear_held(2) [OF assms]
    by (auto simp: Acknowledge_def clear_held(1) [OF assms] gosimps release_def Let_def)
next
  case (Some j)
  obtain s2 where s2: "store_Success db_redis (released jid p st) = (Ok (), s2)" "framed (released jid p st) s2"
    using keeps_jobs_counters(1) assms(2) unfolding keeps_jobs_def by (metis released_facts(1))
  have "bindS (run_chain [] j r (retS ())) liftR s2 = (Ok j, s2)" for r
    by (simp add: run_chain_def retS_def bindS_def liftR_def)
  with Some s2 show ?thesis
    using clear_held(2) [OF assms]
    by (simp add: Acknowledge_def clear_held(1) [OF assms] gosimps release_def Let_def)
qed

lemma Acknowledge_unknown:
  "map_of (workingMap st) jid = None \<Longrightarrow> Acknowledge rd ch jid st = (Ok None, st)"
  by (simp add: Acknowledge_def clearReservation_def gosimps)

text \<open>
  C11: acknowledging a reserved job gives the job back and removes its reservation, in memory and in
  Redis, and nothing else: the other reservations, the queues and the other sets keep their entries.
  Acknowledging it again is not an error, gives nothing and changes nothing.  On every Redis that
  keeps the contract.
\<close>

theorem ack_removes_reservation:
  assumes "redis_server rd view healthy" "healthy (rs st)" "store_ok (sview view st)"
    and "held (sview view st) jid res p t"
    and "st1 = snd (Acknowledge rd no_chains jid st)"
  shows "fst (Acknowledge rd no_chains jid st) = Ok (res_Job res)
    \<and> framed (released jid p (sview view st)) (sview view st1)
    \<and> Acknowledge rd no_chains jid st1 = (Ok None, st1)"
proof -
  obtain s where s: "Acknowledge db_redis no_chains jid (sview view st) = (Ok (res_Job res), s)"
    "framed (released jid p (sview view st)) s"
    using Acknowledge_held [OF assms(4,3)] by blast
  have v: "fst (Acknowledge rd no_chains jid st) = Ok (res_Job res)" "sview view st1 = s"
    using simD [OF redis_server.Acknowledge_sim [OF assms(1) chains_sim_none] assms(2), of jid] s assms(5)
    by simp_all
  have "workingMap s = AList.delete jid (workingMap st)"
    using framed_mgr [OF s(2)] by simp
  then have "workingMap st1 = AList.delete jid (workingMap st)"
    using v(2) by (metis sview_mgr(1))
  then have "map_of (workingMap st1) jid = None"
    by (simp add: delete_conv')
  with v s show ?thesis
    by (simp add: Acknowledge_unknown)
qed

section \<open>Fetching gives a reservation\<close>

lemma jid_in_reservation:
  assumes "plain_jid (Jid j)" "res_Job r = Some j"
  shows "0 < str_index (marshal_reservation r) (Jid j)"
proof -
  obtain kvs where "encode_job j = JObj ((''jid'', JStr (Jid j)) # kvs)"
    by (simp add: encode_job_def)
  then obtain v where v: "show_json (encode_job j) = CHR ''{'' # quote_json ''jid'' @ '':'' @ quote_json (Jid j) @ v"
    using show_obj_first [of "''jid''" "JStr (Jid j)" kvs] by (auto simp del: show_json.simps(6))
  obtain kvs' where "encode_reservation r = JObj ((''job'', encode_job j) # kvs')"
    by (simp add: encode_reservation_def assms(2))
  then obtain w where "marshal_reservation r = CHR ''{'' # quote_json ''job'' @ '':'' @ show_json (encode_job j) @ w"
    using show_obj_first [of "''job''" "encode_job j" kvs']
    by (auto simp: marshal_reservation_def simp del: show_json.simps(6))
  with v have "marshal_reservation r = CHR ''{'' #
      (quote_json ''job'' @ '':'' @ CHR ''{'' # quote_json ''jid'' @ '':'' @ [CHR 0x22])
      @ quote_bytes (Jid j) @ (CHR 0x22 # v @ w)"
    by (simp only: quote_json_def append.simps append_assoc)
  then show ?thesis
    using plain_jid_occurs [OF assms(1)] by metis
qed

lemma fetched_reservation:
  assumes "store_ok st" "queue_key k" "j = job_of (hd (queue_of k st))" "plain_jid (Jid j)"
    and "ex = clock st (tick st) + reserve_timeout j * second" "time_ok ex"
    and "\<forall>e \<in> set (at_score (time_f ex) (zset_of ''working'' st)). \<not> 0 < str_index e (Jid j)"
  shows "\<exists>res p. res_Job res = Some j \<and> held (fetched wid k st) (Jid j) res p ex \<and> 0 < str_index p (Jid j)
    \<and> zset_of ''working'' (fetched wid k st) = zset_put p (time_f ex) (zset_of ''working'' st)"
proof -
  let ?l = "\<lparr>lease_payload = Some (hd (queue_of k st)), lease_job = Some j, lease_released = False\<rparr>"
  define res where "res = new_reservation wid ?l j (clock st (tick st))"
  have r: "res_Job res = Some j" "Expiry res = Thens ex" "texpiry res = ex"
    by (simp_all add: res_def assms(5))
  have f: "workingMap (fetched wid k st) = AList.update (Jid j) res (workingMap st)"
    "zset_of ''working'' (fetched wid k st) =
       zset_put (marshal_reservation res) (time_f ex) (zset_of ''working'' st)"
    using assms(2) r(3) by (simp_all add: fetched_def Let_def res_def flip: assms(3))
  have "own_jid (Jid j) (marshal_reservation res)
      (at_score (time_f ex) (zset_of ''working'' (fetched wid k st)))"
    using assms(7) jid_in_reservation [OF assms(4) r(1)]
    unfolding own_jid_def f(2) set_at_score by auto
  then have "held (fetched wid k st) (Jid j) res (marshal_reservation res) ex"
    using r assms(6) f(1) by (simp add: held_def update_conv')
  with r(1) f(2) jid_in_reservation [OF assms(4) r(1)] show ?thesis by blast
qed

lemma fetched_held:
  assumes "store_ok st" "queue_key k" "j = job_of (hd (queue_of k st))" "plain_jid (Jid j)"
    and "ex = clock st (tick st) + reserve_timeout j * second" "time_ok ex"
    and "\<forall>e \<in> set (at_score (time_f ex) (zset_of ''working'' st)). \<not> 0 < str_index e (Jid j)"
  shows "\<exists>res p. res_Job res = Some j \<and> held (fetched wid k st) (Jid j) res p ex"
  using fetched_reservation [OF assms] by blast

text \<open>
  C10: \<open>Fetch\<close> takes the oldest job of the first queue, in the order asked for, that is neither paused
  nor empty, and reserves it: the job leaves its queue and a reservation for it is held in memory and
  in the working set until its time-out, with which it can be acknowledged or failed.
\<close>

theorem fetch_reserves_job:
  assumes "redis_server rd view healthy" "healthy (rs st)" "store_ok (sview view st)"
    and "queues \<noteq> []" "\<forall>k \<in> set queues. queue_key k"
    and "first_ready (filter (\<lambda>q. q \<notin> set (paused st)) queues) (sview view st) = Some k"
    and "unmarshal_job (hd (queue_of k (sview view st))) = Ok j" "plain_jid (Jid j)"
    and "ex = clock st (tick st) + reserve_timeout j * second" "time_ok ex"
    and "\<forall>e \<in> set (at_score (time_f ex) (zset_of ''working'' (sview view st))). \<not> 0 < str_index e (Jid j)"
    and "st1 = snd (Fetch (Suc f) rd no_chains wid queues st)"
  shows "fst (Fetch (Suc f) rd no_chains wid queues st) = Ok (Some j)
    \<and> queue_of k (sview view st1) = tl (queue_of k (sview view st))
    \<and> (\<exists>res p. res_Job res = Some j \<and> held (sview view st1) (Jid j) res p ex)"
proof -
  let ?d = "sview view st"
  have k: "queue_key k"
    using assms(5,6) by (auto simp: first_ready_def dest: find_in)
  have j: "j = job_of (hd (queue_of k ?d))" using assms(7) by (simp add: job_of_def)
  have "Fetch (Suc f) db_redis no_chains wid queues ?d = (Ok (Some j), fetched wid k ?d)"
    using assms by (intro Fetch_db) auto
  then have v: "fst (Fetch (Suc f) rd no_chains wid queues st) = Ok (Some j)" "sview view st1 = fetched wid k ?d"
    using simD [OF redis_server.Fetch_sim [OF assms(1) chains_sim_none] assms(2), of "Suc f" wid queues] assms(12)
    by (simp_all del: Fetch.simps)
  moreover have "queue_of k (fetched wid k ?d) = tl (queue_of k ?d)"
    using k by (simp add: fetched_def Let_def)
  moreover have "\<exists>res p. res_Job res = Some j \<and> held (fetched wid k ?d) (Jid j) res p ex"
    using assms(9-11) by (intro fetched_held [OF assms(3) k j assms(8)]) simp_all
  ultimately show ?thesis by simp
qed

definition ready_mgr :: "db mgr" where
  "ready_mgr = put_queue ''default'' [marshal_job sample_job] empty_mgr"

lemma ready_mgr_facts:
  "store_ok ready_mgr" "queue_of ''default'' ready_mgr = [marshal_job sample_job]"
  "zset_of ''working'' ready_mgr = []" "paused ready_mgr = []" "clock ready_mgr = sample_clock" "tick ready_mgr = 0"
proof -
  show "store_ok ready_mgr" "queue_of ''default'' ready_mgr = [marshal_job sample_job]"
    "zset_of ''working'' ready_mgr = []" "clock ready_mgr = sample_clock" "tick ready_mgr = 0"
    using empty_mgr_ok queue_key_default by (simp_all add: ready_mgr_def) (simp_all add: empty_mgr_def)
  show "paused ready_mgr = []" by (simp add: ready_mgr_def put_queue_def empty_mgr_def)
qed

definition sample_expiry :: time where
  "sample_expiry = sample_clock 0 + reserve_timeout sample_job * second"

lemma sample_expiry_ok: "time_ok sample_expiry"
  by (simp add: sample_expiry_def sample_clock_def reserve_timeout_def DefaultTimeout_def Let_def
      sample_job_def SetCustom_def zero_job_def time_ok_def)

theorem fetch_reserves_job_witness:
  "\<exists>st1 res p. Fetch 1 db_redis no_chains ''w1'' [''default''] ready_mgr = (Ok (Some sample_job), st1)
     \<and> queue_of ''default'' st1 = [] \<and> held st1 (Jid sample_job) res p sample_expiry"
proof -
  have "first_ready [''default''] ready_mgr = Some ''default''"
    by (simp add: first_ready_def ready_mgr_facts)
  with fetch_reserves_job [OF dbr.redis_server_axioms, of ready_mgr "[''default'']" "''default''" sample_job
      sample_expiry "snd (Fetch (Suc 0) db_redis no_chains ''w1'' [''default''] ready_mgr)" 0 "''w1''"]
  have "fst (Fetch 1 db_redis no_chains ''w1'' [''default''] ready_mgr) = Ok (Some sample_job)
    \<and> queue_of ''default'' (snd (Fetch 1 db_redis no_chains ''w1'' [''default''] ready_mgr)) = []
    \<and> (\<exists>res p. res_Job res = Some sample_job \<and>
         held (snd (Fetch 1 db_redis no_chains ''w1'' [''default''] ready_mgr)) (Jid sample_job) res p sample_expiry)"
    using ready_mgr_facts queue_key_default sample_facts sample_expiry_ok
    by (simp del: Fetch.simps add: sample_expiry_def)
  then show ?thesis
    by (metis prod.collapse)
qed

lemma sample_held:
  "store_ok (fetched ''w1'' ''default'' ready_mgr)"
  "\<exists>res p. res_Job res = Some sample_job
     \<and> held (fetched ''w1'' ''default'' ready_mgr) (Jid sample_job) res p sample_expiry"
proof -
  have k: "job_of (hd (queue_of ''default'' ready_mgr)) = sample_job"
    by (simp add: ready_mgr_facts sample_job_of)
  show "\<exists>res p. res_Job res = Some sample_job
     \<and> held (fetched ''w1'' ''default'' ready_mgr) (Jid sample_job) res p sample_expiry"
    using fetched_held [OF ready_mgr_facts(1) queue_key_default k [symmetric] sample_facts(3), of sample_expiry "''w1''"]
      sample_expiry_ok by (auto simp: ready_mgr_facts sample_expiry_def)
  show "store_ok (fetched ''w1'' ''default'' ready_mgr)"
    using ready_mgr_facts(1) queue_key_default by (simp add: fetched_def Let_def zset_of_ok)
qed

theorem ack_removes_reservation_witness:
  "\<exists>(st :: db mgr) st1. store_ok st \<and> Acknowledge db_redis no_chains (Jid sample_job) st = (Ok (Some sample_job), st1)
     \<and> Acknowledge db_redis no_chains (Jid sample_job) st1 = (Ok None, st1)"
proof -
  obtain res p where h: "res_Job res = Some sample_job"
    "held (fetched ''w1'' ''default'' ready_mgr) (Jid sample_job) res p sample_expiry"
    using sample_held(2) by blast
  note ok = sample_held(1)
  let ?s = "fetched ''w1'' ''default'' ready_mgr"
  have "fst (Acknowledge db_redis no_chains (Jid sample_job) ?s) = Ok (res_Job res)
    \<and> framed (released (Jid sample_job) p ?s) (snd (Acknowledge db_redis no_chains (Jid sample_job) ?s))
    \<and> Acknowledge db_redis no_chains (Jid sample_job) (snd (Acknowledge db_redis no_chains (Jid sample_job) ?s))
      = (Ok None, snd (Acknowledge db_redis no_chains (Jid sample_job) ?s))"
    using ack_removes_reservation [OF dbr.redis_server_axioms, of ?s "Jid sample_job" res p sample_expiry,
        OF _ _ _ refl] h(2) ok by simp
  with h(1) ok show ?thesis
    by (intro exI [of _ ?s] exI [of _ "snd (Acknowledge db_redis no_chains (Jid sample_job) ?s)"])
       (simp add: prod_eq_iff)
qed

end
