(* ===== verification/RetryFacts.thy ===== *)
theory RetryFacts
  imports WorkingFacts
begin

text \<open>
  Failure of a reserved job (\<open>manager/retry.go\<close>): the back-off, what is recorded in the job and where
  the job goes.
\<close>

section \<open>The back-off\<close>

lemma fourth_power_bound:
  fixes c :: int
  assumes "0 \<le> c" "c \<le> 300"
  shows "0 \<le> c * c * c * c" "c * c * c * c \<le> 8100000000"
proof -
  have "c * c \<le> 300 * 300" using assms by (intro mult_mono) auto
  moreover have "0 \<le> c * c" using assms by simp
  ultimately have "(c * c) * (c * c) \<le> (300 * 300) * (300 * 300)"
    using mult_mono [of "c * c" "300 * 300" "c * c" "300 * 300"] by simp
  then show "c * c * c * c \<le> 8100000000" by (simp add: mult.assoc)
  show "0 \<le> c * c * c * c" using assms by simp
qed

lemma retry_delay_exact:
  assumes "0 \<le> c" "c \<le> 300" "r < 30"
  shows "retry_delay c r = (c * c * c * c + 15 + int r * (c + 1)) * second"
    and "15 * second \<le> retry_delay c r" "retry_delay c r \<le> 8100010000 * second"
proof -
  let ?s = "c * c * c * c + 15 + int r * (c + 1)"
  have "0 \<le> int r * (c + 1)" using assms by simp
  moreover have "int r * (c + 1) \<le> 29 * 301" using assms by (intro mult_mono) auto
  ultimately have s: "15 \<le> ?s" "?s \<le> 8100010000"
    using fourth_power_bound [OF assms(1,2)] by linarith+
  then show eq: "retry_delay c r = ?s * second"
    by (simp add: retry_delay_def i64_id)
  show "15 * second \<le> retry_delay c r"
    unfolding eq using s(1) by simp
  show "retry_delay c r \<le> 8100010000 * second"
    unfolding eq using s(2) by simp
qed



section \<open>What is recorded\<close>

text \<open>The texts of a failure are bounded and never empty.\<close>

definition clean_payload :: "FailPayload \<Rightarrow> bool" where
  "clean_payload f \<longleftrightarrow> fail_type f \<noteq> [] \<and> length (fail_type f) \<le> 100
     \<and> fail_message f \<noteq> [] \<and> length (fail_message f) \<le> 1000
     \<and> (\<exists>b. fail_backtrace f = Some b \<and> length b \<le> 50)"

text \<open>
  Whatever a worker reports, what is stored of a failure is bounded: a type of 1 to 100 bytes, a
  message of 1 to 1000 bytes and a backtrace of at most 50 lines; the jid is kept.
\<close>

theorem cleanse_bounds: "clean_payload (cleanse f) \<and> fail_Jid (cleanse f) = fail_Jid f"
  by (auto simp: clean_payload_def cleanse_def Let_def split: option.split)

definition failed_job :: "FailPayload \<Rightarrow> string \<Rightarrow> Job \<Rightarrow> Failure \<times> Job" where
  "failed_job p now j =
     (let f = (case JobFailure j of
           Some f \<Rightarrow> f\<lparr>RetryCount := i64 (RetryCount f + 1), ErrorMessage := fail_message p,
             ErrorType := fail_type p, FailBacktrace := fail_backtrace p\<rparr>
         | None \<Rightarrow> \<lparr>RetryCount = 0, FailedAt = now, NextAt = [], ErrorMessage = fail_message p,
             ErrorType = fail_type p, FailBacktrace = fail_backtrace p\<rparr>)
      in (f, j\<lparr>JobFailure := Some f\<rparr>))"

lemma record_failure_run:
  "\<exists>i. record_failure p j st =
     (Ok (snd (failed_job p (Thens (clock st (tick st))) j)), st\<lparr>tick := tick st + i\<rparr>)"
proof (cases "JobFailure j")
  case None
  then show ?thesis
    by (intro exI [of _ 1]) (simp add: record_failure_def gosimps failed_job_def Let_def)
next
  case (Some f)
  then show ?thesis
    by (intro exI [of _ 0]) (simp add: record_failure_def gosimps failed_job_def Let_def)
qed

section \<open>Where a failed job goes\<close>

definition clock_ok :: "('s, 'm) store_scheme \<Rightarrow> bool" where
  "clock_ok st \<longleftrightarrow> (\<forall>i. 2 ^ 30 * second \<le> clock st i \<and> clock st i < 240000000000 * second)"

lemma clock_ok_time:
  assumes "clock_ok st" "0 \<le> d" "d \<le> 8100010000 * second"
  shows "time_ok (clock st i + d)"
  using assms unfolding clock_ok_def time_ok_def by (auto dest!: spec [of _ i])

text \<open>
  The state \<open>w'\<close> after the job \<open>j\<close> with the failure \<open>f\<close> has been dealt with in \<open>w\<close>: forgotten, put
  into the retries, or put into the dead set.
\<close>

definition settled :: "Job \<Rightarrow> Failure \<Rightarrow> (db, 'm) mgr_scheme \<Rightarrow> (db, 'm) mgr_scheme \<Rightarrow> bool" where
  "settled j f w w' \<longleftrightarrow> store_ok w' \<and> same_env w w' \<and> queueSet w' = queueSet w
     \<and> (\<forall>k. queue_key k \<longrightarrow> queue_of k w' = queue_of k w)
     \<and> zset_of ''working'' w' = zset_of ''working'' w \<and> zset_of ''scheduled'' w' = zset_of ''scheduled'' w
     \<and> (if Retry j = 0 then
          zset_of ''retries'' w' = zset_of ''retries'' w \<and> zset_of ''dead'' w' = zset_of ''dead'' w
        else if RetryCount f < Retry j then
          zset_of ''dead'' w' = zset_of ''dead'' w
          \<and> (\<exists>i r. r < 30 \<and> (let t = clock w i + retry_delay (RetryCount f) r in
               zset_of ''retries'' w' =
                 zset_put (marshal_job (j\<lparr>JobFailure := Some (f\<lparr>NextAt := Thens t\<rparr>)\<rparr>)) (time_f t)
                   (zset_of ''retries'' w)))
        else
          zset_of ''retries'' w' = zset_of ''retries'' w
          \<and> (\<exists>i. zset_of ''dead'' w' =
               zset_put (marshal_job j) (time_f (clock w i + DeadTTL)) (zset_of ''dead'' w)))"

lemma same_env_put_tick [simp]: "same_env w (put_sorted n z (w\<lparr>tick := i\<rparr>))"
  by (rule same_env_trans [OF same_env_upd(3) put_fields(9)])

lemma fail_final_run:
  assumes "store_ok w" "clock_ok w" "JobFailure j = Some f" "0 \<le> RetryCount f" "RetryCount f \<le> 300"
  shows "\<exists>c. fail_final db_redis \<lparr>ctx_job = j, ctx_res = r, world = w\<rparr> = (Ok (), c) \<and> settled j f w (world c)"
proof -
  consider "Retry j = 0" | "Retry j \<noteq> 0" "RetryCount f < Retry j" | "Retry j \<noteq> 0" "\<not> RetryCount f < Retry j"
    by blast
  then show ?thesis
  proof cases
    case 1
    then show ?thesis
      using assms(1) by (simp add: fail_final_def gosimps settled_def)
  next
    case 2
    let ?n = "rands w (tick w) mod 30"
    let ?t = "clock w (tick w + 1) + retry_delay (RetryCount f) ?n"
    let ?w = "w\<lparr>tick := tick w + 2\<rparr>"
    let ?p = "marshal_job (j\<lparr>JobFailure := Some (f\<lparr>NextAt := Thens ?t\<rparr>)\<rparr>)"
    have "time_ok ?t"
      using retry_delay_exact [OF assms(4,5), of ?n] by (intro clock_ok_time [OF assms(2)]) simp_all
    then have "AddElement db_redis ''retries'' (Thens ?t) (Jid j) ?p ?w =
        (Ok (), put_sorted ''retries'' (zset_put ?p (time_f ?t) (zset_of ''retries'' w)) ?w)"
      using AddElement_ok [of ?w "''retries''" ?t "Jid j" ?p] assms(1) by simp
    then have "\<exists>c. fail_final db_redis \<lparr>ctx_job = j, ctx_res = r, world = w\<rparr> = (Ok (), c)
        \<and> world c = put_sorted ''retries'' (zset_put ?p (time_f ?t) (zset_of ''retries'' w)) ?w"
      using 2 assms(3) by (simp add: fail_final_def retryLater_def nextRetry_def deref_def gosimps Let_def)
    then obtain c where c: "fail_final db_redis \<lparr>ctx_job = j, ctx_res = r, world = w\<rparr> = (Ok (), c)"
      "world c = put_sorted ''retries'' (zset_put ?p (time_f ?t) (zset_of ''retries'' w)) ?w"
      by blast
    have "\<exists>i r. r < 30 \<and> (let t = clock w i + retry_delay (RetryCount f) r in
        zset_of ''retries'' (world c) =
          zset_put (marshal_job (j\<lparr>JobFailure := Some (f\<lparr>NextAt := Thens t\<rparr>)\<rparr>)) (time_f t) (zset_of ''retries'' w))"
      by (intro exI [of _ "tick w + 1"] exI [of _ ?n]) (simp add: c(2) Let_def)
    with 2 assms(1) have "settled j f w (world c)"
      by (simp add: settled_def c(2) zset_of_ok)
    with c(1) show ?thesis by blast
  next
    case 3
    let ?t = "clock w (tick w) + DeadTTL"
    let ?w = "w\<lparr>tick := tick w + 1\<rparr>"
    have "time_ok ?t"
      by (intro clock_ok_time [OF assms(2)]) (simp_all add: DeadTTL_def)
    then have "AddElement db_redis ''dead'' (Thens ?t) (Jid j) (marshal_job j) ?w =
        (Ok (), put_sorted ''dead'' (zset_put (marshal_job j) (time_f ?t) (zset_of ''dead'' w)) ?w)"
      using AddElement_ok [of ?w "''dead''" ?t "Jid j" "marshal_job j"] assms(1) by simp
    then have "\<exists>c. fail_final db_redis \<lparr>ctx_job = j, ctx_res = r, world = w\<rparr> = (Ok (), c)
        \<and> world c = put_sorted ''dead'' (zset_put (marshal_job j) (time_f ?t) (zset_of ''dead'' w)) ?w"
      using 3 assms(3) by (simp add: fail_final_def sendToMorgue_def deref_def gosimps)
    then show ?thesis
      using 3 assms(1) by (auto simp: settled_def zset_of_ok intro!: exI [of _ "tick w"])
  qed
qed

lemma settled_framed:
  assumes "framed w w1" "settled j f (w1\<lparr>tick := i\<rparr>) w'"
  shows "settled j f w w'"
proof -
  have z: "zset_of n w1 = zset_of n w" if "n \<in> set sset_names" for n
    using assms(1) that by (simp add: framed_def)
  have "same_env w w1" "same_env (w1\<lparr>tick := i\<rparr>) w'"
    using assms by (simp_all add: settled_def framed_def)
  then have "same_env w w'"
    by (simp add: same_env_def)
  moreover have "clock w1 = clock w" using assms(1) by (simp add: framed_def same_env_def)
  moreover have "queueSet w1 = queueSet w" "\<forall>k. queue_key k \<longrightarrow> queue_of k w1 = queue_of k w"
    using assms(1) by (simp_all add: framed_def)
  ultimately show ?thesis
    using assms(2) z [of "''working''"] z [of "''scheduled''"] z [of "''retries''"] z [of "''dead''"]
    by (simp add: settled_def sset_names_def Let_def cong: if_cong)
qed

lemma clock_ok_framed: "framed w w1 \<Longrightarrow> clock_ok (w1\<lparr>tick := i\<rparr>) = clock_ok w"
  by (simp add: clock_ok_def framed_def same_env_def)

text \<open>The number of retries a job has behind it stays where the back-off does not overflow.\<close>

definition few_retries :: "Job \<Rightarrow> bool" where
  "few_retries j \<longleftrightarrow> (case JobFailure j of None \<Rightarrow> True | Some f \<Rightarrow> 0 \<le> RetryCount f \<and> RetryCount f < 300)"

lemma failed_job_count:
  "few_retries j \<Longrightarrow> failed_job p now j = (f, j') \<Longrightarrow>
   JobFailure j' = Some f \<and> 0 \<le> RetryCount f \<and> RetryCount f \<le> 300"
  by (auto simp: few_retries_def failed_job_def Let_def i64_id split: option.splits)

text \<open>From the counters on: what is common to a reported failure and an expired reservation.\<close>

lemma failure_run:
  assumes "store_ok w" "clock_ok w" "few_retries j"
  shows "\<exists>now w'. bindS (store_Failure db_redis) (\<lambda>_. bindS (deref (Some j)) (\<lambda>job.
      bindS (record_failure p job) (\<lambda>job. void (through [] job r (fail_final db_redis))))) w = (Ok (), w')
    \<and> settled (snd (failed_job p now j)) (fst (failed_job p now j)) w w'"
proof -
  obtain s2 where s2: "store_Failure db_redis w = (Ok (), s2)" "framed w s2"
    using keeps_jobs_counters(2) assms(1) unfolding keeps_jobs_def by blast
  obtain i where i: "record_failure p j s2 =
      (Ok (snd (failed_job p (Thens (clock s2 (tick s2))) j)), s2\<lparr>tick := tick s2 + i\<rparr>)"
    using record_failure_run by blast
  define now where "now = Thens (clock s2 (tick s2))"
  obtain f j' where f: "failed_job p now j = (f, j')" by fastforce
  let ?w = "s2\<lparr>tick := tick s2 + i\<rparr>"
  have "store_ok ?w" "clock_ok ?w"
    using s2(2) assms(2) clock_ok_framed [OF s2(2)] by (simp_all add: framed_def)
  then obtain c where c: "fail_final db_redis \<lparr>ctx_job = j', ctx_res = r, world = ?w\<rparr> = (Ok (), c)"
    "settled j' f ?w (world c)"
    using fail_final_run [of ?w j' f r] failed_job_count [OF assms(3) f] by blast
  have "settled j' f w (world c)"
    by (rule settled_framed [OF s2(2) c(2)])
  moreover have "void (through [] j' r (fail_final db_redis)) ?w = (Ok (), world c)"
    using c(1) by (simp add: void_def run_chain_def bindS_def liftR_def retS_def)
  ultimately show ?thesis
    using s2(1) i f
    by (intro exI [of _ now] exI [of _ "world c"])
       (simp add: bindS_def deref_def retS_def now_def)
qed

lemma processFailure_held:
  assumes "held st jid res p t" "store_ok st" "clock_ok st" "res_Job res = Some j" "few_retries j"
  shows "\<exists>now w'. processFailure db_redis no_chains False jid fl st = (Ok (), w')
    \<and> settled (snd (failed_job fl now j)) (fst (failed_job fl now j)) (released jid p st) w'"
proof -
  have "clock_ok (released jid p st)" using assms(3) by (simp add: clock_ok_def)
  with failure_run [of "released jid p st" j fl "Some (release res)"] assms(2,5) obtain now w' where
    w': "bindS (store_Failure db_redis) (\<lambda>_. bindS (deref (Some j)) (\<lambda>job.
      bindS (record_failure fl job) (\<lambda>job. void (through [] job (Some (release res)) (fail_final db_redis)))))
      (released jid p st) = (Ok (), w')"
    "settled (snd (failed_job fl now j)) (fst (failed_job fl now j)) (released jid p st) w'"
    by auto
  have "Expiry (release res) = Expiry res" "res_Job (release res) = Some j"
    using assms(4) by (simp_all add: release_def)
  then have "processFailure db_redis no_chains False jid fl st = (Ok (), w')"
    using clear_held(2) [OF assms(1,2)] w'(1)
    by (simp add: processFailure_def clear_held(1) [OF assms(1,2)] Let_def bindS_ok)
  with w'(2) show ?thesis by blast
qed

text \<open>
  C12: when a worker fails a job it holds, the reservation goes (in memory and in Redis), the failure is
  recorded in the job, and the job is not lost: it goes to the retries under the time of its back-off
  while it has retries left, to the dead set for 180 days when they are used up, and is forgotten only
  if it was pushed with \<open>retry: 0\<close>.  The queues and all other entries stay.
\<close>

theorem fail_retries_or_buries:
  assumes "redis_server rd view healthy" "healthy (rs st)" "store_ok (sview view st)"
    and "held (sview view st) (fail_Jid f) res p t" "fail_Jid f \<noteq> []"
    and "res_Job res = Some j" "few_retries j" "clock_ok st"
    and "st1 = snd (mgr_Fail rd no_chains (Some f) st)"
  shows "fst (mgr_Fail rd no_chains (Some f) st) = Ok ()
    \<and> (\<exists>now. settled (snd (failed_job (cleanse f) now j)) (fst (failed_job (cleanse f) now j))
          (released (fail_Jid f) p (sview view st)) (sview view st1))"
proof -
  have "clock_ok (sview view st)" using assms(8) by (simp add: clock_ok_def)
  from processFailure_held [OF assms(4,3) this assms(6,7), of "cleanse f"] obtain now w' where
    "mgr_Fail db_redis no_chains (Some f) (sview view st) = (Ok (), w')"
    "settled (snd (failed_job (cleanse f) now j)) (fst (failed_job (cleanse f) now j))
       (released (fail_Jid f) p (sview view st)) w'"
    using assms(5) by (auto simp: mgr_Fail_def)
  then show ?thesis
    using simD [OF redis_server.mgr_Fail_sim [OF assms(1) chains_sim_none] assms(2), of "Some f"] assms(9)
    by auto
qed

lemma sample_clock_ok: "clock_ok (fetched wid k ready_mgr)"
  by (simp add: clock_ok_def fetched_def Let_def ready_mgr_facts sample_clock_def min_less_iff_disj)

theorem fail_retries_or_buries_witness:
  "\<exists>(st :: db mgr) st1 now p. store_ok st
     \<and> mgr_Fail db_redis no_chains (Some (JobReservationExpired\<lparr>fail_Jid := Jid sample_job\<rparr>)) st = (Ok (), st1)
     \<and> settled (snd (failed_job (cleanse (JobReservationExpired\<lparr>fail_Jid := Jid sample_job\<rparr>)) now sample_job))
         (fst (failed_job (cleanse (JobReservationExpired\<lparr>fail_Jid := Jid sample_job\<rparr>)) now sample_job))
         (released (Jid sample_job) p st) st1"
proof -
  let ?s = "fetched ''w1'' ''default'' ready_mgr" and ?f = "JobReservationExpired\<lparr>fail_Jid := Jid sample_job\<rparr>"
  obtain res p where h: "res_Job res = Some sample_job" "held ?s (Jid sample_job) res p sample_expiry"
    using sample_held(2) by blast
  have j: "few_retries sample_job" "Jid sample_job \<noteq> []"
    by (simp_all add: few_retries_def sample_job_def SetCustom_def zero_job_def)
  have "fst (mgr_Fail db_redis no_chains (Some ?f) ?s) = Ok () \<and>
      (\<exists>now. settled (snd (failed_job (cleanse ?f) now sample_job)) (fst (failed_job (cleanse ?f) now sample_job))
         (released (Jid sample_job) p ?s) (snd (mgr_Fail db_redis no_chains (Some ?f) ?s)))"
    using fail_retries_or_buries [OF dbr.redis_server_axioms, of ?s ?f res p sample_expiry sample_job, OF _ _ _ _ _ _ _ refl]
      h j sample_held(1) sample_clock_ok by simp
  with sample_held(1) show ?thesis
    by (metis prod.collapse)
qed

end
