(* ===== verification/RestartFacts.thy ===== *)
theory RestartFacts
  imports RetryFacts
begin

text \<open>
  Restart of the server: reservations are written to Redis as JSON and read back by \<open>loadWorkingSet\<close>
  (\<open>manager/working.go\<close>), so that jobs in progress can still be acknowledged or failed.
\<close>

section \<open>The stored form of a reservation\<close>

text \<open>What the exported fields keep: the lease and the times as \<open>time.Time\<close> are lost.\<close>

definition stored :: "Reservation \<Rightarrow> Reservation" where
  "stored r = zero_reservation\<lparr>res_Job := map_option norm_job (res_Job r), Since := Since r,
     Expiry := Expiry r, Wid := Wid r\<rparr>"

lemma dec_ptr_job:
  "job_ok j \<Longrightarrow> dec_ptr t job_fields zero_job (encode_job j) None = Ok (Some (norm_job j))"
  using decode_encode_job [of j]
  by (simp add: dec_ptr_def decode_job_def encode_job_def dec_struct_def)

lemma decode_encode_reservation:
  assumes "res_Job r = Some j" "job_ok j"
  shows "dec_struct t reservation_fields (encode_reservation r) zero_reservation = Ok (stored r)"
  using dec_ptr_job [OF assms(2)] assms(1)
  by (simp add: dec_struct_def encode_reservation_def reservation_fields_def zero_reservation_def stored_def
      dec_one del: dec_members.simps(2))

lemma unmarshal_marshal_res:
  assumes "res_Job r = Some j" "job_ok j"
  shows "unmarshal_reservation (marshal_reservation r) = Ok (stored r)"
proof -
  have "json_ok (encode_reservation r)"
    using json_ok_job [OF assms(2)] assms(1) by (simp add: encode_reservation_def)
  then show ?thesis
    using decode_encode_reservation [OF assms]
    by (simp add: unmarshal_reservation_def marshal_reservation_def unmarshal_def parse_show_json)
qed

text \<open>
  A reservation survives its trip through Redis: decoding the JSON written for it gives its job, its
  worker and its times back as they are kept in text; the lease and the times in memory start afresh.
\<close>

theorem reservation_roundtrip:
  "res_Job r = Some j \<Longrightarrow> job_ok j \<Longrightarrow> unmarshal_reservation (marshal_reservation r) = Ok (stored r)"
  by (rule unmarshal_marshal_res)

definition sample_reservation :: Reservation where
  "sample_reservation = new_reservation ''w1''
     \<lparr>lease_payload = Some (marshal_job sample_job), lease_job = Some sample_job, lease_released = False\<rparr>
     sample_job (sample_clock 0)"

lemma sample_reservation_facts [simp]:
  "res_Job sample_reservation = Some sample_job" "Expiry sample_reservation = Thens sample_expiry"
  "extension sample_reservation = zero_time" "texpiry sample_reservation = sample_expiry"
  by (simp_all add: sample_reservation_def new_reservation_def zero_reservation_def Let_def sample_expiry_def)

theorem reservation_roundtrip_witness:
  "unmarshal_reservation (marshal_reservation sample_reservation) = Ok (stored sample_reservation)
   \<and> res_Job (stored sample_reservation) = Some (norm_job sample_job)"
  using reservation_roundtrip [OF sample_reservation_facts(1) sample_job_ok] by (simp add: stored_def)

section \<open>Walking through a sorted set\<close>

text \<open>A callback that always succeeds and leaves the set alone is called on every entry, in order.\<close>

lemma for_idx_fold:
  assumes "\<And>i e st. I st \<Longrightarrow> e \<in> set es \<Longrightarrow> fn i e st = (Ok (), g e st) \<and> I (g e st)" "I st"
  shows "for_idx fn i es st = (Ok (), fold g es st) \<and> I (fold g es st)"
  using assms by (induction es arbitrary: i st) (simp_all add: gosimps)

lemma Page_run:
  assumes "n \<in> set sset_names" "store_ok st"
  shows "Page db_redis n (int a) 50 fn st =
    bindS (for_idx (\<lambda>idx (m, x). fn idx (NewEntry x m)) 0 (take 50 (drop a (zset_of n st))))
      (\<lambda>_. retS (int (length (take 50 (drop a (zset_of n st)))))) st"
  using call_zrange [OF get_zset_of [OF assms(2,1)] store_ok_db [OF assms(2)]] slice_page [of a "zset_of n st"]
  by (simp add: Page_def gosimps)

lemma each_loop_fold:
  assumes "n \<in> set sset_names" "\<And>st. I st \<Longrightarrow> store_ok st \<and> zset_of n st = z"
    and "\<And>i m x st. I st \<Longrightarrow> (m, x) \<in> set z \<Longrightarrow> fn i (NewEntry x m) st = (Ok (), g (m, x) st) \<and> I (g (m, x) st)"
  shows "I st \<Longrightarrow> a \<le> length z \<Longrightarrow> length z < a + 50 * fuel \<Longrightarrow>
    each_loop fuel db_redis n (int a) fn st = (Ok (), fold g (drop a z) st) \<and> I (fold g (drop a z) st)"
proof (induction fuel arbitrary: a st)
  case (Suc f)
  let ?p = "take 50 (drop a z)"
  have "for_idx (\<lambda>idx (m, x). fn idx (NewEntry x m)) 0 ?p st = (Ok (), fold g ?p st) \<and> I (fold g ?p st)"
    using assms(3) Suc.prems(1) by (intro for_idx_fold) (auto dest!: in_set_takeD in_set_dropD)
  then have p: "Page db_redis n (int a) 50 fn st = (Ok (int (length ?p)), fold g ?p st)" "I (fold g ?p st)"
    using Page_run [OF assms(1), of st a fn] assms(2) [OF Suc.prems(1)] by (simp_all add: gosimps)
  show ?case
  proof (cases "length (drop a z) < 50")
    case True
    with p show ?thesis by (simp add: gosimps)
  next
    case False
    have "drop a z = ?p @ drop (a + 50) z"
      by (metis add.commute append_take_drop_id drop_drop)
    moreover have "each_loop f db_redis n (int (a + 50)) fn (fold g ?p st) =
        (Ok (), fold g (drop (a + 50) z) (fold g ?p st)) \<and> I (fold g (drop (a + 50) z) (fold g ?p st))"
      by (rule Suc.IH [OF p(2)]) (use Suc.prems(3) False in simp_all)
    ultimately show ?thesis
      using p(1) False by (simp add: gosimps) (metis comp_apply fold_append)
  qed
qed simp

lemma Each_fold:
  assumes "n \<in> set sset_names" "\<And>st. I st \<Longrightarrow> store_ok st \<and> zset_of n st = z"
    and "\<And>i m x st. I st \<Longrightarrow> (m, x) \<in> set z \<Longrightarrow> fn i (NewEntry x m) st = (Ok (), g (m, x) st) \<and> I (g (m, x) st)"
    and "I st" "length z < 50 * fuel"
  shows "Each fuel db_redis n fn st = (Ok (), fold g z st)"
proof -
  have "each_loop fuel db_redis n (int 0) fn st = (Ok (), fold g (drop 0 z) st) \<and> I (fold g (drop 0 z) st)"
    by (rule each_loop_fold [where I = I, OF assms(1)]) (use assms(2-5) in simp_all)
  then show ?thesis by (simp add: Each_def)
qed

section \<open>Restart\<close>

definition resv_jid :: "Reservation \<Rightarrow> string" where
  "resv_jid r = (case res_Job r of Some j \<Rightarrow> Jid j | None \<Rightarrow> [])"

text \<open>A reservation the manager wrote.\<close>

definition resv_ok :: "Reservation \<Rightarrow> bool" where
  "resv_ok r \<longleftrightarrow> (case res_Job r of Some j \<Rightarrow> job_ok j | None \<Rightarrow> False)"

definition restore :: "Reservation \<Rightarrow> ('s, 'm) mgr_scheme \<Rightarrow> ('s, 'm) mgr_scheme" where
  "restore r st = st\<lparr>workingMap := AList.update (resv_jid r) (stored r) (workingMap st)\<rparr>"

lemma norm_job_jid [simp]: "Jid (norm_job j) = Jid j"
  by (simp add: norm_job_def)

lemma update_fresh: "k \<notin> fst ` set xs \<Longrightarrow> AList.update k v xs = xs @ [(k, v)]"
  by (induction xs) auto

lemma fold_restore:
  "distinct (map resv_jid rl) \<Longrightarrow> fst ` set (workingMap st) \<inter> resv_jid ` set rl = {} \<Longrightarrow>
   fold restore rl st = st\<lparr>workingMap := workingMap st @ map (\<lambda>r. (resv_jid r, stored r)) rl\<rparr>"
proof (induction rl arbitrary: st)
  case (Cons r rl)
  have "restore r st = st\<lparr>workingMap := workingMap st @ [(resv_jid r, stored r)]\<rparr>"
    using Cons.prems by (simp add: restore_def update_fresh)
  with Cons show ?case by auto
qed simp

lemma loadWorkingSet_run:
  assumes "store_ok st" "map fst (zset_of ''working'' st) = map marshal_reservation rl"
    and "\<forall>r \<in> set rl. resv_ok r" "distinct (map resv_jid rl)" "workingMap st = []" "length rl < 50 * fuel"
  shows "loadWorkingSet fuel db_redis st = (Ok (), st\<lparr>workingMap := map (\<lambda>r. (resv_jid r, stored r)) rl\<rparr>)"
proof -
  let ?z = "zset_of ''working'' st"
  define res where "res = (\<lambda>p. case unmarshal_reservation p of Ok r \<Rightarrow> r | _ \<Rightarrow> zero_reservation)"
  define g where "g = (\<lambda>e :: string \<times> rat. \<lambda>w :: (db, 'a) mgr_scheme.
      w\<lparr>workingMap := AList.update (resv_jid (res (fst e))) (res (fst e)) (workingMap w)\<rparr>)"
  have res: "unmarshal_reservation (marshal_reservation r) = Ok (stored r)" "res (marshal_reservation r) = stored r"
    "resv_jid (stored r) = resv_jid r" "\<exists>j. res_Job (stored r) = Some j \<and> Jid j = resv_jid r" if "r \<in> set rl" for r
    using that assms(3) unmarshal_marshal_res [of r]
    by (auto simp: resv_ok_def res_def stored_def resv_jid_def split: option.splits)
  have "Each fuel db_redis ''working'' (\<lambda>_ entry.
       case unmarshal_reservation (entry_value entry) of
         Ok res \<Rightarrow> bindS (deref (res_Job res)) (\<lambda>j.
             modS (\<lambda>st. st\<lparr>workingMap := AList.update (Jid j) res (workingMap st)\<rparr>))
       | Err e \<Rightarrow> retS () | Panic p \<Rightarrow> panicS p) st = (Ok (), fold g ?z st)"
  proof (rule Each_fold [where I = "\<lambda>w. store_ok w \<and> zset_of ''working'' w = ?z"])
    fix i :: nat and m x and w :: "(db, 'a) mgr_scheme"
    assume w: "store_ok w \<and> zset_of ''working'' w = ?z" and "(m, x) \<in> set ?z"
    then have "m \<in> set (map marshal_reservation rl)" by (metis assms(2) image_eqI list.set_map fst_conv)
    then obtain r where "r \<in> set rl" "m = marshal_reservation r" by auto
    with res [of r] w show "(case unmarshal_reservation (entry_value (NewEntry x m)) of
         Ok res \<Rightarrow> bindS (deref (res_Job res)) (\<lambda>j.
             modS (\<lambda>st. st\<lparr>workingMap := AList.update (Jid j) res (workingMap st)\<rparr>))
       | Err e \<Rightarrow> retS () | Panic p \<Rightarrow> panicS p) w = (Ok (), g (m, x) w)
        \<and> store_ok (g (m, x) w) \<and> zset_of ''working'' (g (m, x) w) = ?z"
      by (auto simp: gosimps g_def deref_def NewEntry_def)
  qed (use assms(1,6) map_eq_imp_length_eq [OF assms(2)] in simp_all)
  moreover have "fold g ?z st = fold (\<lambda>p. g (p, 0)) (map fst ?z) st"
    by (simp add: fold_map comp_def g_def)
  moreover have "\<dots> = fold restore rl st"
    unfolding assms(2) fold_map
    by (intro fold_cong refl) (simp add: g_def res restore_def comp_def fun_eq_iff)
  ultimately show ?thesis
    using assms(5) fold_restore [OF assms(4), of st] by (simp add: loadWorkingSet_def)
qed

context redis_server
begin

lemma loadWorkingSet_sim: "simS (loadWorkingSet f rd) (loadWorkingSet f db_redis)"
  unfolding loadWorkingSet_def by (intro sims store_sims; simp)

end


text \<open>The state in which the sample job is being worked on.\<close>

definition working_mgr :: "db mgr" where
  "working_mgr = fetched ''w1'' ''default'' ready_mgr"

lemma working_mgr_facts:
  "store_ok working_mgr" "clock_ok working_mgr"
  "zset_of ''working'' working_mgr = [(marshal_reservation sample_reservation, time_f sample_expiry)]"
  "workingMap working_mgr = [(Jid sample_job, sample_reservation)]"
  "get_set ''paused'' (rs working_mgr) = Ok {}"
proof -
  have r: "new_reservation ''w1'' \<lparr>lease_payload = Some (hd (queue_of ''default'' ready_mgr)),
      lease_job = Some (job_of (hd (queue_of ''default'' ready_mgr))), lease_released = False\<rparr>
      (job_of (hd (queue_of ''default'' ready_mgr))) (clock ready_mgr (tick ready_mgr)) = sample_reservation"
    by (simp add: ready_mgr_facts sample_job_of sample_reservation_def)
  have w0: "workingMap ready_mgr = []"
    by (simp add: ready_mgr_def) (simp add: empty_mgr_def)
  show "store_ok working_mgr" "clock_ok working_mgr"
    unfolding working_mgr_def by (rule sample_held(1), rule sample_clock_ok)
  show "zset_of ''working'' working_mgr = [(marshal_reservation sample_reservation, time_f sample_expiry)]"
    "workingMap working_mgr = [(Jid sample_job, sample_reservation)]"
    unfolding working_mgr_def fetched_def Let_def r
    by (simp_all add: ready_mgr_facts w0 sample_job_of zset_put_def zrem_m_def)
  show "get_set ''paused'' (rs working_mgr) = Ok {}"
    unfolding working_mgr_def fetched_def Let_def ready_mgr_def empty_mgr_def
    by (simp add: put_sorted_def put_queue_def get_set_def put_zset_def put_list_def)
qed


text \<open>
  An entry of the working set that is JSON but not a reservation stops the server from starting:
  \<open>loadWorkingSet\<close> skips entries it cannot decode, but \<open>{}\<close> decodes to a reservation without a job,
  and reading its id follows a nil pointer.
\<close>

theorem corrupt_reservation_stops_boot:
  assumes "store_ok st" "zset_of ''working'' st = [(''{}'', x)]"
  shows "fst (newManager (Suc f) db_redis st) = Panic nil_pointer"
proof -
  have p: "parse_json ''{}'' = Some (JObj [])"
    using parse_show_json [of "JObj []"] by simp
  have u: "unmarshal_reservation ''{}'' = Ok zero_reservation"
    unfolding unmarshal_reservation_def unmarshal_def p by (simp add: dec_struct_def)
  let ?s = "st\<lparr>workingMap := []\<rparr>"
  have "loadWorkingSet (Suc f) db_redis ?s = (Panic nil_pointer, ?s)"
    using Page_run [OF working_sset(1), of ?s 0] assms u
    by (simp add: loadWorkingSet_def Each_def gosimps NewEntry_def deref_def zero_reservation_def panicS_def)
  then show ?thesis
    by (simp add: newManager_def gosimps ignore_def)
qed

theorem corrupt_reservation_stops_boot_witness:
  "fst (newManager 1 db_redis (put_sorted ''working'' [(''{}'', 0)] empty_mgr)) = Panic nil_pointer"
  using corrupt_reservation_stops_boot [of "put_sorted ''working'' [(''{}'', 0)] empty_mgr" 0 0] empty_mgr_ok
  by (simp add: zset_ok_def)

end
