(* ===== verification/ReapFacts.thy ===== *)
theory ReapFacts
  imports RestartFacts
begin

text \<open>
  Reaping (\<open>ReapExpiredJobs\<close> of \<open>manager/working.go\<close>): reservations whose time ran out are failed like
  jobs a worker failed, those whose worker asked for more time are extended, and one the manager does
  not know in memory is lost.
\<close>

section \<open>One entry\<close>

text \<open>
  The payload \<open>p\<close> of the working set is the reservation of \<open>jid\<close>, which the manager knows as one of the
  job \<open>j\<close> without an extension beyond \<open>t\<close>.
\<close>

definition overdue :: "time \<Rightarrow> ('s, 'm) mgr_scheme \<Rightarrow> string \<times> string \<times> Job \<Rightarrow> bool" where
  "overdue t w = (\<lambda>(p, jid, j).
     (case unmarshal_reservation p of Ok res \<Rightarrow> map_option Jid (res_Job res) = Some jid | _ \<Rightarrow> False)
     \<and> (case map_of (workingMap w) jid of Some lr \<Rightarrow> extension lr \<le> t \<and> res_Job lr = Some j | None \<Rightarrow> False)
     \<and> few_retries j)"

text \<open>
  Where the job \<open>j\<close> belongs when it failed at \<open>now\<close> and is to be tried again at \<open>t\<close>, and as which payload;
  \<open>retry: 0\<close> jobs are forgotten.
\<close>

definition destination :: "FailPayload \<Rightarrow> Job \<Rightarrow> string \<Rightarrow> time \<Rightarrow> string \<times> string" where
  "destination fl j now t =
     (let (f, j') = failed_job fl now j in
      if RetryCount f < Retry j
      then (''retries'', marshal_job (j'\<lparr>JobFailure := Some (f\<lparr>NextAt := Thens t\<rparr>)\<rparr>))
      else (''dead'', marshal_job j'))"

definition accounted :: "FailPayload \<Rightarrow> (db, 'm) mgr_scheme \<Rightarrow> Job \<Rightarrow> bool" where
  "accounted fl w j \<longleftrightarrow> Retry j = 0 \<or>
     (\<exists>now t. snd (destination fl j now t) \<in> fst ` set (zset_of (fst (destination fl j now t)) w))"

lemma destination_set: "fst (destination fl j now t) \<in> {''retries'', ''dead''}"
  by (simp add: destination_def split: prod.split)

lemma failed_job_retry [simp]: "Retry (snd (failed_job fl now j)) = Retry j"
  by (simp add: failed_job_def Let_def)

lemma zset_put_members: "fst ` set (zset_put p x z) = insert p (fst ` set z)"
  by (force simp: image_iff)

lemma settled_accounted:
  assumes "settled (snd (failed_job fl now j)) (fst (failed_job fl now j)) w w'"
  shows "accounted fl w' j"
    and "n \<in> {''retries'', ''dead''} \<Longrightarrow> fst ` set (zset_of n w) \<subseteq> fst ` set (zset_of n w')"
proof -
  obtain f j' where f: "failed_job fl now j = (f, j')" by fastforce
  then have r: "Retry j' = Retry j" by (metis failed_job_retry snd_conv)
  have s: "settled j' f w w'" using assms by (simp add: f)
  show "accounted fl w' j"
    using s unfolding accounted_def settled_def Let_def r
    by (auto simp: f destination_def zset_put_members simp del: set_zset_put split: if_splits intro!: exI [of _ now])
  show "n \<in> {''retries'', ''dead''} \<Longrightarrow> fst ` set (zset_of n w) \<subseteq> fst ` set (zset_of n w')"
    using s unfolding settled_def Let_def
    by (elim insertE; auto simp: zset_put_members simp del: set_zset_put split: if_splits; force)
qed

lemma expire_run:
  assumes "store_ok w" "clock_ok w" "map_of (workingMap w) jid = Some lr" "res_Job lr = Some j" "few_retries j"
  shows "\<exists>now w'. expire db_redis no_chains jid w = (Ok (), w'\<lparr>reap_total := reap_total w + 1\<rparr>)
    \<and> settled (snd (failed_job JobReservationExpired now j)) (fst (failed_job JobReservationExpired now j))
        (w\<lparr>workingMap := AList.delete jid (workingMap w)\<rparr>) w'"
proof -
  let ?w = "w\<lparr>workingMap := AList.delete jid (workingMap w)\<rparr>"
  have "store_ok ?w" "clock_ok ?w" using assms(1,2) by (simp_all add: clock_ok_def)
  from failure_run [OF this assms(5), of JobReservationExpired "Some (release lr)"] obtain now w' where
    w': "bindS (store_Failure db_redis) (\<lambda>_. bindS (deref (Some j)) (\<lambda>job.
      bindS (record_failure JobReservationExpired job) (\<lambda>job.
        void (through [] job (Some (release lr)) (fail_final db_redis))))) ?w = (Ok (), w')"
    "settled (snd (failed_job JobReservationExpired now j)) (fst (failed_job JobReservationExpired now j)) ?w w'"
    by blast
  have "reap_total w' = reap_total w"
    using w'(2) by (cases w; cases w') (simp add: settled_def same_env_def)
  moreover have "res_Job (release lr) = Some j"
    using assms(4) by (simp add: release_def)
  ultimately have "expire db_redis no_chains jid w = (Ok (), w'\<lparr>reap_total := reap_total w + 1\<rparr>)"
    using w'(1) assms(3)
    by (simp add: expire_def processFailure_def clearReservation_def gosimps Let_def)
  with w'(2) show ?thesis by blast
qed

section \<open>A batch\<close>

text \<open>
  What reaping the entries \<open>js\<close> (payload, jid and job of each) does: their reservations go, in Redis
  and in memory, each job is accounted for, nothing is taken from the retries and the dead set, and
  the scheduled jobs and the queues stay.
\<close>

definition reaps :: "(string \<times> string \<times> Job) list \<Rightarrow> (db, 'm) mgr_scheme \<Rightarrow> (db, 'm) mgr_scheme \<Rightarrow> bool" where
  "reaps js w w' \<longleftrightarrow> store_ok w' \<and> clock w' = clock w
     \<and> workingMap w' = filter (\<lambda>(k, r). k \<notin> (fst \<circ> snd) ` set js) (workingMap w)
     \<and> zset_of ''working'' w' = filter (\<lambda>(m, x). m \<notin> fst ` set js) (zset_of ''working'' w)
     \<and> reap_total w' = reap_total w + int (length js)
     \<and> (\<forall>(p, jid, j) \<in> set js. accounted JobReservationExpired w' j)
     \<and> (\<forall>n \<in> {''retries'', ''dead''}. fst ` set (zset_of n w) \<subseteq> fst ` set (zset_of n w'))
     \<and> zset_of ''scheduled'' w' = zset_of ''scheduled'' w
     \<and> (\<forall>k. queue_key k \<longrightarrow> queue_of k w' = queue_of k w)"

lemma accounted_mono:
  assumes "accounted fl w j" "\<forall>n \<in> {''retries'', ''dead''}. fst ` set (zset_of n w) \<subseteq> fst ` set (zset_of n w')"
  shows "accounted fl w' j"
  using assms destination_set [of fl j] unfolding accounted_def by blast

lemma reaps_Nil: "store_ok w \<Longrightarrow> reaps [] w w"
  by (simp add: reaps_def)

lemma filter_filter_pair:
  "filter (\<lambda>(k, r). k \<notin> B) (filter (\<lambda>(k, r). k \<notin> A) xs) = filter (\<lambda>(k, r). k \<notin> A \<union> B) xs"
  by (auto intro!: filter_cong)

lemma reaps_append:
  assumes "reaps js w w1" "reaps ks w1 w2"
  shows "reaps (js @ ks) w w2"
proof -
  note a = assms(1) [unfolded reaps_def] and b = assms(2) [unfolded reaps_def]
  have m: "\<forall>n \<in> {''retries'', ''dead''}. fst ` set (zset_of n w1) \<subseteq> fst ` set (zset_of n w2)"
    using b by simp
  have "\<forall>(p, jid, j) \<in> set (js @ ks). accounted JobReservationExpired w2 j"
    using a b accounted_mono [OF _ m] by auto
  moreover have "workingMap w2 = filter (\<lambda>(k, r). k \<notin> (fst \<circ> snd) ` set (js @ ks)) (workingMap w)"
    "zset_of ''working'' w2 = filter (\<lambda>(p, x). p \<notin> fst ` set (js @ ks)) (zset_of ''working'' w)"
    using a b by (simp_all only: filter_filter_pair set_append image_Un)
  moreover have "\<forall>n \<in> {''retries'', ''dead''}. fst ` set (zset_of n w) \<subseteq> fst ` set (zset_of n w2)"
    using a m by (meson subset_trans)
  moreover have "clock w2 = clock w" "reap_total w2 = reap_total w + int (length (js @ ks))"
    "zset_of ''scheduled'' w2 = zset_of ''scheduled'' w" "\<forall>k. queue_key k \<longrightarrow> queue_of k w2 = queue_of k w"
    using a b by simp_all
  ultimately show ?thesis
    using b unfolding reaps_def by blast
qed

text \<open>One reservation after the other: each is released and its job settled as expired.\<close>

definition reap_one :: "string \<times> string \<times> Job \<Rightarrow> (db, 'm) mgr_scheme \<Rightarrow> (db, 'm) mgr_scheme \<Rightarrow> bool" where
  "reap_one = (\<lambda>(p, jid, j) w w'. \<exists>now u. w' = u\<lparr>reap_total := reap_total w + 1\<rparr>
     \<and> settled (snd (failed_job JobReservationExpired now j)) (fst (failed_job JobReservationExpired now j))
         (released jid p w) u)"

fun reap_chain :: "(string \<times> string \<times> Job) list \<Rightarrow> (db, 'm) mgr_scheme \<Rightarrow> (db, 'm) mgr_scheme \<Rightarrow> bool" where
  "reap_chain [] w w' = (w' = w)"
| "reap_chain (e # es) w w' = (\<exists>w1. reap_one e w w1 \<and> reap_chain es w1 w')"

lemma reap_chain_append: "reap_chain (js @ ks) w w' \<longleftrightarrow> (\<exists>w1. reap_chain js w w1 \<and> reap_chain ks w1 w')"
  by (induction js arbitrary: w) auto

lemma reap_one_reaps:
  assumes "reap_one (p, jid, j) w w'"
  shows "reaps [(p, jid, j)] w w'"
proof -
  obtain now u where u: "w' = u\<lparr>reap_total := reap_total w + 1\<rparr>"
    "settled (snd (failed_job JobReservationExpired now j)) (fst (failed_job JobReservationExpired now j)) (released jid p w) u"
    using assms by (auto simp: reap_one_def)
  have env: "clock u = clock w" "workingMap u = AList.delete jid (workingMap w)"
    using u(2) by (cases w; cases u; simp add: settled_def same_env_def released_def put_sorted_def)+
  have "accounted JobReservationExpired w' j"
    using settled_accounted(1) [OF u(2)] by (simp add: u(1) accounted_def)
  moreover have "\<forall>n \<in> {''retries'', ''dead''}. fst ` set (zset_of n w) \<subseteq> fst ` set (zset_of n u)"
    using settled_accounted(2) [OF u(2), of "''retries''"] settled_accounted(2) [OF u(2), of "''dead''"] by simp
  ultimately show ?thesis
    using u(2) env by (auto simp: u(1) reaps_def settled_def zrem_m_def AList.delete_eq intro!: filter_cong)
qed

lemma reap_chain_reaps: "store_ok w \<Longrightarrow> reap_chain js w w' \<Longrightarrow> reaps js w w'"
proof (induction js arbitrary: w)
  case (Cons e js)
  then obtain w1 where w1: "reap_one e w w1" "reap_chain js w1 w'" by auto
  then have r: "reaps [e] w w1" using reap_one_reaps by (cases e) simp
  then have "store_ok w1" by (simp add: reaps_def)
  from reaps_append [OF r Cons.IH [OF this w1(2)]] show ?case by simp
qed (simp add: reaps_Nil)

lemma reap_entry_run:
  assumes "store_ok w" "clock_ok w" "overdue t w (p, jid, j)"
  shows "\<exists>w'. reap_entry db_redis no_chains t p (put_sorted ''working'' (zrem_m p (zset_of ''working'' w)) w) = (Ok (), w')
    \<and> reap_one (p, jid, j) w w'"
proof -
  obtain res r lr where o: "unmarshal_reservation p = Ok res" "res_Job res = Some r" "Jid r = jid"
    "map_of (workingMap w) jid = Some lr" "extension lr \<le> t" "res_Job lr = Some j" "few_retries j"
    using assms(3) by (auto simp: overdue_def split: gores.splits option.splits)
  let ?w = "put_sorted ''working'' (zrem_m p (zset_of ''working'' w)) w"
  have "store_ok ?w" "clock_ok ?w" "map_of (workingMap ?w) jid = Some lr"
    using assms(1,2) o(4) by (simp_all add: clock_ok_def zset_of_ok)
  from expire_run [OF this o(6,7)] obtain now w' where
    w': "expire db_redis no_chains jid ?w = (Ok (), w'\<lparr>reap_total := reap_total ?w + 1\<rparr>)"
    "settled (snd (failed_job JobReservationExpired now j)) (fst (failed_job JobReservationExpired now j))
        (released jid p w) w'"
    by (auto simp: released_def)
  have "reap_total ?w = reap_total w" by (simp add: put_sorted_def)
  then have run: "reap_entry db_redis no_chains t p ?w = (Ok (), w'\<lparr>reap_total := reap_total w + 1\<rparr>)"
    using o(1-5) w'(1) by (simp add: reap_entry_def gosimps deref_def)
  have "reap_one (p, jid, j) w (w'\<lparr>reap_total := reap_total w + 1\<rparr>)"
    unfolding reap_one_def case_prod_conv by (rule exI [of _ now], rule exI [of _ w'], rule conjI [OF refl w'(2)])
  with run show ?thesis by (intro exI conjI)
qed

lemma map_of_filter_key: "k \<notin> A \<Longrightarrow> map_of (filter (\<lambda>(k, r). k \<notin> A) xs) k = map_of xs k"
  by (induction xs) auto

lemma overdue_cong:
  assumes "overdue t w (p, jid, j)" "reaps js w w'" "jid \<notin> (fst \<circ> snd) ` set js"
  shows "overdue t w' (p, jid, j)"
proof -
  have "map_of (workingMap w') jid = map_of (workingMap w) jid"
    using assms(2,3) by (simp add: reaps_def map_of_filter_key)
  with assms(1) show ?thesis by (simp add: overdue_def)
qed

lemma clock_ok_reaps: "reaps js w w' \<Longrightarrow> clock_ok w' = clock_ok w"
  by (simp add: clock_ok_def reaps_def)

lemma reap_batch:
  assumes "store_ok w" "clock_ok w" "\<forall>e \<in> set js. overdue t w e"
    and "distinct (map (fst \<circ> snd) js)" "distinct (map fst js)" "fst ` set js \<subseteq> fst ` set (zset_of ''working'' w)"
  shows "\<exists>w'. remove_loop db_redis ''working'' (reap_entry db_redis no_chains t) c (map fst js) w =
      (Ok (c + int (length js)), w') \<and> reap_chain js w w'"
  using assms
proof (induction js arbitrary: c w)
  case Nil
  then show ?case by (simp add: retS_def)
next
  case (Cons e js)
  obtain p jid j where e: "e = (p, jid, j)" by (cases e)
  let ?w = "put_sorted ''working'' (zrem_m p (zset_of ''working'' w)) w"
  have "call (zrem db_redis ''working'' p) w = (Ok 1, ?w)"
    using call_zrem [OF get_zset_of [OF Cons.prems(1) working_sset(1)], of p] Cons.prems(6)
    by (simp add: put_sorted_def e)
  moreover obtain w1 where w1': "reap_entry db_redis no_chains t p ?w = (Ok (), w1)" "reap_one e w w1"
    using reap_entry_run [OF Cons.prems(1,2)] Cons.prems(3) e by (metis list.set_intros(1))
  then have w1: "reap_entry db_redis no_chains t p ?w = (Ok (), w1)" "reaps [e] w w1"
    using reap_one_reaps e by auto
  moreover obtain w2 where w2: "remove_loop db_redis ''working'' (reap_entry db_redis no_chains t) (c + 1) (map fst js) w1 =
      (Ok (c + 1 + int (length js)), w2)" "reap_chain js w1 w2"
  proof -
    have z: "zset_of ''working'' w1 = filter (\<lambda>(m, x). m \<noteq> p) (zset_of ''working'' w)"
      using w1(2) by (simp add: reaps_def e)
    have "overdue t w1 e'" if "e' \<in> set js" for e'
    proof (cases e')
      case (fields q jid' j')
      with that Cons.prems(4) have "jid' \<noteq> jid" by (auto simp: e image_iff)
      with that fields Cons.prems(3) show ?thesis
        using overdue_cong [OF _ w1(2), of t q jid' j'] by (simp add: e)
    qed
    then have "\<forall>e' \<in> set js. overdue t w1 e'" by blast
    moreover have "fst ` set js \<subseteq> fst ` set (zset_of ''working'' w1)"
    proof
      fix m assume m: "m \<in> fst ` set js"
      with Cons.prems(5) have "m \<noteq> p" by (auto simp: e)
      moreover from m Cons.prems(6) obtain x where "(m, x) \<in> set (zset_of ''working'' w)" by force
      ultimately show "m \<in> fst ` set (zset_of ''working'' w1)" unfolding z by force
    qed
    moreover have "store_ok w1" "clock_ok w1"
      using w1(2) Cons.prems(2) clock_ok_reaps [OF w1(2)] by (simp_all add: reaps_def)
    ultimately show ?thesis
      using Cons.IH [of w1 "c + 1"] Cons.prems(4,5) that by auto
  qed
  ultimately show ?case
    using w1'(2) by (auto simp: bindS_def val_or_def retS_def e add.assoc)
qed

lemma RemoveBefore_due:
  assumes "n \<in> set sset_names" "store_ok st" "time_ok t" "0 < c"
  shows "RemoveBefore db_redis n (Thens t) c fn st =
    remove_loop db_redis n fn 0 (take (nat c) (map fst (takeWhile (\<lambda>(m, x). x \<le> time_f t) (zset_of n st)))) st"
  using call_zrangebyscore [OF get_zset_of [OF assms(2,1)] store_ok_db [OF assms(2)]] assms
  by (simp add: RemoveBefore_def gosimps filter_due_takeWhile [OF zset_of_ok] limit_to_def in_range_below_fun)

lemma reap_loop_run:
  assumes "time_ok t"
  shows "store_ok w \<Longrightarrow> clock_ok w \<Longrightarrow> \<forall>e \<in> set js. overdue t w e \<Longrightarrow> distinct (map (fst \<circ> snd) js) \<Longrightarrow>
    map fst js = map fst (takeWhile (\<lambda>(m, x). x \<le> time_f t) (zset_of ''working'' w)) \<Longrightarrow> length js < 10 * fuel \<Longrightarrow>
    \<exists>w'. reap_loop fuel db_redis no_chains t w = (Ok (reap_total w'), w') \<and> reap_chain js w w'"
proof (induction fuel arbitrary: w js)
  case (Suc f)
  let ?z = "zset_of ''working'' w" and ?P = "\<lambda>(m, x). x \<le> time_f t"
  define js1 where "js1 = take 10 js"
  have z: "zset_ok ?z" using Suc.prems(1) by (rule zset_of_ok)
  have dz: "distinct (map fst (takeWhile ?P ?z))"
  proof -
    have "map fst (takeWhile ?P ?z) = take (length (takeWhile ?P ?z)) (map fst ?z)"
      by (simp only: take_map flip: takeWhile_eq_take)
    with z show ?thesis by (simp only: zset_ok_def distinct_take)
  qed
  have sub: "set js1 \<subseteq> set js" by (simp add: js1_def set_take_subset)
  obtain w1 where w1: "remove_loop db_redis ''working'' (reap_entry db_redis no_chains t) 0 (map fst js1) w =
      (Ok (0 + int (length js1)), w1)" "reap_chain js1 w w1"
  proof (rule exE [OF reap_batch [OF Suc.prems(1,2), of js1 t 0]])
    show "\<forall>e \<in> set js1. overdue t w e" using Suc.prems(3) sub by blast
    show "distinct (map (fst \<circ> snd) js1)" "distinct (map fst js1)"
      unfolding js1_def take_map [symmetric] using Suc.prems(4) dz unfolding Suc.prems(5) [symmetric]
      by (simp_all only: distinct_take)
    have "fst ` set js \<subseteq> fst ` set ?z"
      unfolding list.set_map [symmetric] Suc.prems(5) by (auto dest: set_takeWhileD)
    then show "fst ` set js1 \<subseteq> fst ` set ?z" using sub by blast
  qed blast
  note w1r = reap_chain_reaps [OF Suc.prems(1) w1(2)]
  have run: "RemoveBefore db_redis ''working'' (Thens t) 10 (reap_entry db_redis no_chains t) w =
      (Ok (int (length js1)), w1)"
    using RemoveBefore_due [OF working_sset(1) Suc.prems(1) assms, of 10] w1(1)
    by (simp add: js1_def take_map Suc.prems(5) flip: Suc.prems(5))
  show ?case
  proof (cases "length js < 10")
    case True
    then have "js1 = js" by (simp add: js1_def)
    with run True w1(2) show ?thesis by (auto simp: gosimps)
  next
    case False
    let ?k = "length js1"
    have l: "?k = 10" using False by (simp add: js1_def)
    have len: "10 \<le> length (takeWhile ?P ?z)"
      using False map_eq_imp_length_eq [OF Suc.prems(5)] by simp
    have "map fst js1 = take 10 (map fst (takeWhile ?P ?z))"
      by (simp only: js1_def Suc.prems(5) take_map [symmetric])
    also have "\<dots> = map fst (take 10 ?z)"
      using len by (subst takeWhile_eq_take) (simp add: take_map min_def)
    finally have "fst ` set js1 = set (map fst (take 10 ?z))"
      by (metis list.set_map)
    then have "zset_of ''working'' w1 = filter (\<lambda>(m, x). m \<notin> set (map fst (take 10 ?z))) ?z"
      using w1r by (simp add: reaps_def)
    then have z1: "zset_of ''working'' w1 = drop 10 ?z"
      using filter_not_prefix [of ?z 10] z by (simp add: zset_ok_def)
    have "\<exists>w'. reap_loop f db_redis no_chains t w1 = (Ok (reap_total w'), w') \<and> reap_chain (drop 10 js) w1 w'"
    proof (rule Suc.IH)
      show "store_ok w1" "clock_ok w1"
        using w1r Suc.prems(2) clock_ok_reaps [OF w1r] by (simp_all add: reaps_def)
      show "distinct (map (fst \<circ> snd) (drop 10 js))" 
        unfolding drop_map [symmetric] by (rule distinct_drop, rule Suc.prems(4))
      have "distinct (map (fst \<circ> snd) (js1 @ drop 10 js))"
        unfolding js1_def append_take_drop_id by (rule Suc.prems(4))
      then have d: "(fst \<circ> snd) ` set js1 \<inter> (fst \<circ> snd) ` set (drop 10 js) = {}"
        by (simp only: map_append distinct_append set_map)
      show "\<forall>e \<in> set (drop 10 js). overdue t w1 e"
      proof
        fix e assume e: "e \<in> set (drop 10 js)"
        then have "overdue t w e" using Suc.prems(3) by (meson in_set_dropD)
        moreover have "(fst \<circ> snd) e \<notin> (fst \<circ> snd) ` set js1" using d e by blast
        ultimately show "overdue t w1 e"
          using overdue_cong [OF _ w1r, of t "fst e" "fst (snd e)" "snd (snd e)"] by simp
      qed
      show "map fst (drop 10 js) = map fst (takeWhile ?P (zset_of ''working'' w1))"
        using Suc.prems(5) False takeWhile_drop [of 10 ?P ?z] map_eq_imp_length_eq [OF Suc.prems(5)]
        by (simp add: z1 flip: drop_map)
      show "length (drop 10 js) < 10 * f" using Suc.prems(6) False by simp
    qed
    then show ?thesis
      using run l w1(2) reap_chain_append [of js1 "drop 10 js" w]
      by (auto simp: gosimps js1_def)
  qed
qed simp

text \<open>
  C13: \<open>ReapExpiredJobs\<close> returns the number of reservations whose time is over, and each of their jobs is
  failed and accounted for: in the retries, in the dead set or, with \<open>retry: 0\<close>, forgotten.  Exactly
  these reservations go, in Redis and in memory; the retries, the dead set, the scheduled jobs and the
  queues lose nothing.  Rounds of ten are enough when there are more than a tenth as many as entries.
\<close>

theorem reap_fails_overdue_jobs:
  assumes "redis_server rd view healthy" "healthy (rs st)" "store_ok (sview view st)" "clock_ok st" "time_ok t"
    and "map fst js = map fst (filter (\<lambda>(m, x). x \<le> time_f t) (zset_of ''working'' (sview view st)))"
    and "\<forall>e \<in> set js. overdue t st e" "distinct (map (fst \<circ> snd) js)" "length js < 10 * fuel"
  shows "fst (ReapExpiredJobs fuel rd no_chains t st) = Ok (int (length js))
    \<and> reaps js ((sview view st)\<lparr>reap_total := 0\<rparr>) (sview view (snd (ReapExpiredJobs fuel rd no_chains t st)))"
proof -
  let ?w = "(sview view st)\<lparr>reap_total := 0\<rparr>"
  have "store_ok ?w" "clock_ok ?w" "\<forall>e \<in> set js. overdue t ?w e"
    using assms(3,4,7) by (simp_all add: clock_ok_def overdue_def)
  moreover have "map fst js = map fst (takeWhile (\<lambda>(m, x). x \<le> time_f t) (zset_of ''working'' ?w))"
    using assms(6) filter_due_takeWhile [OF zset_of_ok [OF assms(3)]] by simp
  ultimately obtain w' where "reap_loop fuel db_redis no_chains t ?w = (Ok (reap_total w'), w')" "reaps js ?w w'"
    using reap_loop_run [OF assms(5), of ?w js fuel] assms(8,9) reap_chain_reaps by blast
  moreover from this(2) have "reap_total w' = int (length js)" by (simp add: reaps_def)
  ultimately have "ReapExpiredJobs fuel db_redis no_chains t (sview view st) = (Ok (int (length js)), w')"
    by (simp add: ReapExpiredJobs_def gosimps)
  with \<open>reaps js ?w w'\<close> show ?thesis
    using simD [OF redis_server.ReapExpiredJobs_sim [OF assms(1) chains_sim_none] assms(2), of fuel t] by simp
qed

theorem reap_fails_overdue_jobs_witness:
  "fst (ReapExpiredJobs 1 db_redis no_chains (sample_expiry + second) working_mgr) = Ok 1
   \<and> zset_of ''working'' (snd (ReapExpiredJobs 1 db_redis no_chains (sample_expiry + second) working_mgr)) = []
   \<and> accounted JobReservationExpired
       (snd (ReapExpiredJobs 1 db_redis no_chains (sample_expiry + second) working_mgr)) sample_job"
proof -
  let ?t = "sample_expiry + second" and ?p = "marshal_reservation sample_reservation"
  have t: "time_ok ?t" "time_f sample_expiry \<le> time_f ?t" "zero_time \<le> ?t"
    using sample_expiry_ok
    by (simp_all add: time_f_mono time_ok_def sample_expiry_def sample_clock_def reserve_timeout_def zero_time_def
        DefaultTimeout_def Let_def sample_job_def SetCustom_def zero_job_def)
  have j: "few_retries sample_job"
    by (simp add: few_retries_def sample_job_def SetCustom_def zero_job_def zero_failure_def)
  have "overdue ?t working_mgr (?p, Jid sample_job, sample_job)"
    using unmarshal_marshal_res [OF sample_reservation_facts(1) sample_job_ok] t(3) j
    by (simp add: overdue_def working_mgr_facts stored_def)
  then show ?thesis
    using reap_fails_overdue_jobs [OF dbr.redis_server_axioms, of working_mgr ?t "[(?p, Jid sample_job, sample_job)]" 1]
      working_mgr_facts t by (simp add: reaps_def)
qed

section \<open>Extension and loss\<close>

lemma own_entry_due:
  assumes "store_ok st" "zset_of ''working'' st = [(p, x)]" "x \<le> time_f t" "time_ok t"
  shows "RemoveBefore db_redis ''working'' (Thens t) 10 fn st =
    bindS (val_or False (bindS (fn p) (\<lambda>_. retS True))) (\<lambda>ok. retS (if ok then 1 else 0))
      (put_sorted ''working'' [] st)"
proof -
  have "call (zrem db_redis ''working'' p) st = (Ok 1, put_sorted ''working'' [] st)"
    using call_zrem [OF get_zset_of [OF assms(1) working_sset(1)], of p] assms(2)
    by (simp add: put_sorted_def zrem_m_def)
  then show ?thesis
    using RemoveBefore_due [OF working_sset(1) assms(1,4), of 10 fn] assms(2,3)
    by (simp add: bindS_def retS_def split: prod.split gores.split)
qed


lemma sample_time_f_less: "time_f sample_expiry < time_f (sample_expiry + 100 * second)"
proof -
  have e: "sample_expiry = 1600001800 * second"
    by (simp add: sample_expiry_def sample_clock_def reserve_timeout_def DefaultTimeout_def Let_def
        sample_job_def SetCustom_def zero_job_def)
  show ?thesis
    by (simp add: e time_f_def f64_def f64_pos_def expo_def round_even_def floorlog_num)
qed



definition stale_mgr :: "db mgr" where
  "stale_mgr = put_sorted ''working'' [(marshal_reservation sample_reservation, time_f (sample_expiry + 100 * second))]
     (working_mgr\<lparr>workingMap := [(Jid sample_job, stored sample_reservation)]\<rparr>)"


end
