(* ===== verification/Lifecycle.thy ===== *)
theory Lifecycle
  imports ReapFacts "HOL-Library.Multiset"
begin

text \<open>
  The life of a job in the manager, over any sequence of its operations: an abstract board says at which
  place each job is, a job enters the board, moves on it and leaves it, and every operation of the manager
  is a sequence of such moves along the edges of a fixed graph.
\<close>

section \<open>The board\<close>

datatype place = Queued string | Waiting string | Reserved

type_synonym board = "place \<Rightarrow> string multiset"

datatype life = Enter string place | Move string place place | Leave string place

fun life_job :: "life \<Rightarrow> string" where
  "life_job (Enter jid p) = jid"
| "life_job (Move jid p q) = jid"
| "life_job (Leave jid p) = jid"

text \<open>The graph: from outside to the queues and the scheduled set, from there to a worker, and so on.\<close>

fun edge :: "life \<Rightarrow> bool" where
  "edge (Enter jid (Queued k)) = True"
| "edge (Enter jid (Waiting n)) = (n = ''scheduled'')"
| "edge (Enter jid Reserved) = False"
| "edge (Move jid (Queued k) p) = (p = Reserved)"
| "edge (Move jid (Waiting n) p) = (n \<in> {''scheduled'', ''retries''} \<and> (\<exists>k. p = Queued k))"
| "edge (Move jid Reserved p) = (p = Waiting ''retries'' \<or> p = Waiting ''dead'')"
| "edge (Leave jid p) = (p = Reserved)"

text \<open>One move, if it is possible: a job moves or leaves only from where it is.\<close>

fun life_step :: "life \<Rightarrow> board \<Rightarrow> board option" where
  "life_step (Enter jid p) b = Some (b(p := add_mset jid (b p)))"
| "life_step (Move jid p q) b = (if jid \<in># b p \<and> p \<noteq> q then Some (b(p := b p - {#jid#}, q := add_mset jid (b q))) else None)"
| "life_step (Leave jid p) b = (if jid \<in># b p then Some (b(p := b p - {#jid#})) else None)"

inductive lives :: "board \<Rightarrow> life list \<Rightarrow> board \<Rightarrow> bool" where
  lives_Nil: "lives b [] b"
| lives_Cons: "life_step l b = Some b1 \<Longrightarrow> edge l \<Longrightarrow> lives b1 ls b2 \<Longrightarrow> lives b (l # ls) b2"

inductive_cases lives_NilE: "lives b [] b'"
inductive_cases lives_ConsE: "lives b (l # ls) b'"

lemma lives_append: "lives b ls b1 \<Longrightarrow> lives b1 ms b2 \<Longrightarrow> lives b (ls @ ms) b2"
  by (induction rule: lives.induct) (auto intro: lives_Cons)

lemma lives_one: "life_step l b = Some b1 \<Longrightarrow> edge l \<Longrightarrow> lives b [l] b1"
  by (auto intro: lives.intros)

text \<open>A job sits in one place and there once, or nowhere; on a tidy board every job does.\<close>

definition sits :: "board \<Rightarrow> string \<Rightarrow> place option \<Rightarrow> bool" where
  "sits b jid pl \<longleftrightarrow> (\<forall>q. count (b q) jid = (if pl = Some q then 1 else 0))"

definition tidy :: "board \<Rightarrow> bool" where
  "tidy b \<longleftrightarrow> (\<forall>jid. \<exists>pl. sits b jid pl)"

definition on_board :: "board \<Rightarrow> string \<Rightarrow> bool" where
  "on_board b jid \<longleftrightarrow> (\<exists>p. jid \<in># b p)"

lemma sits_mem: "sits b jid pl \<Longrightarrow> jid \<in># b p \<longleftrightarrow> pl = Some p"
  by (simp add: sits_def flip: count_greater_zero_iff)

lemma sits_on_board: "sits b jid pl \<Longrightarrow> on_board b jid \<longleftrightarrow> pl \<noteq> None"
  by (auto simp: on_board_def sits_mem)

text \<open>Where a job sits after a move.\<close>

fun goes :: "life \<Rightarrow> string \<Rightarrow> place option \<Rightarrow> place option" where
  "goes (Enter i p) jid pl = (if jid = i then Some p else pl)"
| "goes (Move i p q) jid pl = (if jid = i then Some q else pl)"
| "goes (Leave i p) jid pl = (if jid = i then None else pl)"

lemma sits_step:
  assumes "life_step l b = Some b1" "sits b jid pl" "\<forall>p. l = Enter jid p \<longrightarrow> pl = None"
  shows "sits b1 jid (goes l jid pl)"
proof -
  have c: "count (b q) jid = (if pl = Some q then 1 else 0)" for q using assms(2) by (simp add: sits_def)
  show ?thesis
    using assms(1,3) by (cases l) (auto simp: sits_def c sits_mem [OF assms(2)] split: if_splits)
qed

fun entered :: "life list \<Rightarrow> string list" where
  "entered [] = []"
| "entered (Enter jid p # ls) = jid # entered ls"
| "entered (l # ls) = entered ls"

fun leaving :: "life list \<Rightarrow> string set" where
  "leaving [] = {}"
| "leaving (Leave jid p # ls) = insert jid (leaving ls)"
| "leaving (l # ls) = leaving ls"

lemma entered_append [simp]: "entered (ls @ ms) = entered ls @ entered ms"
  by (induction ls rule: entered.induct) auto

lemma leaving_append [simp]: "leaving (ls @ ms) = leaving ls \<union> leaving ms"
  by (induction ls rule: leaving.induct) auto

text \<open>If no job enters twice, the board stays tidy, and a job that entered and did not leave is on it.\<close>

lemma lives_tidy:
  "lives b ls b' \<Longrightarrow> tidy b \<Longrightarrow> distinct (entered ls) \<Longrightarrow> \<forall>jid \<in> set (entered ls). \<not> on_board b jid \<Longrightarrow>
   tidy b' \<and> (\<forall>jid. on_board b' jid \<longrightarrow> on_board b jid \<or> jid \<in> set (entered ls))
     \<and> (\<forall>jid. on_board b jid \<or> jid \<in> set (entered ls) \<longrightarrow> jid \<notin> leaving ls \<longrightarrow> on_board b' jid)"
proof (induction rule: lives.induct)
  case (lives_Cons l b b1 ls b2)
  have fresh: "\<forall>p. l = Enter jid p \<longrightarrow> pl = None" if "sits b jid pl" for jid pl
    using lives_Cons.prems(3) sits_on_board [OF that] by auto
  have step: "sits b1 jid (goes l jid pl)" if "sits b jid pl" for jid pl
    by (rule sits_step [OF lives_Cons.hyps(1) that fresh [OF that]])
  have t1: "tidy b1" using lives_Cons.prems(1) step unfolding tidy_def by blast
  have ob: "on_board b1 jid \<longleftrightarrow> jid \<in> set (entered [l]) \<or> on_board b jid \<and> jid \<notin> leaving [l]" for jid
  proof -
    obtain pl where pl: "sits b jid pl" using lives_Cons.prems(1) by (auto simp: tidy_def)
    from sits_on_board [OF pl] sits_on_board [OF step [OF pl]] show ?thesis
      using lives_Cons.hyps(1) sits_mem [OF pl] by (cases l) (auto split: if_splits)
  qed
  have e: "entered (l # ls) = entered [l] @ entered ls" "leaving (l # ls) = leaving [l] \<union> leaving ls"
    using entered_append [of "[l]" ls] leaving_append [of "[l]" ls] by simp_all
  have "distinct (entered ls)" "\<forall>jid \<in> set (entered ls). \<not> on_board b1 jid"
    using lives_Cons.prems(2,3) ob unfolding e by auto
  with lives_Cons.IH [OF t1] ob show ?case unfolding e by auto
qed auto

section \<open>The places of the manager\<close>

definition jid_of :: "string \<Rightarrow> string" where
  "jid_of p = Jid (job_of p)"

fun board_of :: "(db, 'm) mgr_scheme \<Rightarrow> board" where
  "board_of st (Queued k) = (if queue_key k then mset (map jid_of (queue_of k st)) else {#})"
| "board_of st (Waiting n) =
     (if n \<in> {''scheduled'', ''retries'', ''dead''} then mset (map (jid_of \<circ> fst) (zset_of n st)) else {#})"
| "board_of st Reserved = mset (map fst (workingMap st))"

text \<open>The jobs the manager can work with; \<open>R\<close> is the number of retries asked for when each was pushed.\<close>

definition good_job :: "(string \<Rightarrow> int) \<Rightarrow> Job \<Rightarrow> bool" where
  "good_job R x \<longleftrightarrow> job_ok x \<and> plain_jid (Jid x) \<and> queue_key (Queue x) \<and> R (Jid x) = Retry x \<and> Retry x < 300
     \<and> few_retries x"

definition good :: "(string \<Rightarrow> int) \<Rightarrow> string \<Rightarrow> bool" where
  "good R p \<longleftrightarrow> (\<exists>x. unmarshal_job p = Ok x \<and> good_job R x)"

text \<open>The reservations in memory and the working set are the same.\<close>

definition reserved_ok :: "(string \<Rightarrow> int) \<Rightarrow> (db, 'm) mgr_scheme \<Rightarrow> string \<times> Reservation \<Rightarrow> bool" where
  "reserved_ok R st = (\<lambda>(jid, res). (\<exists>j. res_Job res = Some j \<and> Jid j = jid \<and> good_job R j)
     \<and> extension res = zero_time \<and> Expiry res = Thens (texpiry res) \<and> time_ok (texpiry res)
     \<and> (marshal_reservation res, time_f (texpiry res)) \<in> set (zset_of ''working'' st))"

definition sound :: "(string \<Rightarrow> int) \<Rightarrow> (db, 'm) mgr_scheme \<Rightarrow> bool" where
  "sound R st \<longleftrightarrow> store_ok st \<and> clock_ok st
     \<and> (\<forall>k. queue_key k \<longrightarrow> list_all (good R) (queue_of k st))
     \<and> (\<forall>n \<in> {''scheduled'', ''retries''}. list_all (good R \<circ> fst) (zset_of n st))
     \<and> distinct (map fst (workingMap st)) \<and> list_all (reserved_ok R st) (workingMap st)
     \<and> fst ` set (zset_of ''working'' st) \<subseteq> marshal_reservation ` snd ` set (workingMap st)"

text \<open>No reservation mentions the id of the job of another one; the storage finds reservations by such a search.\<close>

definition unquoted :: "('s, 'm) mgr_scheme \<Rightarrow> bool" where
  "unquoted st \<longleftrightarrow> (\<forall>(jid, res) \<in> set (workingMap st). \<forall>(jid', res') \<in> set (workingMap st).
     0 < str_index (marshal_reservation res) jid' \<longrightarrow> jid = jid')"

lemma unquotedD:
  assumes "unquoted st" "(jid, res) \<in> set (workingMap st)" "(jid', res') \<in> set (workingMap st)"
    "0 < str_index (marshal_reservation res) jid'"
  shows "jid = jid'"
  using bspec [OF bspec [OF assms(1) [unfolded unquoted_def] assms(2), unfolded case_prod_conv] assms(3)] assms(4) by simp

lemma good_norm: "good_job R x \<Longrightarrow> good_job R (norm_job x)"
  by (auto simp: good_job_def norm_job_def job_ok_def few_retries_def norm_failure_def nil_empty_def failure_ok_def
      split: option.splits)

lemma good_marshal: "good_job R x \<Longrightarrow> good R (marshal_job x) \<and> jid_of (marshal_job x) = Jid x"
  using unmarshal_marshal [of x] good_norm [of R x]
  by (auto simp: good_def good_job_def jid_of_def job_of_def norm_job_def)

lemma good_job_of: "good R p \<Longrightarrow> good_job R (job_of p) \<and> unmarshal_job p = Ok (job_of p)"
  by (auto simp: good_def job_of_def)

lemma soundI:
  assumes "store_ok st" "clock_ok st" "distinct (map fst (workingMap st))"
    and "\<And>e. e \<in> set (workingMap st) \<Longrightarrow> reserved_ok R st e"
    and "fst ` set (zset_of ''working'' st) \<subseteq> marshal_reservation ` snd ` set (workingMap st)"
    and "\<And>k p. queue_key k \<Longrightarrow> p \<in> set (queue_of k st) \<Longrightarrow> good R p"
    and "\<And>n p. n = ''scheduled'' \<or> n = ''retries'' \<Longrightarrow> p \<in> fst ` set (zset_of n st) \<Longrightarrow> good R p"
  shows "sound R st"
  using assms by (auto simp: sound_def list_all_iff)

lemma soundD:
  assumes "sound R st"
  shows "store_ok st" "clock_ok st" "queue_key k \<Longrightarrow> p \<in> set (queue_of k st) \<Longrightarrow> good R p"
    "n = ''scheduled'' \<or> n = ''retries'' \<Longrightarrow> p \<in> fst ` set (zset_of n st) \<Longrightarrow> good R p"
    "distinct (map fst (workingMap st))" "e \<in> set (workingMap st) \<Longrightarrow> reserved_ok R st e"
    "p \<in> fst ` set (zset_of ''working'' st) \<Longrightarrow> \<exists>jid res. (jid, res) \<in> set (workingMap st) \<and> p = marshal_reservation res"
proof -
  show "store_ok st" "clock_ok st" "distinct (map fst (workingMap st))" using assms by (simp_all add: sound_def)
  show "queue_key k \<Longrightarrow> p \<in> set (queue_of k st) \<Longrightarrow> good R p" using assms by (simp add: sound_def list_all_iff)
  show "n = ''scheduled'' \<or> n = ''retries'' \<Longrightarrow> p \<in> fst ` set (zset_of n st) \<Longrightarrow> good R p"
    using assms by (auto simp: sound_def list_all_iff)
  show "e \<in> set (workingMap st) \<Longrightarrow> reserved_ok R st e" using assms unfolding sound_def list_all_iff by blast
  have "fst ` set (zset_of ''working'' st) \<subseteq> marshal_reservation ` snd ` set (workingMap st)" using assms by (simp add: sound_def)
  moreover assume "p \<in> fst ` set (zset_of ''working'' st)"
  ultimately have "p \<in> marshal_reservation ` snd ` set (workingMap st)" by blast
  then show "\<exists>jid res. (jid, res) \<in> set (workingMap st) \<and> p = marshal_reservation res" by force
qed

lemma sound_held:
  assumes "sound R st" "unquoted st" "map_of (workingMap st) jid = Some res"
  shows "held st jid res (marshal_reservation res) (texpiry res)" "\<exists>j. res_Job res = Some j \<and> Jid j = jid \<and> good_job R j"
proof -
  have m: "(jid, res) \<in> set (workingMap st)" using assms(3) by (rule map_of_SomeD)
  then have r: "reserved_ok R st (jid, res)" by (rule soundD(6) [OF assms(1)])
  then obtain j where j: "res_Job res = Some j" "Jid j = jid" "good_job R j" by (auto simp: reserved_ok_def)
  then show "\<exists>j. res_Job res = Some j \<and> Jid j = jid \<and> good_job R j" by blast
  have p: "0 < str_index (marshal_reservation res) jid"
    using jid_in_reservation [of j res] j by (simp add: good_job_def)
  have "e = marshal_reservation res" if "e \<in> fst ` set (zset_of ''working'' st)" "0 < str_index e jid" for e
  proof -
    from soundD(7) [OF assms(1) that(1)]
    obtain jid' res' where e: "(jid', res') \<in> set (workingMap st)" "e = marshal_reservation res'" by blast
    then have "jid' = jid" using unquotedD [OF assms(2) e(1) m] that(2) by simp
    then have "res' = res" using e(1) m assms(1) eq_key_imp_eq_value [OF soundD(5) [OF assms(1)]] by metis
    with e(2) show ?thesis by simp
  qed
  then have "own_jid jid (marshal_reservation res) (at_score (time_f (texpiry res)) (zset_of ''working'' st))"
    using p r unfolding own_jid_def set_at_score by (auto simp: reserved_ok_def) (metis fst_conv image_eqI)
  with r assms(3) show "held st jid res (marshal_reservation res) (texpiry res)"
    by (simp add: held_def reserved_ok_def)
qed

section \<open>What single changes do to the board\<close>

lemma sound_frame:
  assumes "sound R st" "store_ok st'" "clock st' = clock st" "workingMap st' = workingMap st"
    and "zset_of ''working'' st' = zset_of ''working'' st"
    and "\<And>k p. queue_key k \<Longrightarrow> p \<in> set (queue_of k st') \<Longrightarrow> p \<in> set (queue_of k st) \<or> good R p"
    and "\<And>n p. n = ''scheduled'' \<or> n = ''retries'' \<Longrightarrow> p \<in> fst ` set (zset_of n st') \<Longrightarrow> p \<in> fst ` set (zset_of n st) \<or> good R p"
  shows "sound R st'"
proof -
  have "reserved_ok R st' = reserved_ok R st" by (simp add: reserved_ok_def assms(5))
  moreover have "good R p" if "queue_key k" "p \<in> set (queue_of k st')" for k p
    using assms(6) [OF that] soundD(3) [OF assms(1) that(1)] by blast
  moreover have "good R p" if "n = ''scheduled'' \<or> n = ''retries''" "p \<in> fst ` set (zset_of n st')" for n p
    using assms(7) [OF that] soundD(4) [OF assms(1) that(1)] by blast
  ultimately show ?thesis
    using assms(1-5) by (auto simp: sound_def list_all_iff clock_ok_def)
qed

lemma board_cong:
  assumes "workingMap st' = workingMap st" "\<And>k. queue_key k \<Longrightarrow> queue_of k st' = queue_of k st"
    and "\<And>n. n = ''scheduled'' \<or> n = ''retries'' \<or> n = ''dead'' \<Longrightarrow> zset_of n st' = zset_of n st"
  shows "board_of st' = board_of st"
proof
  fix p show "board_of st' p = board_of st p" using assms by (cases p) auto
qed

lemma framed_life:
  assumes "framed st st'" "sound R st"
  shows "sound R st'" "board_of st' = board_of st" "workingMap st' = workingMap st"
proof -
  have f: "store_ok st'" "\<And>n. n \<in> set sset_names \<Longrightarrow> zset_of n st' = zset_of n st"
    "\<And>k. queue_key k \<Longrightarrow> queue_of k st' = queue_of k st"
    using assms(1) unfolding framed_def by blast+
  note w = framed_mgr [OF assms(1)]
  show "workingMap st' = workingMap st" using w by blast
  have z: "zset_of n st' = zset_of n st" if "n = ''scheduled'' \<or> n = ''retries'' \<or> n = ''dead'' \<or> n = ''working''" for n
    using f(2) that by (auto simp: sset_names_def)
  show "sound R st'"
  proof (rule sound_frame [OF assms(2) f(1)])
    show "clock st' = clock st" "workingMap st' = workingMap st" using w by blast+
    show "zset_of ''working'' st' = zset_of ''working'' st" by (simp add: z)
  qed (use f(3) z in auto)
  show "board_of st' = board_of st"
    by (rule board_cong) (use w f(3) z in auto)
qed

lemma same_env_mgr: "same_env st st' \<Longrightarrow> workingMap st' = workingMap st \<and> clock st' = clock st"
  for st :: "('s, 'm) mgr_scheme"
  by (cases st; cases st') (simp add: same_env_def)

lemma good_enqueued_at: "good_job R x \<Longrightarrow> good_job R (x\<lparr>EnqueuedAt := t\<rparr>)"
  by (simp add: good_job_def job_ok_def few_retries_def)

lemma enqueued_life:
  assumes "sound R st" "good_job R x"
  shows "sound R (enqueued x st)"
    "board_of (enqueued x st) = (board_of st)(Queued (Queue x) := add_mset (Jid x) (board_of st (Queued (Queue x))))"
    "workingMap (enqueued x st) = workingMap st"
proof -
  have qk: "queue_key (Queue x)" using assms(2) by (simp add: good_job_def)
  let ?p = "marshal_job (x\<lparr>EnqueuedAt := Thens (clock st (tick st))\<rparr>)"
  have g: "good R ?p" "jid_of ?p = Jid x"
    using good_marshal [OF good_enqueued_at [OF assms(2)]] by simp_all
  have q: "queue_of k (enqueued x st) = (if k = Queue x then queue_of k st @ [?p] else queue_of k st)" if "queue_key k" for k
    by (rule enqueued_facts(3) [OF qk that])
  have z: "zset_of n (enqueued x st) = zset_of n st" if "n \<in> set sset_names" for n
    by (rule enqueued_facts(2) [OF qk that])
  show w: "workingMap (enqueued x st) = workingMap st" using same_env_mgr [OF enqueued_facts(6) [OF qk]] ..
  show "sound R (enqueued x st)"
  proof (rule sound_frame [OF assms(1) enqueued_facts(1) [OF qk soundD(1) [OF assms(1)]] enqueued_facts(5) [OF qk] w])
    show "zset_of ''working'' (enqueued x st) = zset_of ''working'' st" by (rule z) simp
    fix k p assume "queue_key k" "p \<in> set (queue_of k (enqueued x st))"
    then show "p \<in> set (queue_of k st) \<or> good R p" using g(1) by (auto simp: q split: if_splits)
  qed (use z in \<open>auto simp: sset_names_def\<close>)
  show "board_of (enqueued x st) = (board_of st)(Queued (Queue x) := add_mset (Jid x) (board_of st (Queued (Queue x))))"
  proof
    fix p show "board_of (enqueued x st) p = ((board_of st)(Queued (Queue x) := add_mset (Jid x) (board_of st (Queued (Queue x))))) p"
      using g(2) w qk z by (cases p) (auto simp: q sset_names_def)
  qed
qed

lemma mset_zset_put:
  "p \<notin> fst ` set z \<Longrightarrow> mset (map f (zset_put p x z)) = add_mset (f (p, x)) (mset (map f z))"
proof -
  have "mset (zins p x z) = add_mset (p, x) (mset z)" by (induction p x z rule: zins.induct) auto
  then show "p \<notin> fst ` set z \<Longrightarrow> mset (map f (zset_put p x z)) = add_mset (f (p, x)) (mset (map f z))"
    by (simp add: zset_put_def zrem_m_absent)
qed

text \<open>A job put into one of the sorted sets where it was not.\<close>

definition shelved :: "string \<Rightarrow> string \<Rightarrow> (db, 'm) mgr_scheme \<Rightarrow> (db, 'm) mgr_scheme \<Rightarrow> bool" where
  "shelved n p st st' \<longleftrightarrow> n \<in> {''scheduled'', ''retries'', ''dead''} \<and> store_ok st' \<and> same_env st st'
     \<and> (\<exists>x. zset_of n st' = zset_put p x (zset_of n st))
     \<and> (\<forall>m \<in> set sset_names. m \<noteq> n \<longrightarrow> zset_of m st' = zset_of m st)
     \<and> (\<forall>k. queue_key k \<longrightarrow> queue_of k st' = queue_of k st)"

lemma shelved_life:
  assumes "shelved n p st st'" "sound R st" "n = ''dead'' \<or> good R p" "\<not> on_board (board_of st) (jid_of p)"
  shows "sound R st'" "board_of st' = (board_of st)(Waiting n := add_mset (jid_of p) (board_of st (Waiting n)))"
    "workingMap st' = workingMap st"
proof -
  obtain x where n: "n = ''scheduled'' \<or> n = ''retries'' \<or> n = ''dead''" and x: "zset_of n st' = zset_put p x (zset_of n st)"
    and ok: "store_ok st'" "same_env st st'"
    and z: "\<And>m. m \<in> set sset_names \<Longrightarrow> m \<noteq> n \<Longrightarrow> zset_of m st' = zset_of m st"
    and q: "\<And>k. queue_key k \<Longrightarrow> queue_of k st' = queue_of k st"
    using assms(1) by (auto simp: shelved_def)
  note w = same_env_mgr [OF ok(2)]
  then show "workingMap st' = workingMap st" by blast
  have zw: "zset_of ''working'' st' = zset_of ''working'' st" using n z [of "''working''"] by auto
  have zo: "m = ''scheduled'' \<or> m = ''retries'' \<or> m = ''dead'' \<Longrightarrow> m \<noteq> n \<Longrightarrow> zset_of m st' = zset_of m st" for m
    using z [of m] by (auto simp: sset_names_def)
  show "sound R st'"
  proof (rule sound_frame [OF assms(2) ok(1)])
    fix m r assume m: "m = ''scheduled'' \<or> m = ''retries''" "r \<in> fst ` set (zset_of m st')"
    show "r \<in> fst ` set (zset_of m st) \<or> good R r"
    proof (cases "m = n")
      case True
      with m x assms(3) show ?thesis by (auto simp: zset_put_members simp del: set_zset_put)
    qed (use m zo [of m] in auto)
  qed (use w q zw in auto)
  have "p \<notin> fst ` set (zset_of n st)"
  proof
    assume "p \<in> fst ` set (zset_of n st)"
    then have "jid_of p \<in># board_of st (Waiting n)" using n by force
    with assms(4) show False unfolding on_board_def by blast
  qed
  from mset_zset_put [OF this, of "jid_of \<circ> fst"]
  have m: "board_of st' (Waiting n) = add_mset (jid_of p) (board_of st (Waiting n))" using n x by auto
  show "board_of st' = (board_of st)(Waiting n := add_mset (jid_of p) (board_of st (Waiting n)))"
  proof
    fix pl show "board_of st' pl = ((board_of st)(Waiting n := add_mset (jid_of p) (board_of st (Waiting n)))) pl"
      using m w q zo by (cases pl) auto
  qed
qed

section \<open>Releasing and settling\<close>

lemma payload_own:
  assumes "sound R st" "(k, r) \<in> set (workingMap st)"
  shows "0 < str_index (marshal_reservation r) k"
proof -
  obtain j where "res_Job r = Some j" "Jid j = k" "good_job R j"
    using soundD(6) [OF assms] by (auto simp: reserved_ok_def)
  then show ?thesis using jid_in_reservation [of j r] by (simp add: good_job_def)
qed

lemma released_life:
  assumes "sound R st" "unquoted st" "map_of (workingMap st) jid = Some res" "p = marshal_reservation res"
  shows "sound R (released jid p st)" "unquoted (released jid p st)" "jid \<in># board_of st Reserved"
    "board_of (released jid p st) = (board_of st)(Reserved := board_of st Reserved - {#jid#})"
proof -
  let ?w = "workingMap st" and ?st = "released jid p st"
  have m: "(jid, res) \<in> set ?w" using assms(3) by (rule map_of_SomeD)
  then show "jid \<in># board_of st Reserved" by force
  have d: "distinct (map fst ?w)" by (rule soundD(5) [OF assms(1)])
  have wm: "set (workingMap ?st) = {e \<in> set ?w. fst e \<noteq> jid}" by (auto simp: AList.delete_eq)
  then show "unquoted ?st" using assms(2) unfolding unquoted_def by auto
  have f: "map fst (workingMap ?st) = remove1 jid (map fst ?w)"
    by (simp add: delete_keys distinct_remove1_removeAll [OF d])
  have ne: "marshal_reservation r \<noteq> p" if "(k, r) \<in> set ?w" "k \<noteq> jid" for k r
  proof
    assume "marshal_reservation r = p"
    then have "0 < str_index (marshal_reservation res) k" using payload_own [OF assms(1) that(1)] assms(4) by simp
    with unquotedD [OF assms(2) m that(1)] that(2) show False by simp
  qed
  have ro: "reserved_ok R ?st e" if "e \<in> set (workingMap ?st)" for e
  proof -
    from that have "e \<in> set ?w" "fst e \<noteq> jid" unfolding wm by blast+
    then obtain k r where e: "e = (k, r)" "(k, r) \<in> set ?w" "k \<noteq> jid" by (metis prod.collapse)
    have "set (zset_of ''working'' ?st) = {e \<in> set (zset_of ''working'' st). fst e \<noteq> p}" by (auto simp: zrem_m_def)
    with soundD(6) [OF assms(1) e(2)] ne [OF e(2,3)] show ?thesis
      unfolding e(1) reserved_ok_def case_prod_conv by simp
  qed
  have sub: "fst ` set (zset_of ''working'' ?st) \<subseteq> marshal_reservation ` snd ` set (workingMap ?st)"
  proof
    fix x assume "x \<in> fst ` set (zset_of ''working'' ?st)"
    then have x: "x \<noteq> p" "x \<in> fst ` set (zset_of ''working'' st)" by (auto simp: zrem_m_def)
    from soundD(7) [OF assms(1) x(2)] obtain k r where r: "(k, r) \<in> set ?w" "x = marshal_reservation r" by blast
    have "k \<noteq> jid" using r m x(1) assms(4) eq_key_imp_eq_value [OF d] by metis
    with r wm show "x \<in> marshal_reservation ` snd ` set (workingMap ?st)" by force
  qed
  show "sound R ?st"
  proof (rule soundI [OF released_facts(1) [OF soundD(1) [OF assms(1)]] _ _ ro sub])
    show "clock_ok ?st" using soundD(2) [OF assms(1)] by (simp add: clock_ok_def)
    show "distinct (map fst (workingMap ?st))" unfolding f by (rule distinct_remove1 [OF d])
    show "good R x" if "queue_key k" "x \<in> set (queue_of k ?st)" for k x
      using soundD(3) [OF assms(1) that(1), of x] that by simp
    show "good R x" if "n = ''scheduled'' \<or> n = ''retries''" "x \<in> fst ` set (zset_of n ?st)" for n x
      using soundD(4) [OF assms(1) that(1), of x] that by (auto split: if_splits)
  qed
  show "board_of ?st = (board_of st)(Reserved := board_of st Reserved - {#jid#})"
  proof
    fix q show "board_of ?st q = ((board_of st)(Reserved := board_of st Reserved - {#jid#})) q"
      using f by (cases q) (simp_all del: released_facts(4) add: mset_remove1 del: mset_map)
  qed
qed

lemma good_failed:
  assumes "good_job R j" "failed_job fl now j = (f, x)" "RetryCount f < Retry j"
  shows "good_job R (x\<lparr>JobFailure := Some (f\<lparr>NextAt := t\<rparr>)\<rparr>)"
proof -
  have x: "x = j\<lparr>JobFailure := Some f\<rparr>" using assms(2) by (auto simp: failed_job_def Let_def)
  have f: "0 \<le> RetryCount f" "RetryCount f \<le> 300"
    using failed_job_count [OF _ assms(2)] assms(1) by (simp_all add: good_job_def)
  with assms(1,3) show ?thesis
    by (simp add: x good_job_def job_ok_def few_retries_def failure_ok_def int64_ok_def)
qed

lemma jid_of_failed:
  assumes "good_job R j" "failed_job fl now j = (f, x)"
  shows "jid_of (marshal_job x) = Jid j"
proof -
  have x: "x = j\<lparr>JobFailure := Some f\<rparr>" using assms(2) by (auto simp: failed_job_def Let_def)
  have "0 \<le> RetryCount f" "RetryCount f \<le> 300"
    using failed_job_count [OF _ assms(2)] assms(1) by (simp_all add: good_job_def)
  with assms(1) have "job_ok x"
    by (simp add: x good_job_def job_ok_def failure_ok_def int64_ok_def)
  then show ?thesis using unmarshal_marshal [of x] by (simp add: jid_of_def job_of_def x)
qed

lemma settled_life:
  assumes "settled (snd (failed_job fl now j)) (fst (failed_job fl now j)) w w'" "sound R w" "good_job R j"
    and "\<not> on_board (board_of w) (Jid j)"
  shows "sound R w'" "workingMap w' = workingMap w"
    "if Retry j = 0 then board_of w' = board_of w
     else \<exists>n \<in> {''retries'', ''dead''}. board_of w' = (board_of w)(Waiting n := add_mset (Jid j) (board_of w (Waiting n)))"
proof -
  obtain f x where f: "failed_job fl now j = (f, x)" by fastforce
  have r: "Retry x = Retry j" using failed_job_retry [of fl now j] by (simp add: f)
  note s = assms(1) [unfolded settled_def f fst_conv snd_conv r]
  note env = same_env_mgr [of w w']
  show w: "workingMap w' = workingMap w" using s env by blast
  have q: "\<forall>k. queue_key k \<longrightarrow> queue_of k w' = queue_of k w" using s by blast
  have "sound R w' \<and> (if Retry j = 0 then board_of w' = board_of w
     else \<exists>n \<in> {''retries'', ''dead''}. board_of w' = (board_of w)(Waiting n := add_mset (Jid j) (board_of w (Waiting n))))"
  proof (cases "Retry j = 0")
    case True
    then have z: "zset_of n w' = zset_of n w" if "n \<in> set sset_names" for n
      using s that by (auto simp: sset_names_def)
    then have "framed w w'" using s by (simp add: framed_def)
    from framed_life [OF this assms(2)] True show ?thesis by simp
  next
    case nz: False
    show ?thesis
    proof (cases "RetryCount f < Retry j")
      case True
      obtain t where z: "\<exists>y. zset_of ''retries'' w' =
          zset_put (marshal_job (x\<lparr>JobFailure := Some (f\<lparr>NextAt := Thens t\<rparr>)\<rparr>)) y (zset_of ''retries'' w)"
        using s nz True by (auto simp: Let_def)
      let ?p = "marshal_job (x\<lparr>JobFailure := Some (f\<lparr>NextAt := Thens t\<rparr>)\<rparr>)"
      have g: "good R ?p" "jid_of ?p = Jid j"
        using good_marshal [OF good_failed [OF assms(3) f True]] f by (auto simp: failed_job_def Let_def)
      have "shelved ''retries'' ?p w w'" using s z nz True q by (auto simp: shelved_def sset_names_def)
      from shelved_life [OF this assms(2)] g assms(4) nz show ?thesis by auto
    next
      case False
      have "shelved ''dead'' (marshal_job x) w w'" using s nz False q by (auto simp: shelved_def sset_names_def)
      from shelved_life [OF this assms(2)] jid_of_failed [OF assms(3) f] assms(4) nz show ?thesis by auto
    qed
  qed
  then show "sound R w'" "if Retry j = 0 then board_of w' = board_of w
     else \<exists>n \<in> {''retries'', ''dead''}. board_of w' = (board_of w)(Waiting n := add_mset (Jid j) (board_of w (Waiting n)))"
    by blast+
qed

end
