(* ===== verification/JobLife.thy ===== *)
theory JobLife
  imports Lifecycle
begin

text \<open>
  Every operation of the manager as moves on the board, and what follows for any sequence of operations:
  no job is lost and no job is in two places.
\<close>

section \<open>The operations on the board\<close>

lemma unquoted_cong: "workingMap st' = workingMap st \<Longrightarrow> unquoted st' = unquoted st"
  by (simp add: unquoted_def)

lemma reap_total_life [simp]:
  "sound R (st\<lparr>reap_total := i\<rparr>) = sound R st" "board_of (st\<lparr>reap_total := i\<rparr>) = board_of st"
  "unquoted (st\<lparr>reap_total := i\<rparr>) = unquoted st"
proof -
  show "board_of (st\<lparr>reap_total := i\<rparr>) = board_of st" by (rule board_cong) simp_all
  show "sound R (st\<lparr>reap_total := i\<rparr>) = sound R st"
    by (simp add: sound_def reserved_ok_def clock_ok_def)
qed (simp add: unquoted_def)

text \<open>A reserved job whose reservation goes and which is then settled.\<close>

lemma fail_life:
  assumes "sound R st" "unquoted st" "tidy (board_of st)" "map_of (workingMap st) jid = Some res" "res_Job res = Some j"
    and "settled (snd (failed_job fl now j)) (fst (failed_job fl now j)) (released jid (marshal_reservation res) st) w"
  shows "sound R w" "unquoted w" "workingMap w = AList.delete jid (workingMap st)"
    "\<exists>ls. lives (board_of st) ls (board_of w) \<and> entered ls = [] \<and> leaving ls \<subseteq> {jid. R jid = 0}"
proof -
  let ?b = "board_of st" and ?w = "released jid (marshal_reservation res) st"
  have j: "Jid j = jid" "good_job R j" using sound_held(2) [OF assms(1,2,4)] assms(5) by auto
  note rl = released_life [OF assms(1,2,4) refl]
  have leave: "life_step (Leave jid Reserved) ?b = Some (board_of ?w)" using rl(3) by (simp only: rl(4) life_step.simps if_True)
  obtain pl where pl: "sits ?b jid pl" using assms(3) by (auto simp: tidy_def)
  have "sits (board_of ?w) jid None" using sits_step [OF leave pl] by simp
  then have off: "\<not> on_board (board_of ?w) (Jid j)" using sits_on_board j(1) by blast
  note se = settled_life [OF assms(6) rl(1) j(2) off]
  show "sound R w" by (rule se(1))
  show "unquoted w" using rl(2) unquoted_cong [OF se(2)] by simp
  show "workingMap w = AList.delete jid (workingMap st)" using se(2) by simp
  show "\<exists>ls. lives ?b ls (board_of w) \<and> entered ls = [] \<and> leaving ls \<subseteq> {jid. R jid = 0}"
  proof (cases "Retry j = 0")
    case True
    then have "board_of w = board_of ?w" using se(3) by simp
    then have "lives ?b [Leave jid Reserved] (board_of w)" using leave by (intro lives_one) simp_all
    with True j show ?thesis by (intro exI [of _ "[Leave jid Reserved]"]) (simp add: good_job_def)
  next
    case False
    then obtain n where n: "n = ''retries'' \<or> n = ''dead''"
      "board_of w = (board_of ?w)(Waiting n := add_mset jid (board_of ?w (Waiting n)))"
      using se(3) unfolding j(1) if_not_P [OF False] by blast
    have "life_step (Move jid Reserved (Waiting n)) ?b = Some (board_of w)"
      unfolding n(2) rl(4) using rl(3) by (simp del: board_of.simps)
    then have "lives ?b [Move jid Reserved (Waiting n)] (board_of w)" using n(1) by (intro lives_one) auto
    then show ?thesis by (intro exI [of _ "[Move jid Reserved (Waiting n)]"]) simp
  qed
qed

lemma fetched_life:
  assumes "sound R st" "tidy (board_of st)" "queue_key k" "queue_of k st \<noteq> []" "unquoted (fetched wid k st)"
  shows "sound R (fetched wid k st)"
    "lives (board_of st) [Move (jid_of (hd (queue_of k st))) (Queued k) Reserved] (board_of (fetched wid k st))"
proof -
  let ?st = "fetched wid k st" and ?p = "hd (queue_of k st)" and ?b = "board_of st"
  define j where "j = job_of ?p"
  define res where "res = new_reservation wid \<lparr>lease_payload = Some ?p, lease_job = Some j, lease_released = False\<rparr> j
    (clock st (tick st))"
  let ?q = "marshal_reservation res" and ?x = "time_f (texpiry res)"
  have g: "good R ?p" using soundD(3) [OF assms(1,3)] assms(4) by (simp add: hd_in_set)
  then have j: "good_job R j" using good_job_of by (simp add: j_def)
  have jid: "jid_of ?p = Jid j" by (simp add: jid_of_def j_def)
  have mem: "Jid j \<in># ?b (Queued k)" using assms(3,4) by (cases "queue_of k st") (simp_all flip: jid)
  have fresh: "Jid j \<notin> fst ` set (workingMap st)"
  proof -
    obtain pl where pl: "sits ?b (Jid j) pl" using assms(2) by (auto simp: tidy_def)
    from mem have "\<not> Jid j \<in># ?b Reserved" unfolding sits_mem [OF pl] by simp
    then show ?thesis by simp
  qed
  have st: "workingMap ?st = workingMap st @ [(Jid j, res)]"
    "zset_of ''working'' ?st = zset_put ?q ?x (zset_of ''working'' st)"
    "\<And>n. n \<in> set sset_names \<Longrightarrow> n \<noteq> ''working'' \<Longrightarrow> zset_of n ?st = zset_of n st"
    "\<And>k'. queue_key k' \<Longrightarrow> queue_of k' ?st = (if k' = k then tl (queue_of k st) else queue_of k' st)"
    "clock ?st = clock st" "store_ok ?st"
    using assms(3) update_fresh [OF fresh, of res] soundD(1) [OF assms(1)]
    by (simp_all add: fetched_def Let_def zset_of_ok flip: j_def) (simp_all add: res_def)
  have new: "?q \<noteq> marshal_reservation r" if "(i, r) \<in> set (workingMap st)" for i r
  proof
    assume "?q = marshal_reservation r"
    moreover have "0 < str_index ?q (Jid j)"
      using jid_in_reservation [of j res] j by (simp add: res_def good_job_def)
    ultimately have "i = Jid j" using that by (intro unquotedD [OF assms(5), of i r "Jid j" res]) (auto simp: st(1))
    with that fresh show False by force
  qed
  have ex: "time_ok (texpiry res)"
  proof -
    have "0 \<le> reserve_timeout j" "reserve_timeout j \<le> 86400" by (simp_all add: reserve_timeout_def Let_def)
    then show ?thesis using soundD(2) [OF assms(1)] by (simp add: res_def clock_ok_time)
  qed
  have zw: "set (zset_of ''working'' ?st) = insert (?q, ?x) {(m, y) \<in> set (zset_of ''working'' st). m \<noteq> ?q}"
    by (simp add: st(2))
  have ro: "reserved_ok R ?st e" if "e \<in> set (workingMap ?st)" for e
  proof (cases "e \<in> set (workingMap st)")
    case True
    then obtain i r where e: "e = (i, r)" "(i, r) \<in> set (workingMap st)" by (metis surj_pair)
    from soundD(6) [OF assms(1) e(2)] new [OF e(2)] show ?thesis
      unfolding e(1) reserved_ok_def case_prod_conv zw by simp
  next
    case False
    then have "e = (Jid j, res)" using that by (simp add: st(1))
    then show ?thesis using j ex unfolding reserved_ok_def zw
      by (simp add: res_def new_reservation_def Let_def zero_reservation_def)
  qed
  show "sound R ?st"
  proof (rule soundI [OF st(6) _ _ ro])
    show "clock_ok ?st" using soundD(2) [OF assms(1)] by (simp add: clock_ok_def st(5))
    show "distinct (map fst (workingMap ?st))" using soundD(5) [OF assms(1)] fresh by (simp add: st(1))
    show "fst ` set (zset_of ''working'' ?st) \<subseteq> marshal_reservation ` snd ` set (workingMap ?st)"
    proof
      fix x assume "x \<in> fst ` set (zset_of ''working'' ?st)"
      then have "x = ?q \<or> x \<in> fst ` set (zset_of ''working'' st)" unfolding zw by auto
      then show "x \<in> marshal_reservation ` snd ` set (workingMap ?st)"
        using soundD(7) [OF assms(1), of x] by (force simp: st(1))
    qed
    show "good R x" if "queue_key k'" "x \<in> set (queue_of k' ?st)" for k' x
      using soundD(3) [OF assms(1) that(1), of x] that st(4) [OF that(1)] by (auto split: if_splits dest: list.set_sel(2) [OF assms(4)])
    show "good R x" if "n = ''scheduled'' \<or> n = ''retries''" "x \<in> fst ` set (zset_of n ?st)" for n x
    proof -
      have "zset_of n ?st = zset_of n st" using that(1) st(3) [of n] by (auto simp: sset_names_def)
      with soundD(4) [OF assms(1) that(1), of x] that(2) show ?thesis by simp
    qed
  qed
  have "board_of ?st = ?b(Queued k := ?b (Queued k) - {#Jid j#}, Reserved := add_mset (Jid j) (?b Reserved))"
  proof
    fix pl show "board_of ?st pl = (?b(Queued k := ?b (Queued k) - {#Jid j#}, Reserved := add_mset (Jid j) (?b Reserved))) pl"
    proof (cases pl)
      case (Queued k')
      have "queue_of k st = ?p # tl (queue_of k st)" using assms(4) by simp
      then have "mset (map jid_of (queue_of k st)) = add_mset (Jid j) (mset (map jid_of (tl (queue_of k st))))"
        using jid by (metis list.simps(9) mset.simps(2))
      with Queued assms(3) st(4) show ?thesis by simp
    qed (use st(1) st(3) in \<open>auto simp: sset_names_def\<close>)
  qed
  then show "lives ?b [Move (jid_of ?p) (Queued k) Reserved] (board_of ?st)"
    unfolding jid using mem by (intro lives_one) simp_all
qed

text \<open>The due entries of a sorted set go to the queues of their jobs, one after the other.\<close>

lemma taken_life:
  assumes "sound R st" "n = ''scheduled'' \<or> n = ''retries''" "zset_of n st = (p, x) # z"
  shows "sound R (put_sorted n z st)"
    "board_of (put_sorted n z st) = (board_of st)(Waiting n := board_of st (Waiting n) - {#jid_of p#})"
    "jid_of p \<in># board_of st (Waiting n)"
proof -
  have n: "n \<in> set sset_names" "n \<noteq> ''working''" using assms(2) by auto
  have z: "zset_ok z" using zset_of_ok [OF soundD(1) [OF assms(1)], of n] assms(3) by (simp add: zset_ok_def)
  have q: "queue_of k (put_sorted n z st) = queue_of k st" if "queue_key k" for k
    using that n(1) by simp
  show "sound R (put_sorted n z st)"
  proof (rule sound_frame [OF assms(1)])
    show "store_ok (put_sorted n z st)" using soundD(1) [OF assms(1)] n(1) z by simp
    show "zset_of ''working'' (put_sorted n z st) = zset_of ''working'' st" using n(2) by simp
    fix m r assume "r \<in> fst ` set (zset_of m (put_sorted n z st))"
    then show "r \<in> fst ` set (zset_of m st) \<or> good R r" using assms(3) by (auto split: if_splits)
  qed (simp_all add: q)
  show "jid_of p \<in># board_of st (Waiting n)" using assms(2,3) by auto
  show "board_of (put_sorted n z st) = (board_of st)(Waiting n := board_of st (Waiting n) - {#jid_of p#})"
  proof
    fix pl show "board_of (put_sorted n z st) pl = ((board_of st)(Waiting n := board_of st (Waiting n) - {#jid_of p#})) pl"
      using assms(2,3) q by (cases pl) auto
  qed
qed

lemma moved_life:
  assumes "sound R st" "n = ''scheduled'' \<or> n = ''retries''" "zset_of n st = (p, x) # z"
    and "st' = enqueued (job_of p) (put_sorted n z st)"
  shows "sound R st'" "workingMap st' = workingMap st"
    "lives (board_of st) [Move (jid_of p) (Waiting n) (Queued (Queue (job_of p)))] (board_of st')"
proof -
  note t = taken_life [OF assms(1-3)]
  have "good R p" using soundD(4) [OF assms(1,2), of p] assms(3) by simp
  then have g: "good_job R (job_of p)" using good_job_of by blast
  note e = enqueued_life [OF t(1) g]
  show "sound R st'" "workingMap st' = workingMap st" using e(1,3) by (simp_all add: assms(4))
  have "life_step (Move (jid_of p) (Waiting n) (Queued (Queue (job_of p)))) (board_of st) = Some (board_of st')"
    unfolding assms(4) e(2) t(2) using t(3) by (simp add: jid_of_def del: board_of.simps)
  then show "lives (board_of st) [Move (jid_of p) (Waiting n) (Queued (Queue (job_of p)))] (board_of st')"
    using assms(2) by (intro lives_one) auto
qed

lemma drained_life:
  assumes "n = ''scheduled'' \<or> n = ''retries''"
  shows "sound R st \<Longrightarrow> zset_of n st = zd @ zr \<Longrightarrow> st' = put_sorted n zr (fold enqueue_payload (map fst zd) st) \<Longrightarrow>
    sound R st' \<and> workingMap st' = workingMap st
    \<and> (\<exists>ls. lives (board_of st) ls (board_of st') \<and> entered ls = [] \<and> leaving ls = {})"
proof (induction zd arbitrary: st)
  case Nil
  have "n \<in> set sset_names" using assms by auto
  then have "st' = st" using Nil put_sorted_same [OF soundD(1) [OF Nil(1)], of n] by simp
  with Nil(1) lives_Nil show ?case by (metis entered.simps(1) leaving.simps(1))
next
  case (Cons e zd)
  obtain p x where e: "e = (p, x)" by (cases e)
  have n: "n \<in> set sset_names" using assms by auto
  have g: "good R r" if "r \<in> set (map fst (e # zd))" for r
    using soundD(4) [OF Cons.prems(1) assms, of r] that Cons.prems(2) by auto
  have qk: "queue_key (Queue (job_of p))" using good_job_of [OF g [of p]] by (simp add: e good_job_def)
  have sub: "set (map fst zd) \<subseteq> queueable"
  proof
    fix r assume "r \<in> set (map fst zd)"
    then have "good R r" by (intro g) simp
    from good_job_of [OF this] show "r \<in> queueable" by (auto simp: queueable_def good_job_def)
  qed
  define s1 where "s1 = enqueued (job_of p) (put_sorted n (zd @ zr) st)"
  note m = moved_life [OF Cons.prems(1) assms _ s1_def, of x]
  have z1: "zset_of n st = (p, x) # zd @ zr" using Cons.prems(2) e by simp
  have s1: "s1 = put_sorted n (zd @ zr) (enqueued (job_of p) st)"
    unfolding s1_def by (rule enqueued_commute [OF qk n])
  have "store_ok (enqueued (job_of p) st)" using qk soundD(1) [OF Cons.prems(1)] by simp
  from fold_drains [OF schedule_entry_drains [OF n] sub this]
  have "put_sorted n zr (fold enqueue_payload (map fst zd) s1) = st'"
    unfolding s1 Cons.prems(3) e by simp
  from Cons.IH [OF m(1) [OF z1] _ this [symmetric]]
  have "sound R st' \<and> workingMap st' = workingMap s1
    \<and> (\<exists>ls. lives (board_of s1) ls (board_of st') \<and> entered ls = [] \<and> leaving ls = {})"
    by (simp add: s1)
  then obtain ls where "sound R st'" "workingMap st' = workingMap st" "lives (board_of s1) ls (board_of st')"
    "entered ls = []" "leaving ls = {}" using m(2) [OF z1] by auto
  with lives_append [OF m(3) [OF z1]] show ?case
    by (intro conjI exI [of _ "Move (jid_of p) (Waiting n) (Queued (Queue (job_of p))) # ls"]) auto
qed

text \<open>Reaping settles the overdue reservations one after the other.\<close>

lemma lives_keeps_tidy: "lives b ls b' \<Longrightarrow> tidy b \<Longrightarrow> entered ls = [] \<Longrightarrow> tidy b'"
  using lives_tidy [of b ls b'] by simp

lemma lives_leaving: "lives b ls b' \<Longrightarrow> jid \<in> leaving ls \<Longrightarrow> on_board b jid \<or> jid \<in> set (entered ls)"
proof (induction rule: lives.induct)
  case (lives_Cons l b b1 ls b2)
  have "on_board b jid \<or> jid \<in> set (entered (l # ls))" if "on_board b1 jid"
    using that lives_Cons.hyps(1)
    by (cases l) (auto simp: on_board_def split: if_splits, (blast dest: in_diffD)+)
  with lives_Cons show ?case by (cases l) (auto simp: on_board_def split: if_splits)
qed simp

lemma tidy_place: "tidy b \<Longrightarrow> on_board b jid \<Longrightarrow> \<exists>p. \<forall>q. count (b q) jid = (if q = p then 1 else 0)"
proof -
  assume t: "tidy b" and o: "on_board b jid"
  then obtain pl where pl: "sits b jid pl" by (auto simp: tidy_def)
  with o obtain p where "pl = Some p" using sits_on_board by blast
  with pl show ?thesis by (intro exI [of _ p]) (auto simp: sits_def)
qed

definition reserved_entry :: "('s, 'm) mgr_scheme \<Rightarrow> string \<times> string \<times> Job \<Rightarrow> bool" where
  "reserved_entry w = (\<lambda>(p, jid, j). \<exists>res. map_of (workingMap w) jid = Some res \<and> p = marshal_reservation res \<and> res_Job res = Some j)"

lemma reap_chain_life:
  "sound R w \<Longrightarrow> unquoted w \<Longrightarrow> tidy (board_of w) \<Longrightarrow> \<forall>e \<in> set js. reserved_entry w e \<Longrightarrow>
   distinct (map (fst \<circ> snd) js) \<Longrightarrow> reap_chain js w w' \<Longrightarrow>
   sound R w' \<and> (\<exists>ls. lives (board_of w) ls (board_of w') \<and> entered ls = [] \<and> leaving ls \<subseteq> {jid. R jid = 0})"
proof (induction js arbitrary: w)
  case Nil
  then show ?case by (auto intro!: exI [of _ "[]"] lives_Nil)
next
  case (Cons e js)
  obtain p jid j where e: "e = (p, jid, j)" by (cases e)
  obtain res where res: "map_of (workingMap w) jid = Some res" "p = marshal_reservation res" "res_Job res = Some j"
    using Cons.prems(4) by (auto simp: reserved_entry_def e)
  obtain w1 where w1: "reap_one e w w1" "reap_chain js w1 w'" using Cons.prems(6) by auto
  then obtain now u where u: "w1 = u\<lparr>reap_total := reap_total w + 1\<rparr>"
    "settled (snd (failed_job JobReservationExpired now j)) (fst (failed_job JobReservationExpired now j)) (released jid p w) u"
    by (auto simp: reap_one_def e)
  note f = fail_life [OF Cons.prems(1,2,3) res(1,3) u(2) [unfolded res(2)]]
  obtain ls where ls: "lives (board_of w) ls (board_of u)" "entered ls = []" "leaving ls \<subseteq> {jid. R jid = 0}"
    using f(4) by blast
  have wm: "map_of (workingMap w1) i = map_of (workingMap w) i" if "i \<noteq> jid" for i
    using that by (simp add: u(1) f(3) delete_conv')
  have "reserved_entry w1 d" if "d \<in> set js" for d
  proof -
    have "(fst \<circ> snd) d \<noteq> jid" using Cons.prems(5) that by (auto simp: e image_iff)
    with wm have "map_of (workingMap w1) ((fst \<circ> snd) d) = map_of (workingMap w) ((fst \<circ> snd) d)" by blast
    moreover have "reserved_entry w d" using Cons.prems(4) that by simp
    ultimately show ?thesis by (simp add: reserved_entry_def case_prod_beta)
  qed
  then have "sound R w' \<and> (\<exists>ls. lives (board_of w1) ls (board_of w') \<and> entered ls = [] \<and> leaving ls \<subseteq> {jid. R jid = 0})"
    using f(1,2) lives_keeps_tidy [OF ls(1) Cons.prems(3) ls(2)] Cons.prems(5) w1(2)
    by (intro Cons.IH) (simp_all add: u(1))
  then obtain ms where "sound R w'" "lives (board_of u) ms (board_of w')" "entered ms = []" "leaving ms \<subseteq> {jid. R jid = 0}"
    by (auto simp: u(1))
  with ls lives_append [OF ls(1)] show ?case by (intro conjI exI [of _ "ls @ ms"]) auto
qed

text \<open>The overdue entries, as reaping finds them.\<close>

definition entry_of :: "('s, 'm) mgr_scheme \<Rightarrow> string \<Rightarrow> string \<times> string \<times> Job" where
  "entry_of w p =
     (let jid = (case unmarshal_reservation p of Ok res \<Rightarrow> Jid (the (res_Job res)) | _ \<Rightarrow> []) in
      (p, jid, the (res_Job (the (map_of (workingMap w) jid)))))"

lemma entry_of_sound:
  assumes "sound R w" "p \<in> fst ` set (zset_of ''working'' w)" "zero_time \<le> t"
  shows "reserved_entry w (entry_of w p)" "overdue t w (entry_of w p)" "fst (entry_of w p) = p"
proof -
  obtain jid res where r: "(jid, res) \<in> set (workingMap w)" "p = marshal_reservation res"
    using soundD(7) [OF assms(1,2)] by blast
  obtain j where j: "res_Job res = Some j" "Jid j = jid" "good_job R j" "extension res = zero_time"
    using soundD(6) [OF assms(1) r(1)] by (auto simp: reserved_ok_def)
  have m: "map_of (workingMap w) jid = Some res" using r(1) soundD(5) [OF assms(1)] by simp
  have u: "unmarshal_reservation p = Ok (stored res)"
    using unmarshal_marshal_res [OF j(1)] j(3) r(2) by (simp add: good_job_def)
  then have e: "entry_of w p = (p, jid, j)" using j(1,2) m by (simp add: entry_of_def stored_def)
  show "reserved_entry w (entry_of w p)" using m r(2) j(1) unfolding e reserved_entry_def by simp
  show "overdue t w (entry_of w p)"
    using u m j assms(3) unfolding e overdue_def by (simp add: stored_def good_job_def)
  show "fst (entry_of w p) = p" by (simp add: e)
qed

lemma reap_life:
  assumes "sound R st" "unquoted st" "tidy (board_of st)" "time_ok t" "zero_time \<le> t"
    and "length (zset_of ''working'' st) < 10 * fuel" "st' = snd (ReapExpiredJobs fuel db_redis no_chains t st)"
  shows "sound R st'" "\<exists>ls. lives (board_of st) ls (board_of st') \<and> entered ls = [] \<and> leaving ls \<subseteq> {jid. R jid = 0}"
proof -
  let ?w = "st\<lparr>reap_total := 0\<rparr>" and ?z = "takeWhile (\<lambda>(m, x). x \<le> time_f t) (zset_of ''working'' st)"
  define js where "js = map (entry_of st) (map fst ?z)"
  have due: "p \<in> fst ` set (zset_of ''working'' st)" if "p \<in> set (map fst ?z)" for p
    using that by (auto dest: set_takeWhileD)
  note en = entry_of_sound [OF assms(1) due assms(5)]
  have fst_js: "map fst js = map fst ?z" unfolding js_def map_map by (rule map_cong) (use en(3) in auto)
  have res: "reserved_entry ?w e" "overdue t ?w e" if "e \<in> set js" for e
  proof -
    obtain p where p: "e = entry_of st p" "p \<in> set (map fst ?z)" using \<open>e \<in> set js\<close> unfolding js_def by auto
    show "reserved_entry ?w e" "overdue t ?w e"
      using en(1,2) [OF p(2)] by (simp_all add: p(1) reserved_entry_def overdue_def)
  qed
  have "distinct (map fst (zset_of ''working'' st))" using zset_of_ok [OF soundD(1) [OF assms(1)]] by (simp add: zset_ok_def)
  then have "distinct (map fst ?z)" by (metis distinct_append map_append takeWhile_dropWhile_id)
  then have "distinct (map fst js)" by (simp only: fst_js)
  moreover have "inj_on (fst \<circ> snd) (set js)"
  proof (rule inj_onI)
    fix d e assume "d \<in> set js" "e \<in> set js" "(fst \<circ> snd) d = (fst \<circ> snd) e"
    then show "d = e" using res(1) [of d] res(1) [of e] by (cases d; cases e) (auto simp: reserved_entry_def)
  qed
  ultimately have dj: "distinct (map (fst \<circ> snd) js)" by (metis distinct_map)
  have "length js \<le> length (zset_of ''working'' st)" by (simp add: js_def length_takeWhile_le)
  then obtain w' where w': "reap_loop fuel db_redis no_chains t ?w = (Ok (reap_total w'), w')" "reap_chain js ?w w'"
    using reap_loop_run [OF assms(4), of ?w js fuel] soundD(1,2) [OF assms(1)] res(2) dj fst_js assms(6)
    by (auto simp: clock_ok_def)
  then have "st' = w'" by (simp add: assms(7) ReapExpiredJobs_def gosimps)
  with reap_chain_life [of R ?w js w'] assms(1-3) res(1) dj w'(2)
  show "sound R st'" "\<exists>ls. lives (board_of st) ls (board_of st') \<and> entered ls = [] \<and> leaving ls \<subseteq> {jid. R jid = 0}"
    by auto
qed

lemma tick_life: "sound R st \<Longrightarrow> sound R (st\<lparr>tick := i\<rparr>)" "sound R st \<Longrightarrow> board_of (st\<lparr>tick := i\<rparr>) = board_of st"
  using framed_life [OF framed_tick [OF soundD(1)]] by blast+

lemma push_life:
  assumes "sound R st" "good_job R (push_job st job)" "\<not> on_board (board_of st) (Jid job)"
  shows "sound R (pushed job st)" "\<exists>ls. lives (board_of st) ls (board_of (pushed job st)) \<and> entered ls = [Jid job] \<and> leaving ls = {}"
proof -
  let ?j = "push_job st job"
  have enq: "sound R (enqueued ?j (st\<lparr>tick := i\<rparr>)) \<and>
      lives (board_of st) [Enter (Jid job) (Queued (Queue ?j))] (board_of (enqueued ?j (st\<lparr>tick := i\<rparr>)))" for i
  proof -
    note e = enqueued_life [OF tick_life(1) [OF assms(1), of i] assms(2)]
    have "life_step (Enter (Jid job) (Queued (Queue ?j))) (board_of st) = Some (board_of (enqueued ?j (st\<lparr>tick := i\<rparr>)))"
      unfolding e(2) tick_life(2) [OF assms(1)] by (simp del: board_of.simps)
    with e(1) lives_one show ?thesis by force
  qed
  have sch: "sound R st' \<and> lives (board_of st) [Enter (Jid job) (Waiting ''scheduled'')] (board_of st')"
    if st': "st' = put_sorted ''scheduled'' (zset_put (marshal_job ?j) x (zset_of ''scheduled'' st)) (st\<lparr>tick := i\<rparr>)" for st' x i
  proof -
    note g = good_marshal [OF assms(2)]
    have "shelved ''scheduled'' (marshal_job ?j) st st'"
      using soundD(1) [OF assms(1)] by (auto simp: shelved_def st' zset_of_ok sset_names_def)
    note s = shelved_life [OF this assms(1)]
    have j: "jid_of (marshal_job ?j) = Jid job" using g by simp
    have "life_step (Enter (Jid job) (Waiting ''scheduled'')) (board_of st) = Some (board_of st')"
      using s(2) g assms(3) by (simp add: j del: board_of.simps)
    moreover have "sound R st'" using s(1) g assms(3) by (simp add: j)
    ultimately show ?thesis by (auto intro: lives_one)
  qed
  have ps: "push_state job st = st\<lparr>tick := tick (push_state job st)\<rparr>" by (simp add: push_state_def)
  have "(\<exists>i. pushed job st = enqueued ?j (st\<lparr>tick := i\<rparr>)) \<or> (\<exists>x i. pushed job st =
      put_sorted ''scheduled'' (zset_put (marshal_job ?j) x (zset_of ''scheduled'' st)) (st\<lparr>tick := i\<rparr>))"
    (is "(\<exists>i. ?E i) \<or> (\<exists>x i. ?S x i)")
  proof -
    obtain i where i: "push_state job st = st\<lparr>tick := i\<rparr>" using ps by blast
    show ?thesis unfolding pushed_def Let_def i by (simp split: option.split gores.split) blast
  qed
  then consider i where "?E i" | x i where "?S x i" by blast
  then have "sound R (pushed job st) \<and> (\<exists>p. lives (board_of st) [Enter (Jid job) p] (board_of (pushed job st)))"
  proof cases
    case 1
    with enq [of i] show ?thesis by (simp only:) blast
  next
    case 2
    with sch [OF 2] show ?thesis by blast
  qed
  then show "sound R (pushed job st)"
    "\<exists>ls. lives (board_of st) ls (board_of (pushed job st)) \<and> entered ls = [Jid job] \<and> leaving ls = {}"
    by (blast, metis entered.simps(1,2) leaving.simps(1,3))
qed

section \<open>Any sequence of operations\<close>

datatype mevent = MPush Job | MFetch string "string list" | MAck string | MFail FailPayload
  | MEnqueue time | MRetry time | MReap time

fun mrun :: "nat \<Rightarrow> 's redis \<Rightarrow> mevent \<Rightarrow> (('s, 'm) mgr_scheme, unit) gofun" where
  "mrun fuel rd (MPush j) = void (mgr_Push rd no_chains j)"
| "mrun fuel rd (MFetch wid qs) = void (Fetch (Suc fuel) rd no_chains wid qs)"
| "mrun fuel rd (MAck jid) = void (Acknowledge rd no_chains jid)"
| "mrun fuel rd (MFail f) = mgr_Fail rd no_chains (Some f)"
| "mrun fuel rd (MEnqueue t) = void (EnqueueScheduledJobs fuel rd t)"
| "mrun fuel rd (MRetry t) = void (RetryJobs fuel rd t)"
| "mrun fuel rd (MReap t) = void (ReapExpiredJobs fuel rd no_chains t)"

text \<open>What is asked of an operation: a complete job, names that are not the storage's own keys, and rounds enough.\<close>

fun admissible :: "nat \<Rightarrow> (db, 'm) mgr_scheme \<Rightarrow> mevent \<Rightarrow> bool" where
  "admissible fuel st (MPush j) = (push_ready j \<and> job_ok j \<and> plain_jid (Jid j) \<and> queue_key (Queue (push_job st j))
     \<and> Retry j < 300 \<and> few_retries j)"
| "admissible fuel st (MFetch wid qs) = list_all queue_key qs"
| "admissible fuel st (MEnqueue t) = (time_ok t \<and> length (zset_of ''scheduled'' st) < 100 * fuel)"
| "admissible fuel st (MRetry t) = (time_ok t \<and> length (zset_of ''retries'' st) < 100 * fuel)"
| "admissible fuel st (MReap t) = (time_ok t \<and> zero_time \<le> t \<and> length (zset_of ''working'' st) < 10 * fuel)"
| "admissible fuel st _ = True"

fun pushed_job :: "mevent \<Rightarrow> Job list" where
  "pushed_job (MPush j) = [j]"
| "pushed_job _ = []"

fun acked :: "mevent \<Rightarrow> string set" where
  "acked (MAck jid) = {jid}"
| "acked _ = {}"

lemma snd_void [simp]: "snd (void m st) = snd (m st)"
  by (simp add: void_def bindS_def retS_def split: prod.split gores.split)

lemma Fetch_cases:
  assumes "sound R st" "list_all queue_key qs" "st' = snd (Fetch (Suc f) db_redis no_chains wid qs st)"
  shows "st' = st \<or> (\<exists>k. queue_key k \<and> queue_of k st \<noteq> [] \<and> st' = fetched wid k st)"
proof -
  let ?a = "filter (\<lambda>q. q \<notin> set (paused st)) qs"
  show ?thesis
  proof (cases "qs = [] \<or> first_ready ?a st = None")
    case True
    then have "st' = st"
      using db_brpop_first [OF soundD(1) [OF assms(1)], of ?a] assms(2)
      by (auto simp: assms(3) filter_queues_eq BasicFetch_def bindS_def getS_def retS_def errS_def list_all_iff)
    then show ?thesis ..
  next
    case False
    then obtain k where k: "first_ready ?a st = Some k" "qs \<noteq> []" by auto
    have "k \<in> set ?a" using k(1) by (auto simp: first_ready_def dest: find_in)
    then have kk: "queue_key k" "queue_of k st \<noteq> []"
      using k(1) assms(2) by (auto simp: first_ready_def list_all_iff find_Some_iff)
    have g: "good R (hd (queue_of k st))" using soundD(3) [OF assms(1) kk(1)] kk(2) by simp
    let ?j = "job_of (hd (queue_of k st))"
    have "0 \<le> reserve_timeout ?j" "reserve_timeout ?j \<le> 86400" by (simp_all add: reserve_timeout_def Let_def)
    then have "time_ok (clock st (tick st) + reserve_timeout ?j * second)"
      using soundD(2) [OF assms(1)] by (intro clock_ok_time) simp_all
    then have "st' = fetched wid k st"
      using Fetch_db [OF soundD(1) [OF assms(1)] k(2) _ k(1), of ?j f wid] good_job_of [OF g] assms(2)
      by (simp add: assms(3) list_all_iff del: Fetch.simps)
    with kk show ?thesis by blast
  qed
qed

lemma Fetch_life:
  assumes "sound R st" "tidy (board_of st)" "list_all queue_key qs"
    and "st' = snd (Fetch (Suc f) db_redis no_chains wid qs st)" "unquoted st'"
  shows "sound R st'" "\<exists>ls. lives (board_of st) ls (board_of st') \<and> entered ls = [] \<and> leaving ls = {}"
proof -
  from Fetch_cases [OF assms(1,3,4)]
  have "sound R st' \<and> (\<exists>ls. lives (board_of st) ls (board_of st') \<and> entered ls = [] \<and> leaving ls = {})"
  proof (elim disjE exE conjE)
    assume "st' = st"
    with assms(1) lives_Nil show ?thesis by (metis entered.simps(1) leaving.simps(1))
  next
    fix k assume k: "queue_key k" "queue_of k st \<noteq> []" and st': "st' = fetched wid k st"
    from fetched_life [OF assms(1,2) k, of wid] assms(5) show ?thesis
      unfolding st' by (metis entered.simps leaving.simps)
  qed
  then show "sound R st'" "\<exists>ls. lives (board_of st) ls (board_of st') \<and> entered ls = [] \<and> leaving ls = {}" by blast+
qed

lemma Acknowledge_life:
  assumes "sound R st" "unquoted st" "st' = snd (Acknowledge db_redis no_chains jid st)"
  shows "sound R st'" "\<exists>ls. lives (board_of st) ls (board_of st') \<and> entered ls = [] \<and> leaving ls \<subseteq> {jid}"
proof -
  have "sound R st' \<and> (\<exists>ls. lives (board_of st) ls (board_of st') \<and> entered ls = [] \<and> leaving ls \<subseteq> {jid})"
  proof (cases "map_of (workingMap st) jid")
    case None
    then have "st' = st" using Acknowledge_unknown [OF None, of db_redis no_chains] assms(3) by simp
    with assms(1) lives_Nil show ?thesis by (metis entered.simps(1) leaving.simps(1) empty_subsetI)
  next
    case (Some res)
    let ?w = "released jid (marshal_reservation res) st"
    note rl = released_life [OF assms(1,2) Some refl]
    have "framed ?w st'"
      using Acknowledge_held [OF sound_held(1) [OF assms(1,2) Some] soundD(1) [OF assms(1)]] assms(3) by auto
    note f = framed_life [OF this rl(1)]
    have "life_step (Leave jid Reserved) (board_of st) = Some (board_of st')"
      unfolding f(2) rl(4) using rl(3) by (simp del: board_of.simps)
    then have "lives (board_of st) [Leave jid Reserved] (board_of st')" by (intro lives_one) simp_all
    with f(1) show ?thesis by (metis entered.simps(1,4) leaving.simps(1,2) subset_refl)
  qed
  then show "sound R st'" "\<exists>ls. lives (board_of st) ls (board_of st') \<and> entered ls = [] \<and> leaving ls \<subseteq> {jid}" by blast+
qed

lemma Fail_life:
  assumes "sound R st" "unquoted st" "tidy (board_of st)" "st' = snd (mgr_Fail db_redis no_chains (Some f) st)"
  shows "sound R st'" "\<exists>ls. lives (board_of st) ls (board_of st') \<and> entered ls = [] \<and> leaving ls \<subseteq> {jid. R jid = 0}"
proof -
  let ?jid = "fail_Jid f"
  have "sound R st' \<and> (\<exists>ls. lives (board_of st) ls (board_of st') \<and> entered ls = [] \<and> leaving ls \<subseteq> {jid. R jid = 0})"
  proof (cases "?jid = [] \<or> map_of (workingMap st) ?jid = None")
    case True
    then have "st' = st"
      by (auto simp: assms(4) mgr_Fail_def errS_def processFailure_def clearReservation_def gosimps)
    with assms(1) lives_Nil show ?thesis by (metis entered.simps(1) leaving.simps(1) empty_subsetI)
  next
    case False
    then obtain res where r: "map_of (workingMap st) ?jid = Some res" "?jid \<noteq> []" by auto
    obtain j where j: "res_Job res = Some j" "few_retries j"
      using sound_held(2) [OF assms(1,2) r(1)] by (auto simp: good_job_def)
    from processFailure_held [OF sound_held(1) [OF assms(1,2) r(1)] soundD(1,2) [OF assms(1)] j, of "cleanse f"]
    obtain now where "settled (snd (failed_job (cleanse f) now j)) (fst (failed_job (cleanse f) now j))
        (released ?jid (marshal_reservation res) st) st'"
      using r(2) assms(4) by (auto simp: mgr_Fail_def)
    from fail_life [OF assms(1-3) r(1) j(1) this] show ?thesis by blast
  qed
  then show "sound R st'" "\<exists>ls. lives (board_of st) ls (board_of st') \<and> entered ls = [] \<and> leaving ls \<subseteq> {jid. R jid = 0}" by blast+
qed

lemma schedule_life:
  assumes "sound R st" "n = ''scheduled'' \<or> n = ''retries''" "time_ok t" "length (zset_of n st) < 100 * fuel"
    and "st' = snd (schedule fuel db_redis t n 0 st)"
  shows "sound R st'" "\<exists>ls. lives (board_of st) ls (board_of st') \<and> entered ls = [] \<and> leaving ls = {}"
proof -
  let ?P = "\<lambda>(m, x). x \<le> time_f t" and ?z = "zset_of n st"
  have n: "n \<in> set sset_names" using assms(2) by auto
  have "set (map fst (takeWhile ?P ?z)) \<subseteq> queueable"
  proof
    fix p assume "p \<in> set (map fst (takeWhile ?P ?z))"
    then have "p \<in> fst ` set ?z" by (auto dest: set_takeWhileD)
    then have "good R p" by (rule soundD(4) [OF assms(1,2)])
    from good_job_of [OF this] show "p \<in> queueable" by (auto simp: queueable_def good_job_def)
  qed
  moreover have "length (map fst (takeWhile ?P ?z)) < 100 * fuel"
    using assms(4) length_takeWhile_le [of ?P ?z] by simp
  ultimately have "st' = put_sorted n (drop (length (takeWhile ?P ?z)) ?z) (fold enqueue_payload (map fst (takeWhile ?P ?z)) st)"
    using schedule_db [OF n assms(3) soundD(1) [OF assms(1)] refl, of fuel 0] assms(5) by simp
  then have st': "st' = put_sorted n (dropWhile ?P ?z) (fold enqueue_payload (map fst (takeWhile ?P ?z)) st)"
    by (simp only: dropWhile_eq_drop)
  from drained_life [OF assms(2,1) _ st'] show "sound R st'"
    "\<exists>ls. lives (board_of st) ls (board_of st') \<and> entered ls = [] \<and> leaving ls = {}"
    by simp_all
qed

text \<open>Every operation is a sequence of moves; only acknowledged jobs and jobs without retries leave.\<close>

lemma event_life:
  assumes "sound R st" "unquoted st" "tidy (board_of st)" "admissible fuel st e" "unquoted st'"
    and "st' = snd (mrun fuel db_redis e st)" "\<forall>j \<in> set (pushed_job e). R (Jid j) = Retry j \<and> \<not> on_board (board_of st) (Jid j)"
  shows "sound R st' \<and> (\<exists>ls. lives (board_of st) ls (board_of st') \<and> entered ls = map Jid (pushed_job e)
    \<and> leaving ls \<subseteq> {jid. R jid = 0} \<union> acked e)"
proof (cases e)
  case (MPush j)
  have g: "good_job R (push_job st j)"
    using assms(4,7) by (simp add: MPush good_job_def push_job_def job_ok_def few_retries_def)
  have "st' = pushed j st"
    using push_run [OF soundD(1) [OF assms(1)], of j] assms(4,6) by (auto simp: MPush)
  with push_life [OF assms(1) g] assms(7) show ?thesis by (simp add: MPush) blast
next
  case (MFetch wid qs)
  with Fetch_life [OF assms(1,3) _ _ assms(5), of qs fuel wid] assms(4,6) show ?thesis by (auto simp del: Fetch.simps)
next
  case (MAck jid)
  with Acknowledge_life [OF assms(1,2), of st' jid] assms(6) show ?thesis by auto
next
  case (MFail f)
  with Fail_life [OF assms(1-3), of st' f] assms(6) show ?thesis by auto
next
  case (MEnqueue t)
  with schedule_life [OF assms(1), of "''scheduled''" t fuel st'] assms(4,6) show ?thesis
    by (auto simp: EnqueueScheduledJobs_def)
next
  case (MRetry t)
  with schedule_life [OF assms(1), of "''retries''" t fuel st'] assms(4,6) show ?thesis
    by (auto simp: RetryJobs_def)
next
  case (MReap t)
  with reap_life [OF assms(1-3), of t fuel st'] assms(4,6) show ?thesis by auto
qed

primrec mruns :: "nat \<Rightarrow> 's redis \<Rightarrow> mevent list \<Rightarrow> ('s, 'm) mgr_scheme \<Rightarrow> ('s, 'm) mgr_scheme" where
  "mruns fuel rd [] st = st"
| "mruns fuel rd (e # es) st = mruns fuel rd es (snd (mrun fuel rd e st))"

text \<open>Each operation is admissible where it is run, and no reservation ever mentions the id of another job.\<close>

primrec run_ok :: "nat \<Rightarrow> 's redis \<Rightarrow> ('s \<Rightarrow> db) \<Rightarrow> mevent list \<Rightarrow> ('s, 'm) mgr_scheme \<Rightarrow> bool" where
  "run_ok fuel rd view [] st = True"
| "run_ok fuel rd view (e # es) st =
     (let st' = snd (mrun fuel rd e st) in
      admissible fuel (sview view st) e \<and> unquoted st' \<and> run_ok fuel rd view es st')"

definition pushes :: "mevent list \<Rightarrow> Job list" where
  "pushes es = concat (map pushed_job es)"

lemma pushes_simps [simp]: "pushes [] = []" "pushes (e # es) = pushed_job e @ pushes es"
  by (simp_all add: pushes_def)

lemma mem_pushes: "MPush j \<in> set es \<Longrightarrow> j \<in> set (pushes es)"
  by (induction es) auto

lemma mem_acked: "jid \<in> (\<Union>e \<in> set es. acked e) \<Longrightarrow> MAck jid \<in> set es"
proof -
  assume "jid \<in> (\<Union>e \<in> set es. acked e)"
  then obtain e where "e \<in> set es" "jid \<in> acked e" by blast
  moreover from this(2) have "e = MAck jid" by (cases e) simp_all
  ultimately show ?thesis by simp
qed

context redis_server
begin

lemma mrun_sim: "simS (mrun fuel rd e) (mrun fuel db_redis e)"
proof -
  note ops = mgr_Push_sim [OF chains_sim_none] Fetch_sim [OF chains_sim_none] Acknowledge_sim [OF chains_sim_none]
    mgr_Fail_sim [OF chains_sim_none] scheduler_sims ReapExpiredJobs_sim [OF chains_sim_none]
  show ?thesis by (cases e; simp only: mrun.simps; intro sim_void ops)
qed

lemma run_life:
  "healthy (rs st) \<Longrightarrow> sound R (sview view st) \<Longrightarrow> unquoted st \<Longrightarrow> tidy (board_of (sview view st)) \<Longrightarrow>
   run_ok fuel rd view es st \<Longrightarrow> distinct (map Jid (pushes es)) \<Longrightarrow>
   \<forall>j \<in> set (pushes es). R (Jid j) = Retry j \<and> \<not> on_board (board_of (sview view st)) (Jid j) \<Longrightarrow>
   \<exists>ls. lives (board_of (sview view st)) ls (board_of (sview view (mruns fuel rd es st))) \<and> entered ls = map Jid (pushes es)
     \<and> leaving ls \<subseteq> {jid. R jid = 0} \<union> (\<Union>e \<in> set es. acked e)"
proof (induction es arbitrary: st)
  case Nil
  show ?case by (auto intro!: exI [of _ "[]"] lives_Nil)
next
  case (Cons e es)
  let ?b = "\<lambda>st. board_of (sview view st)"
  define s1 where "s1 = snd (mrun fuel rd e st)"
  have sim: "sview view s1 = snd (mrun fuel db_redis e (sview view st))" "healthy (rs s1)"
    using simD [OF mrun_sim Cons.prems(1), of fuel e] by (simp_all add: s1_def)
  have ok: "admissible fuel (sview view st) e" "unquoted s1" "run_ok fuel rd view es s1"
    using Cons.prems(5) by (simp_all add: s1_def Let_def)
  have u: "unquoted (sview view s) = unquoted s" for s :: "('s, 'b) mgr_scheme" by (simp add: unquoted_def)
  obtain ls where ls: "sound R (sview view s1)" "lives (?b st) ls (?b s1)" "entered ls = map Jid (pushed_job e)"
    "leaving ls \<subseteq> {jid. R jid = 0} \<union> acked e"
    using event_life [OF Cons.prems(2) _ Cons.prems(4) ok(1) _ sim(1)] Cons.prems(3,7) ok(2) u by auto
  have "distinct (entered ls)" "\<forall>jid \<in> set (entered ls). \<not> on_board (?b st) jid"
    using Cons.prems(6,7) by (auto simp: ls(3))
  note t = lives_tidy [OF ls(2) Cons.prems(4) this]
  have "\<not> on_board (?b s1) (Jid j)" if "j \<in> set (pushes es)" for j
  proof
    assume "on_board (?b s1) (Jid j)"
    then have "on_board (?b st) (Jid j) \<or> Jid j \<in> Jid ` set (pushed_job e)" using t by (simp add: ls(3))
    moreover have "\<not> on_board (?b st) (Jid j)" using Cons.prems(7) that by simp
    moreover have "Jid j \<notin> Jid ` set (pushed_job e)" using Cons.prems(6) that by auto
    ultimately show False by blast
  qed
  then have "\<exists>ms. lives (?b s1) ms (?b (mruns fuel rd es s1)) \<and> entered ms = map Jid (pushes es)
     \<and> leaving ms \<subseteq> {jid. R jid = 0} \<union> (\<Union>e \<in> set es. acked e)"
    using sim(2) ls(1) ok(2,3) t Cons.prems(6,7) by (intro Cons.IH) auto
  then obtain ms where ms: "lives (?b s1) ms (?b (mruns fuel rd es s1))" "entered ms = map Jid (pushes es)"
     "leaving ms \<subseteq> {jid. R jid = 0} \<union> (\<Union>e \<in> set es. acked e)" by blast
  from lives_append [OF ls(2) ms(1)] ms(2,3) ls(3,4) show ?case
    by (intro exI [of _ "ls @ ms"]) (auto simp: s1_def)
qed

end

text \<open>A manager with nothing to do.\<close>

definition idle :: "(db, 'm) mgr_scheme \<Rightarrow> bool" where
  "idle st \<longleftrightarrow> store_ok st \<and> clock_ok st \<and> workingMap st = [] \<and> (\<forall>k. queue_key k \<longrightarrow> queue_of k st = [])
     \<and> (\<forall>n \<in> set sset_names. zset_of n st = [])"

definition retry_of :: "Job list \<Rightarrow> string \<Rightarrow> int" where
  "retry_of js jid = (case map_of (map (\<lambda>j. (Jid j, Retry j)) js) jid of Some r \<Rightarrow> r | None \<Rightarrow> 0)"

lemma retry_of: "distinct (map Jid js) \<Longrightarrow> j \<in> set js \<Longrightarrow> retry_of js (Jid j) = Retry j"
proof -
  assume d: "distinct (map Jid js)" and j: "j \<in> set js"
  have "map_of (map (\<lambda>j. (Jid j, Retry j)) js) (Jid j) = Some (Retry j)"
    using d j by (intro map_of_is_SomeI) (auto simp: o_def)
  then show "retry_of js (Jid j) = Retry j" by (simp add: retry_of_def)
qed

lemma idle_life: "idle st \<Longrightarrow> sound R st \<and> unquoted st \<and> board_of st = (\<lambda>_. {#})"
proof -
  assume i: "idle st"
  have "board_of st pl = {#}" for pl using i by (cases pl) (auto simp: idle_def)
  moreover have "sound R st" using i by (intro soundI) (auto simp: idle_def)
  moreover have "unquoted st" using i by (simp add: idle_def unquoted_def)
  ultimately show ?thesis by blast
qed

lemma empty_board: "tidy (\<lambda>_. {#})" "\<not> on_board (\<lambda>_. {#}) jid"
  by (auto simp: tidy_def sits_def on_board_def intro!: exI [of _ None])

lemma idle_run:
  assumes "redis_server rd view healthy" "healthy (rs st)" "idle (sview view st)"
    and "run_ok fuel rd view es st" "distinct (map Jid (pushes es))"
  shows "\<exists>ls. lives (\<lambda>_. {#}) ls (board_of (sview view (mruns fuel rd es st))) \<and> entered ls = map Jid (pushes es)
     \<and> leaving ls \<subseteq> {jid. retry_of (pushes es) jid = 0} \<union> (\<Union>e \<in> set es. acked e)"
proof -
  let ?R = "retry_of (pushes es)"
  note i = idle_life [OF assms(3), of ?R]
  then have u: "unquoted st" by (simp add: unquoted_def)
  have "\<forall>j \<in> set (pushes es). ?R (Jid j) = Retry j \<and> \<not> on_board (board_of (sview view st)) (Jid j)"
    using i retry_of [OF assms(5)] empty_board(2) by simp
  from redis_server.run_life [OF assms(1,2) _ u _ assms(4,5) this] i empty_board(1) show ?thesis by simp
qed

lemma unquoted_short: "length (workingMap st) \<le> 1 \<Longrightarrow> unquoted st"
  by (cases "workingMap st") (auto simp: unquoted_def)

definition sample_events :: "mevent list" where
  "sample_events = [MPush sample_job, MFetch ''w1'' [''default'']]"

lemma sample_events_facts [simp]:
  "pushes sample_events = [sample_job]" "MPush sample_job \<in> set sample_events" "MAck jid \<notin> set sample_events"
  by (simp_all add: sample_events_def)

lemma empty_mgr_idle: "idle empty_mgr"
proof -
  have "clock_ok empty_mgr" "workingMap empty_mgr = []"
    by (simp_all add: clock_ok_def empty_mgr_def sample_clock_def min_less_iff_disj)
  then show ?thesis using empty_mgr_ok by (simp add: idle_def)
qed

lemma sample_run: "run_ok 1 db_redis (\<lambda>d. d) sample_events empty_mgr"
proof -
  let ?R = "retry_of [sample_job]"
  define st1 where "st1 = pushed sample_job empty_mgr"
  have j: "push_ready sample_job" "Queue (push_job empty_mgr sample_job) = ''default''" "Retry sample_job < 300"
    "few_retries sample_job" "At sample_job = []"
    by (simp_all add: sample_job_def SetCustom_def zero_job_def zero_failure_def push_ready_def push_job_def few_retries_def)
  have ok: "admissible 1 empty_mgr (MPush sample_job)" "admissible 1 st1 (MFetch ''w1'' [''default''])"
    using j sample_job_ok sample_facts(3) queue_key_default by simp_all
  have st1: "snd (mgr_Push db_redis no_chains sample_job empty_mgr) = st1"
    using push_run [OF empty_mgr_ok j(1)] j(2) queue_key_default by (auto simp: st1_def)
  have g: "good_job ?R (push_job empty_mgr sample_job)"
    using j sample_job_ok sample_facts(3) queue_key_default
    by (simp add: good_job_def push_job_def job_ok_def few_retries_def retry_of_def)
  note i = idle_life [OF empty_mgr_idle, of ?R]
  have s1: "sound ?R st1" unfolding st1_def using i empty_board(2) by (intro push_life(1) g) auto
  have "pushed sample_job empty_mgr = enqueued (push_job empty_mgr sample_job) (push_state sample_job empty_mgr)"
    using j(5) by (simp add: pushed_def)
  moreover have "same_env (push_state sample_job empty_mgr)
      (enqueued (push_job empty_mgr sample_job) (push_state sample_job empty_mgr))"
    using j(2) queue_key_default by simp
  ultimately have w1: "workingMap st1 = []"
    using same_env_mgr by (metis st1_def push_state_def empty_mgr_idle idle_def same_env_upd(3))
  let ?st2 = "snd (Fetch (Suc 1) db_redis no_chains ''w1'' [''default''] st1)"
  have "length (workingMap ?st2) \<le> 1"
    using Fetch_cases [OF s1, of "[''default'']" ?st2 1 "''w1''"] queue_key_default w1
    by (auto simp: fetched_def Let_def simp del: Fetch.simps)
  then have "unquoted ?st2" by (rule unquoted_short)
  moreover have "unquoted st1" using w1 by (intro unquoted_short) simp
  ultimately show ?thesis
    using ok st1 by (simp add: sample_events_def Let_def del: Fetch.simps admissible.simps)
qed

text \<open>
  C2: the manager refines the board: whatever the sequence of pushes, fetches, acknowledgements, failures,
  scheduler rounds and reaps, the queues, the sorted sets and the reservations together go through a
  sequence of moves of single jobs along the edges of the graph (outside to a queue or the scheduled set,
  from there to a queue, from a queue to a worker, from a worker to the retries, the dead set or out).
  Each pushed job enters once, in the order of the pushes, and a job leaves only if it was acknowledged
  or was pushed with \<open>retry: 0\<close>.
\<close>

theorem manager_refines_board:
  assumes "redis_server rd view healthy" "healthy (rs st)" "idle (sview view st)"
    and "run_ok fuel rd view es st" "distinct (map Jid (pushes es))"
  shows "\<exists>ls. lives (\<lambda>_. {#}) ls (board_of (sview view (mruns fuel rd es st))) \<and> entered ls = map Jid (pushes es)
     \<and> leaving ls \<subseteq> {Jid j |j. j \<in> set (pushes es) \<and> (Retry j = 0 \<or> MAck (Jid j) \<in> set es)}"
proof -
  obtain ls where ls: "lives (\<lambda>_. {#}) ls (board_of (sview view (mruns fuel rd es st)))" "entered ls = map Jid (pushes es)"
     "leaving ls \<subseteq> {jid. retry_of (pushes es) jid = 0} \<union> (\<Union>e \<in> set es. acked e)"
    using idle_run [OF assms] by blast
  have "\<exists>j. jid = Jid j \<and> j \<in> set (pushes es) \<and> (Retry j = 0 \<or> MAck (Jid j) \<in> set es)" if "jid \<in> leaving ls" for jid
  proof -
    have "jid \<in> set (entered ls)" using lives_leaving [OF ls(1)] that empty_board(2) by blast
    then obtain j where j: "j \<in> set (pushes es)" "jid = Jid j" using ls(2) by auto
    have "retry_of (pushes es) jid = 0 \<or> MAck jid \<in> set es" using ls(3) that mem_acked by blast
    with j retry_of [OF assms(5) j(1)] show ?thesis by auto
  qed
  with ls show ?thesis by blast
qed

theorem manager_refines_board_witness:
  "\<exists>ls. lives (\<lambda>_. {#}) ls (board_of (mruns 1 db_redis sample_events empty_mgr)) \<and> entered ls = [Jid sample_job]
     \<and> leaving ls = {}"
proof -
  have "Retry sample_job \<noteq> 0" by (simp add: sample_job_def SetCustom_def zero_job_def)
  then show ?thesis
    using manager_refines_board [OF dbr.redis_server_axioms, of empty_mgr 1 sample_events] empty_mgr_idle sample_run
    by simp
qed



end
