(* ===== verification/Pool.thy ===== *)
theory Pool
  imports Storage "HOL-Library.Multiset"
begin

text \<open>
  The connection pool (\<open>internal/pool/pool.go\<close>) on a buffered channel, and the pool of clients on it
  (\<open>client/pool.go\<close>).  The operations are put together from the pieces that are atomic in the code, a
  region under the mutex or an operation on the channel; any number of goroutines run them interleaved.
\<close>

section \<open>Channels\<close>

text \<open>A connection is named by the number of the call of the factory that made it.\<close>

type_synonym conn = nat

record gochan =
  buf :: "conn list"
  capacity :: nat
  chan_closed :: bool

text \<open>
  A receive that does not block: an element, or nil (\<open>None\<close>) when the channel is closed and empty.  The
  outer \<open>None\<close> is the default case of a select.
\<close>

definition chan_recv :: "gochan \<Rightarrow> (conn option \<times> gochan) option" where
  "chan_recv ch =
     (case buf ch of
        c # cs \<Rightarrow> Some (Some c, ch\<lparr>buf := cs\<rparr>)
      | [] \<Rightarrow> if chan_closed ch then Some (None, ch) else None)"

definition chan_send :: "conn \<Rightarrow> gochan \<Rightarrow> gochan option gores" where
  "chan_send c ch =
     (if chan_closed ch then Panic ''send on closed channel''
      else if length (buf ch) < capacity ch then Ok (Some (ch\<lparr>buf := buf ch @ [c]\<rparr>))
      else Ok None)"

definition chan_close :: "gochan \<Rightarrow> gochan gores" where
  "chan_close ch = (if chan_closed ch then Panic ''close of closed channel'' else Ok (ch\<lparr>chan_closed := True\<rparr>))"

section \<open>The pool\<close>

record PoolConn =
  Closeable :: "conn option"
  unusable :: bool

text \<open>
  \<open>conns\<close> and \<open>factory\<close> say whether the fields are set: a pool has one channel, which goroutines may still
  use when the field is nil.  Wrappers are addressed by their position.  \<open>dialled\<close> counts the calls of the
  factory, \<open>dial_err\<close> and \<open>close_err\<close> are what the calls of the factory and of \<open>Close\<close> of a connection
  report, and \<open>shut\<close> are the connections that were closed, in order.
\<close>

record channelPool =
  conns :: bool
  factory :: bool
  chan :: gochan
  pconns :: "PoolConn list"
  dialled :: nat
  dial_err :: "nat \<Rightarrow> gerror option"
  close_err :: "conn \<Rightarrow> gerror option"
  shut :: "conn list"

definition ErrClosed :: gerror where
  "ErrClosed = GErr ''pool is closed''"

definition nil_func :: string where
  "nil_func = ''invalid memory address or nil pointer dereference''"

definition conn_shut :: "conn \<Rightarrow> ('m channelPool_scheme, unit) gofun" where
  "conn_shut c p = (case close_err p c of None \<Rightarrow> Ok () | Some e \<Rightarrow> Err e, p\<lparr>shut := shut p @ [c]\<rparr>)"

definition call_factory :: "('m channelPool_scheme, conn) gofun" where
  "call_factory p =
     (if \<not> factory p then (Panic nil_func, p)
      else (case dial_err p (dialled p) of None \<Rightarrow> Ok (dialled p) | Some e \<Rightarrow> Err e, p\<lparr>dialled := dialled p + 1\<rparr>))"

definition wrapConn :: "conn \<Rightarrow> ('m channelPool_scheme, nat) gofun" where
  "wrapConn c =
     bindS (getS (\<lambda>p. length (pconns p))) (\<lambda>w.
     bindS (modS (\<lambda>p. p\<lparr>pconns := pconns p @ [\<lparr>Closeable = Some c, unusable = False\<rparr>]\<rparr>)) (\<lambda>_.
     retS w))"

definition put :: "conn option \<Rightarrow> ('m channelPool_scheme, unit) gofun" where
  "put c =
     (case c of
        None \<Rightarrow> errS (GErr ''connection is nil. rejecting'')
      | Some c \<Rightarrow>
          bindS (getS conns) (\<lambda>seen.
          if \<not> seen then conn_shut c
          else
            bindS (getS chan) (\<lambda>ch.
            case chan_send c ch of
              Ok (Some ch') \<Rightarrow> modS (\<lambda>p. p\<lparr>chan := ch'\<rparr>)
            | Ok None \<Rightarrow> conn_shut c
            | Err e \<Rightarrow> errS e
            | Panic x \<Rightarrow> panicS x)))"

definition PoolConn_Close :: "nat \<Rightarrow> ('m channelPool_scheme, unit) gofun" where
  "PoolConn_Close w =
     bindS (getS (\<lambda>p. pconns p ! w)) (\<lambda>pc.
     if unusable pc then (case Closeable pc of Some c \<Rightarrow> conn_shut c | None \<Rightarrow> retS ())
     else put (Closeable pc))"

definition MarkUnusable :: "nat \<Rightarrow> ('m channelPool_scheme, unit) gofun" where
  "MarkUnusable w = modS (\<lambda>p. p\<lparr>pconns := (pconns p)[w := (pconns p ! w)\<lparr>unusable := True\<rparr>]\<rparr>)"

definition getConns :: "('m channelPool_scheme, bool) gofun" where
  "getConns = getS conns"

text \<open>\<open>Get\<close>: the select, whose result is \<open>None\<close> for the default case, and the call of the factory.\<close>

definition get_select :: "('m channelPool_scheme, nat option) gofun" where
  "get_select =
     bindS (getS chan) (\<lambda>ch.
     case chan_recv ch of
       Some (c, ch') \<Rightarrow>
         bindS (modS (\<lambda>p. p\<lparr>chan := ch'\<rparr>)) (\<lambda>_.
         case c of None \<Rightarrow> errS ErrClosed | Some c \<Rightarrow> bindS (wrapConn c) (\<lambda>w. retS (Some w)))
     | None \<Rightarrow> retS None)"

definition get_dial :: "('m channelPool_scheme, nat) gofun" where
  "get_dial = bindS call_factory wrapConn"

definition pool_Get :: "('m channelPool_scheme, nat) gofun" where
  "pool_Get =
     bindS getConns (\<lambda>seen.
     if \<not> seen then errS ErrClosed
     else bindS get_select (\<lambda>r. case r of Some w \<Rightarrow> retS w | None \<Rightarrow> get_dial))"

text \<open>\<open>Close\<close>: the fields are cleared under the mutex, then the channel is closed and drained.\<close>

definition close_swap :: "('m channelPool_scheme, bool) gofun" where
  "close_swap = bindS (getS conns) (\<lambda>seen. bindS (modS (\<lambda>p. p\<lparr>conns := False, factory := False\<rparr>)) (\<lambda>_. retS seen))"

definition close_chan :: "('m channelPool_scheme, unit) gofun" where
  "close_chan = bindS (getS chan) (\<lambda>ch. bindS (liftR (chan_close ch)) (\<lambda>ch'. modS (\<lambda>p. p\<lparr>chan := ch'\<rparr>)))"

text \<open>One round of \<open>range\<close> over the channel; it ends when the channel is closed and empty.\<close>

definition drain_one :: "('m channelPool_scheme, bool) gofun" where
  "drain_one =
     bindS (getS chan) (\<lambda>ch.
     case chan_recv ch of
       Some (Some c, ch') \<Rightarrow> bindS (modS (\<lambda>p. p\<lparr>chan := ch'\<rparr>)) (\<lambda>_. bindS (ignore (conn_shut c)) (\<lambda>_. retS True))
     | Some (None, ch') \<Rightarrow> retS False
     | None \<Rightarrow> panicS ''blocked'')"

fun drain :: "nat \<Rightarrow> ('m channelPool_scheme, unit) gofun" where
  "drain 0 = panicS fuel_out"
| "drain (Suc f) = bindS drain_one (\<lambda>more. if more then drain f else retS ())"

definition pool_Close :: "('m channelPool_scheme, unit) gofun" where
  "pool_Close =
     bindS close_swap (\<lambda>seen.
     if \<not> seen then retS ()
     else bindS close_chan (\<lambda>_. bindS (getS (\<lambda>p. length (buf (chan p)))) (\<lambda>n. drain (Suc n))))"

definition pool_Len :: "('m channelPool_scheme, nat) gofun" where
  "pool_Len = bindS getConns (\<lambda>seen. getS (\<lambda>p. if seen then length (buf (chan p)) else 0))"

text \<open>The initial connections; a send on a full channel would wait for ever.\<close>

fun fill :: "nat \<Rightarrow> ('m channelPool_scheme, unit) gofun" where
  "fill 0 = retS ()"
| "fill (Suc n) =
     bindS (tryS call_factory) (\<lambda>r.
     case r of
       Err e \<Rightarrow> bindS pool_Close (\<lambda>_. errS (GErr (''factory is not able to fill the pool: '' @ err_text e)))
     | Panic x \<Rightarrow> panicS x
     | Ok c \<Rightarrow>
         bindS (getS chan) (\<lambda>ch.
         bindS (liftR (chan_send c ch)) (\<lambda>s.
         case s of
           None \<Rightarrow> panicS ''blocked''
         | Some ch' \<Rightarrow> bindS (modS (\<lambda>p. p\<lparr>chan := ch'\<rparr>)) (\<lambda>_. fill n))))"

definition NewChannelPool :: "int \<Rightarrow> int \<Rightarrow> ('m channelPool_scheme, unit) gofun" where
  "NewChannelPool initialCap maxCap =
     (if initialCap < 0 \<or> maxCap \<le> 0 \<or> initialCap > maxCap then errS (GErr ''invalid capacity settings'')
      else
        bindS (modS (\<lambda>p. p\<lparr>conns := True, factory := True,
          chan := \<lparr>buf = [], capacity = nat maxCap, chan_closed = False\<rparr>\<rparr>)) (\<lambda>_.
        fill (nat initialCap)))"

section \<open>Goroutines\<close>

text \<open>
  What a goroutine is about to do: \<open>Get\<close> has three atomic parts and \<open>Close\<close> of the pool as many as it drains
  connections; in between the goroutine knows whether it saw the channel.  A goroutine that got a
  connection holds its wrapper until it closes it.
\<close>

datatype thread =
    Getting0 | Getting1 bool | Dialling
  | Holding nat | Marking nat | Putting nat
  | Closing0 | Closing1 bool | Draining
  | Gone "unit gores"

definition proceed :: "(channelPool, 'a) gofun \<Rightarrow> ('a \<Rightarrow> thread) \<Rightarrow> channelPool \<Rightarrow> thread \<times> channelPool" where
  "proceed m k p =
     (case m p of
        (Ok a, p') \<Rightarrow> (k a, p')
      | (Err e, p') \<Rightarrow> (Gone (Err e), p')
      | (Panic x, p') \<Rightarrow> (Gone (Panic x), p'))"

fun advance :: "thread \<Rightarrow> channelPool \<Rightarrow> thread \<times> channelPool" where
  "advance Getting0 = proceed getConns Getting1"
| "advance (Getting1 seen) =
     proceed (if \<not> seen then errS ErrClosed else get_select) (\<lambda>r. case r of Some w \<Rightarrow> Holding w | None \<Rightarrow> Dialling)"
| "advance Dialling = proceed get_dial Holding"
| "advance (Marking w) = proceed (MarkUnusable w) (\<lambda>_. Holding w)"
| "advance (Putting w) = proceed (PoolConn_Close w) (\<lambda>_. Gone (Ok ()))"
| "advance Closing0 = proceed close_swap Closing1"
| "advance (Closing1 seen) = (if \<not> seen then Pair (Gone (Ok ())) else proceed close_chan (\<lambda>_. Draining))"
| "advance Draining = proceed drain_one (\<lambda>more. if more then Draining else Gone (Ok ()))"
| "advance (Holding w) = Pair (Holding w)"
| "advance (Gone r) = Pair (Gone r)"

inductive pool_step :: "channelPool \<times> thread list \<Rightarrow> channelPool \<times> thread list \<Rightarrow> bool" where
  start_get: "pool_step (p, ts) (p, Getting0 # ts)"
| start_close: "pool_step (p, ts) (p, Closing0 # ts)"
| start_put: "pool_step (p, ts @ Holding w # us) (p, ts @ Putting w # us)"
| start_mark: "pool_step (p, ts @ Holding w # us) (p, ts @ Marking w # us)"
| run: "advance t p = (t', p') \<Longrightarrow> pool_step (p, ts @ t # us) (p', ts @ t' # us)"

abbreviation pool_steps :: "channelPool \<times> thread list \<Rightarrow> channelPool \<times> thread list \<Rightarrow> bool" where
  "pool_steps \<equiv> pool_step\<^sup>*\<^sup>*"

text \<open>The parts run one after the other are the operation.\<close>

lemma get_alone:
  "(case advance Getting0 p of (t1, p1) \<Rightarrow> case advance t1 p1 of (t2, p2) \<Rightarrow> advance t2 p2) = proceed pool_Get Holding p"
proof -
  have hold: "advance (Holding w) q = (Holding w, q)" "advance (Gone r) q = (Gone r, q)" for w r q by simp_all
  show ?thesis
  proof (cases "conns p")
    case False
    then show ?thesis by (simp add: proceed_def pool_Get_def getConns_def gosimps)
  next
    case True
    obtain r p1 where r: "get_select p = (r, p1)" by fastforce
    show ?thesis
    proof (cases r)
      case (Ok x)
      with True r show ?thesis
        by (cases x) (simp_all add: proceed_def pool_Get_def getConns_def bindS_def retS_def getS_def)
    qed (use True r in \<open>simp_all add: proceed_def pool_Get_def getConns_def bindS_def retS_def getS_def\<close>)
  qed
qed

section \<open>The invariant\<close>

text \<open>The wrapper a goroutine holds, the connections all of them hold, and those the factory made.\<close>

fun holder :: "thread \<Rightarrow> nat option" where
  "holder (Holding w) = Some w"
| "holder (Marking w) = Some w"
| "holder (Putting w) = Some w"
| "holder _ = None"

definition carried :: "channelPool \<Rightarrow> thread \<Rightarrow> conn list" where
  "carried p t = (case holder t of None \<Rightarrow> [] | Some w \<Rightarrow> [the (Closeable (pconns p ! w))])"

definition held_conns :: "channelPool \<Rightarrow> thread list \<Rightarrow> conn list" where
  "held_conns p ts = concat (map (carried p) ts)"

definition made :: "channelPool \<Rightarrow> conn list" where
  "made p = filter (\<lambda>n. dial_err p n = None) [0..<dialled p]"

definition wrapped :: "channelPool \<Rightarrow> thread \<Rightarrow> bool" where
  "wrapped p t = (case holder t of None \<Rightarrow> True | Some w \<Rightarrow> w < length (pconns p) \<and> Closeable (pconns p ! w) \<noteq> None)"

definition pool_inv :: "channelPool \<times> thread list \<Rightarrow> bool" where
  "pool_inv = (\<lambda>(p, ts).
     (\<forall>t \<in> set ts. wrapped p t)
     \<and> mset (buf (chan p) @ held_conns p ts @ shut p) = mset (made p)
     \<and> length (buf (chan p)) \<le> capacity (chan p)
     \<and> factory p = conns p
     \<and> count_list ts (Closing1 True) + of_bool (conns p) + of_bool (chan_closed (chan p)) = 1
     \<and> (Draining \<in> set ts \<longrightarrow> chan_closed (chan p))
     \<and> (chan_closed (chan p) \<longrightarrow> buf (chan p) = [] \<or> Draining \<in> set ts)
     \<and> (\<forall>x. Gone (Panic x) \<in> set ts \<longrightarrow> x = nil_func \<and> \<not> conns p))"

lemma held_conns_simps [simp]:
  "held_conns p [] = []" "held_conns p (t # ts) = carried p t @ held_conns p ts"
  "held_conns p (ts @ us) = held_conns p ts @ held_conns p us"
  by (simp_all add: held_conns_def)

text \<open>What goroutines hold does not change when wrappers are added or marked.\<close>

definition same_conns :: "channelPool \<Rightarrow> channelPool \<Rightarrow> bool" where
  "same_conns p p' \<longleftrightarrow> length (pconns p) \<le> length (pconns p')
     \<and> (\<forall>w < length (pconns p). Closeable (pconns p' ! w) = Closeable (pconns p ! w))"

lemma same_conns_carried:
  "same_conns p p' \<Longrightarrow> wrapped p t \<Longrightarrow> carried p' t = carried p t \<and> wrapped p' t"
  by (auto simp: same_conns_def wrapped_def carried_def split: option.splits)

lemma same_conns_held:
  "same_conns p p' \<Longrightarrow> \<forall>t \<in> set ts. wrapped p t \<Longrightarrow> held_conns p' ts = held_conns p ts \<and> (\<forall>t \<in> set ts. wrapped p' t)"
  by (induction ts) (simp_all add: same_conns_carried)

lemmas pool_defs = proceed_def getConns_def get_select_def get_dial_def call_factory_def wrapConn_def MarkUnusable_def
  PoolConn_Close_def put_def conn_shut_def close_swap_def close_chan_def drain_one_def chan_recv_def chan_send_def
  chan_close_def bindS_def getS_def modS_def retS_def errS_def panicS_def liftR_def ignore_def

text \<open>Every part keeps the connections: what it takes from one place it puts into another.\<close>

lemma Closeable_marked: "Closeable (xs[w := (xs ! w)\<lparr>unusable := b\<rparr>] ! i) = Closeable (xs ! i)"
  by (cases "i = w"; cases "w < length xs") (simp_all add: list_update_beyond)

lemma same_conns_simps [simp]:
  "same_conns p p" "pconns p' = pconns p \<Longrightarrow> same_conns p p'" "pconns p' = pconns p @ [pc] \<Longrightarrow> same_conns p p'"
  "pconns p' = (pconns p)[w := (pconns p ! w)\<lparr>unusable := b\<rparr>] \<Longrightarrow> same_conns p p'"
  by (auto simp: same_conns_def nth_append Closeable_marked)

definition balance :: "channelPool \<Rightarrow> thread \<Rightarrow> conn multiset" where
  "balance p t = mset (buf (chan p)) + mset (carried p t) + mset (shut p)"

lemma made_dial: "dialled p' = Suc (dialled p) \<Longrightarrow> dial_err p' = dial_err p \<Longrightarrow>
    made p' = made p @ (if dial_err p (dialled p) = None then [dialled p] else [])"
  by (simp add: made_def)

lemma advance_accounts:
  assumes "advance t p = (t', p')" "wrapped p t" "factory p = conns p" "conns p \<longrightarrow> \<not> chan_closed (chan p)"
    "t = Draining \<longrightarrow> chan_closed (chan p)" "t = Closing1 True \<longrightarrow> \<not> chan_closed (chan p)"
  shows "same_conns p p'" "wrapped p' t'" "balance p' t' + mset (made p) = balance p t + mset (made p')"
    "length (buf (chan p)) \<le> capacity (chan p) \<Longrightarrow> length (buf (chan p')) \<le> capacity (chan p')"
proof -
  have "same_conns p p' \<and> wrapped p' t' \<and> balance p' t' + mset (made p) = balance p t + mset (made p')
    \<and> (length (buf (chan p)) \<le> capacity (chan p) \<longrightarrow> length (buf (chan p')) \<le> capacity (chan p'))"
  proof (cases t)
    case Getting0
    then show ?thesis using assms(1) by (auto simp: pool_defs wrapped_def balance_def carried_def)
  next
    case (Getting1 seen)
    then show ?thesis using assms(1)
      by (auto simp: pool_defs wrapped_def balance_def carried_def made_def split: if_splits list.splits)
  next
    case Dialling
    show ?thesis
    proof (cases "factory p")
      case True
      then have "dialled p' = Suc (dialled p)" "dial_err p' = dial_err p"
        using assms(1) Dialling by (auto simp: pool_defs split: option.splits)
      with True Dialling assms(1) show ?thesis
        by (auto simp: pool_defs wrapped_def balance_def carried_def made_dial split: option.splits)
    qed (use assms(1) Dialling in \<open>auto simp: pool_defs wrapped_def balance_def carried_def\<close>)
  next
    case (Holding w)
    then show ?thesis using assms(1,2) by (auto simp: wrapped_def balance_def carried_def)
  next
    case (Marking w)
    then show ?thesis using assms(1,2) by (auto simp: pool_defs wrapped_def balance_def carried_def made_def)
  next
    case (Putting w)
    then show ?thesis using assms(1,2,4)
      by (auto simp: pool_defs wrapped_def balance_def carried_def made_def split: if_splits option.splits)
  next
    case Closing0
    then show ?thesis using assms(1) by (auto simp: pool_defs wrapped_def balance_def carried_def made_def)
  next
    case (Closing1 seen)
    then show ?thesis using assms(1)
      by (auto simp: pool_defs wrapped_def balance_def carried_def made_def split: if_splits)
  next
    case Draining
    then show ?thesis using assms(1)
      by (auto simp: pool_defs wrapped_def balance_def carried_def made_def split: if_splits list.splits option.splits)
  next
    case (Gone r)
    then show ?thesis using assms(1,2) by auto
  qed
  then show "same_conns p p'" "wrapped p' t'" "balance p' t' + mset (made p) = balance p t + mset (made p')"
    "length (buf (chan p)) \<le> capacity (chan p) \<Longrightarrow> length (buf (chan p')) \<le> capacity (chan p')"
    by blast+
qed

text \<open>The control part: who cleared the field, closed the channel and drains it.\<close>

lemma advance_control:
  assumes "advance t p = (t', p')" "factory p = conns p" "conns p \<longrightarrow> \<not> chan_closed (chan p)"
    "t = Draining \<longrightarrow> chan_closed (chan p)" "t = Closing1 True \<longrightarrow> \<not> chan_closed (chan p)"
    "wrapped p t"
  shows "factory p' = conns p'"
    "of_bool (t' = Closing1 True) + of_bool (conns p') + of_bool (chan_closed (chan p')) =
     of_bool (t = Closing1 True) + of_bool (conns p) + (of_bool (chan_closed (chan p)) :: nat)"
    "t' = Draining \<or> chan_closed (chan p) \<longrightarrow> chan_closed (chan p')" "conns p' \<longrightarrow> conns p"
    "chan_closed (chan p') \<longrightarrow> t' = Draining \<or> buf (chan p') = [] \<or> (t \<noteq> Draining \<and> chan_closed (chan p) \<and> buf (chan p) \<noteq> [])"
    "t' = Gone (Panic x) \<longrightarrow> t = t' \<or> x = nil_func \<and> \<not> conns p'"
  using assms
  by (cases t; auto simp: pool_defs wrapped_def split: if_splits list.splits option.splits)+

lemma pool_inv_facts:
  assumes "pool_inv (p, ts @ t # us)"
  shows "wrapped p t" "factory p = conns p" "conns p \<longrightarrow> \<not> chan_closed (chan p)"
    "t = Draining \<longrightarrow> chan_closed (chan p)" "t = Closing1 True \<longrightarrow> \<not> chan_closed (chan p)"
  using assms by (auto simp: pool_inv_def split: if_splits)

lemma advance_inv:
  assumes "pool_inv (p, ts @ t # us)" "advance t p = (t', p')"
  shows "pool_inv (p', ts @ t' # us)"
proof -
  note f = pool_inv_facts [OF assms(1)]
  note a = advance_accounts [OF assms(2) f(1-5)] and c = advance_control [OF assms(2) f(2-5,1)]
  note i = assms(1) [unfolded pool_inv_def case_prod_conv]
  have wr: "\<forall>u \<in> set ts. wrapped p u" "\<forall>u \<in> set us. wrapped p u" using i by simp_all
  note h = same_conns_held [OF a(1) wr(1)] same_conns_held [OF a(1) wr(2)]
  have "mset (buf (chan p) @ held_conns p (ts @ t # us) @ shut p) = mset (made p)" using i by blast
  then have "balance p t + mset (held_conns p ts @ held_conns p us) = mset (made p)"
    by (simp add: balance_def ac_simps)
  then have "balance p' t' + mset (held_conns p ts @ held_conns p us) + mset (made p) = mset (made p) + mset (made p')"
    using a(3) by (metis (no_types, lifting) add.assoc add.commute)
  then have "balance p' t' + mset (held_conns p ts @ held_conns p us) = mset (made p')" by simp
  then have acc: "mset (buf (chan p') @ held_conns p' (ts @ t' # us) @ shut p') = mset (made p')"
    using h by (simp add: balance_def ac_simps)
  have cnt: "count_list (ts @ t' # us) (Closing1 True) + of_bool (conns p') + of_bool (chan_closed (chan p')) = 1"
  proof -
    have k: "count_list (ts @ u # us) (Closing1 True) =
        of_bool (u = Closing1 True) + (count_list ts (Closing1 True) + count_list us (Closing1 True))" for u
      by simp
    have "count_list (ts @ t # us) (Closing1 True) + of_bool (conns p) + of_bool (chan_closed (chan p)) = 1"
      using i by blast
    then show ?thesis using c(2) unfolding k by linarith
  qed
  have dr: "Draining \<in> set (ts @ t' # us) \<longrightarrow> chan_closed (chan p')" using i c(3) by auto
  have em: "chan_closed (chan p') \<longrightarrow> buf (chan p') = [] \<or> Draining \<in> set (ts @ t' # us)"
    using i c(3,5) by auto
  have pa: "x = nil_func \<and> \<not> conns p'" if "Gone (Panic x) \<in> set (ts @ t' # us)" for x
    using that i c(4) c(6) [of x] by auto
  have "\<forall>u \<in> set (ts @ t' # us). wrapped p' u" using h a(2) by auto
  then show ?thesis
    unfolding pool_inv_def case_prod_conv using acc a(4) i c(1) cnt dr em pa by blast
qed

lemma pool_inv_step: "pool_step s s' \<Longrightarrow> pool_inv s \<Longrightarrow> pool_inv s'"
proof (induction rule: pool_step.induct)
  case (run t p t' p' ts us)
  then show ?case using advance_inv by blast
qed (auto simp: pool_inv_def wrapped_def carried_def)

lemma pool_inv_steps: "pool_steps s s' \<Longrightarrow> pool_inv s \<Longrightarrow> pool_inv s'"
  by (induction rule: rtranclp_induct) (auto intro: pool_inv_step)

lemma drain_run:
  "buf (chan p) = cs \<Longrightarrow> chan_closed (chan p) \<Longrightarrow>
   drain (Suc (length cs)) p = (Ok (), p\<lparr>chan := (chan p)\<lparr>buf := []\<rparr>, shut := shut p @ cs\<rparr>)"
proof (induction cs arbitrary: p)
  case (Cons c cs)
  let ?p = "p\<lparr>chan := (chan p)\<lparr>buf := cs\<rparr>, shut := shut p @ [c]\<rparr>"
  have "drain_one p = (Ok True, ?p)"
    using Cons.prems by (auto simp: pool_defs split: option.split)
  with Cons.IH [of ?p] Cons.prems(2) show ?case by (simp add: bindS_def)
qed (simp add: pool_defs)

lemma pool_Close_run:
  assumes "conns p" "\<not> chan_closed (chan p)"
  shows "pool_Close p = (Ok (), p\<lparr>conns := False, factory := False, chan := (chan p)\<lparr>buf := [], chan_closed := True\<rparr>,
    shut := shut p @ buf (chan p)\<rparr>)"
  using drain_run [of "p\<lparr>conns := False, factory := False, chan := (chan p)\<lparr>chan_closed := True\<rparr>\<rparr>" "buf (chan p)"] assms
  by (simp add: pool_Close_def close_swap_def close_chan_def chan_close_def bindS_def getS_def modS_def retS_def liftR_def
      del: drain.simps)

section \<open>A new pool\<close>

text \<open>Filling never waits; when the factory fails, what it made before is closed.\<close>

lemma fill_run:
  "pool_inv (p, []) \<Longrightarrow> conns p \<Longrightarrow> length (buf (chan p)) + n \<le> capacity (chan p) \<Longrightarrow> shut p = [] \<Longrightarrow>
   case fill n p of
     (Ok _, p') \<Rightarrow> pool_inv (p', []) \<and> conns p' \<and> capacity (chan p') = capacity (chan p)
   | (Err _, p') \<Rightarrow> mset (shut p') = mset (made p')
   | (Panic _, p') \<Rightarrow> False"
proof (induction n arbitrary: p)
  case (Suc n)
  let ?p = "p\<lparr>dialled := dialled p + 1\<rparr>"
  have i: "factory p" "\<not> chan_closed (chan p)" "mset (buf (chan p)) = mset (made p)"
    using Suc.prems by (auto simp: pool_inv_def split: if_splits)
  show ?case
  proof (cases "dial_err p (dialled p)")
    case None
    let ?q = "?p\<lparr>chan := (chan p)\<lparr>buf := buf (chan p) @ [dialled p]\<rparr>\<rparr>"
    have run: "fill (Suc n) p = fill n ?q"
      using i None Suc.prems(3) by (simp add: call_factory_def tryS_def chan_send_def bindS_def getS_def modS_def liftR_def)
    have "made ?q = made p @ [dialled p]" using None made_dial [of ?q p] by simp
    then have "pool_inv (?q, [])" using i Suc.prems by (simp add: pool_inv_def)
    from Suc.IH [OF this] Suc.prems show ?thesis unfolding run by (simp split: prod.splits gores.splits)
  next
    case (Some e)
    have "conns ?p" "\<not> chan_closed (chan ?p)" using i Suc.prems(2) by simp_all
    from pool_Close_run [OF this]
    have "\<exists>e'. fill (Suc n) p = (Err e', ?p\<lparr>conns := False, factory := False,
        chan := (chan p)\<lparr>buf := [], chan_closed := True\<rparr>, shut := buf (chan p)\<rparr>)"
      using i Some Suc.prems(4) by (simp add: call_factory_def tryS_def bindS_def errS_def)
    moreover have "made (?p\<lparr>conns := False, factory := False,
        chan := (chan p)\<lparr>buf := [], chan_closed := True\<rparr>, shut := buf (chan p)\<rparr>) = made p"
      using Some by (simp add: made_def)
    ultimately show ?thesis using i(3) by auto
  qed
qed (simp add: retS_def)

lemma new_pool:
  assumes "NewChannelPool i m p0 = (Ok (), p)" "dialled p0 = 0" "shut p0 = []"
  shows "pool_inv (p, [])" "int (capacity (chan p)) = m"
proof -
  let ?q = "p0\<lparr>conns := True, factory := True, chan := \<lparr>buf = [], capacity = nat m, chan_closed = False\<rparr>\<rparr>"
  have m: "0 \<le> i" "0 < m" "i \<le> m" and f: "fill (nat i) ?q = (Ok (), p)"
    using assms(1) by (auto simp: NewChannelPool_def errS_def bindS_def modS_def split: if_splits)
  have "pool_inv (?q, [])" using assms(2,3) by (simp add: pool_inv_def made_def)
  from fill_run [OF this, of "nat i"] m assms(3) show "pool_inv (p, [])" "int (capacity (chan p)) = m"
    by (simp_all add: f)
qed

lemma capacity_steps: "pool_steps s s' \<Longrightarrow> capacity (chan (fst s')) = capacity (chan (fst s))"
proof (induction rule: rtranclp_induct)
  case (step y z)
  have "capacity (chan p') = capacity (chan p)" if "advance t p = (t', p')" for t p t' p'
    using that by (cases t) (auto simp: pool_defs split: if_splits list.splits option.splits)
  with step show ?case by (auto elim!: pool_step.cases)
qed simp

text \<open>Interleavings that can be run: who does the next part.\<close>

datatype turn = NewGet | NewClose | Back nat | Mark nat | Next nat

fun play1 :: "turn \<Rightarrow> channelPool \<times> thread list \<Rightarrow> (channelPool \<times> thread list) option" where
  "play1 NewGet (p, ts) = Some (p, Getting0 # ts)"
| "play1 NewClose (p, ts) = Some (p, Closing0 # ts)"
| "play1 (Back i) (p, ts) =
     (if i < length ts then case ts ! i of Holding w \<Rightarrow> Some (p, ts[i := Putting w]) | _ \<Rightarrow> None else None)"
| "play1 (Mark i) (p, ts) =
     (if i < length ts then case ts ! i of Holding w \<Rightarrow> Some (p, ts[i := Marking w]) | _ \<Rightarrow> None else None)"
| "play1 (Next i) (p, ts) =
     (if i < length ts then case advance (ts ! i) p of (t', p') \<Rightarrow> Some (p', ts[i := t']) else None)"

primrec play :: "turn list \<Rightarrow> channelPool \<times> thread list \<Rightarrow> (channelPool \<times> thread list) option" where
  "play [] s = Some s"
| "play (a # as) s = Option.bind (play1 a s) (play as)"

lemma play1_step: "play1 a s = Some s' \<Longrightarrow> pool_step s s'"
proof (induction a s rule: play1.induct)
  case (3 i p ts)
  then obtain w where w: "i < length ts" "ts ! i = Holding w" "s' = (p, ts[i := Putting w])"
    by (auto split: if_splits thread.splits)
  then show ?case
    using start_put [of p "take i ts" w "drop (Suc i) ts"] by (metis id_take_nth_drop upd_conv_take_nth_drop)
next
  case (4 i p ts)
  then obtain w where w: "i < length ts" "ts ! i = Holding w" "s' = (p, ts[i := Marking w])"
    by (auto split: if_splits thread.splits)
  then show ?case
    using start_mark [of p "take i ts" w "drop (Suc i) ts"] by (metis id_take_nth_drop upd_conv_take_nth_drop)
next
  case (5 i p ts)
  then obtain t' p' where t: "i < length ts" "advance (ts ! i) p = (t', p')" "s' = (p', ts[i := t'])"
    by (auto split: if_splits prod.splits)
  then show ?case
    using run [OF t(2), of "take i ts" "drop (Suc i) ts"] by (metis id_take_nth_drop upd_conv_take_nth_drop)
qed (auto intro: pool_step.intros)

lemma play_steps: "play as s = Some s' \<Longrightarrow> pool_steps s s'"
  by (induction as arbitrary: s)
    (auto simp: bind_eq_Some_conv intro: converse_rtranclp_into_rtranclp play1_step)

definition fresh_pool :: channelPool where
  "fresh_pool = \<lparr>conns = True, factory = True, chan = \<lparr>buf = [], capacity = 1, chan_closed = False\<rparr>,
     pconns = [], dialled = 0, dial_err = (\<lambda>_. None), close_err = (\<lambda>_. None), shut = []\<rparr>"

lemma fresh_pool_new: "NewChannelPool 0 1 fresh_pool = (Ok (), fresh_pool)" "dialled fresh_pool = 0" "shut fresh_pool = []"
  by (simp_all add: NewChannelPool_def fresh_pool_def bindS_def modS_def retS_def)

text \<open>
  C34: the pool neither loses nor shares a connection, however many goroutines get, return, mark and close
  at the same time: in every reachable state the connections the factory made are the ones that wait in
  the pool, the ones goroutines hold and the ones that were closed, each in exactly one of these places and
  once, and at most as many wait as the pool has room for.  When the pool was closed and all goroutines are
  done, every connection has been closed exactly once.
\<close>

theorem pool_keeps_connections:
  assumes "NewChannelPool i m p0 = (Ok (), p)" "dialled p0 = 0" "shut p0 = []" "pool_steps (p, []) (p', ts)"
  shows "distinct (buf (chan p') @ held_conns p' ts @ shut p')
    \<and> set (buf (chan p') @ held_conns p' ts @ shut p') = {n. n < dialled p' \<and> dial_err p' n = None}
    \<and> int (length (buf (chan p'))) \<le> m
    \<and> (\<not> conns p' \<and> (\<forall>t \<in> set ts. \<exists>r. t = Gone r) \<longrightarrow>
        distinct (shut p') \<and> set (shut p') = {n. n < dialled p' \<and> dial_err p' n = None})"
proof -
  have i: "pool_inv (p', ts)" by (rule pool_inv_steps [OF assms(4) new_pool(1) [OF assms(1-3)]])
  have c: "int (capacity (chan p')) = m" using capacity_steps [OF assms(4)] new_pool(2) [OF assms(1-3)] by simp
  have e: "mset (buf (chan p') @ held_conns p' ts @ shut p') = mset (made p')" using i by (simp add: pool_inv_def)
  have d: "distinct (made p')" "set (made p') = {n. n < dialled p' \<and> dial_err p' n = None}" by (auto simp: made_def)
  have all: "distinct (buf (chan p') @ held_conns p' ts @ shut p')"
    "set (buf (chan p') @ held_conns p' ts @ shut p') = {n. n < dialled p' \<and> dial_err p' n = None}"
    using d mset_eq_imp_distinct_iff [OF e] mset_eq_setD [OF e] by auto
  have "buf (chan p') = [] \<and> held_conns p' ts = []" if g: "\<not> conns p'" "\<forall>t \<in> set ts. \<exists>r. t = Gone r"
  proof -
    have "count_list ts (Closing1 True) = 0" "Draining \<notin> set ts" using g(2) by (auto simp: count_list_0_iff)
    then have "buf (chan p') = []" using i g(1) by (auto simp: pool_inv_def split: if_splits)
    moreover have "carried p' t = []" if "t \<in> set ts" for t using g(2) that by (auto simp: carried_def)
    then have "held_conns p' ts = []" by (simp add: held_conns_def)
    ultimately show ?thesis ..
  qed
  moreover have "int (length (buf (chan p'))) \<le> m" using i c by (auto simp: pool_inv_def)
  ultimately show ?thesis using all by auto
qed

theorem pool_keeps_connections_witness:
  "\<exists>p ts. play [NewGet, Next 0, Next 0, Next 0, Back 0, Next 0, NewClose, Next 0, Next 0, Next 0, Next 0] (fresh_pool, []) = Some (p, ts)
     \<and> shut p = [0] \<and> set (shut p) = {n. n < dialled p \<and> dial_err p n = None}"
proof -
  obtain p ts where p: "play [NewGet, Next 0, Next 0, Next 0, Back 0, Next 0, NewClose, Next 0, Next 0, Next 0, Next 0]
      (fresh_pool, []) = Some (p, ts)" "shut p = [0]" "\<not> conns p" "ts = [Gone (Ok ()), Gone (Ok ())]"
    by (simp add: fresh_pool_def pool_defs)
  from pool_keeps_connections [OF fresh_pool_new play_steps [OF p(1)]] p(3,4)
  have "set (shut p) = {n. n < dialled p \<and> dial_err p n = None}" by simp
  with p(1,2) show ?thesis by blast
qed

text \<open>
  C35: no interleaving sends on a closed channel, closes one twice or blocks in the middle of draining: a
  goroutine panics only in one way, by calling the factory after \<open>Close\<close> has set the field to nil.
\<close>

theorem pool_panics_only_on_factory:
  assumes "NewChannelPool i m p0 = (Ok (), p)" "dialled p0 = 0" "shut p0 = []" "pool_steps (p, []) (p', ts)"
    and "Gone (Panic x) \<in> set ts"
  shows "x = nil_func \<and> \<not> conns p'"
  using pool_inv_steps [OF assms(4) new_pool(1) [OF assms(1-3)]] assms(5) by (simp add: pool_inv_def)

text \<open>This does happen: \<open>Get\<close> finds the pool empty between the two halves of \<open>Close\<close>.\<close>

theorem pool_panics_only_on_factory_witness:
  "\<exists>p. play [NewGet, Next 0, NewClose, Next 0, Next 1, Next 1] (fresh_pool, []) = Some (p, [Closing1 True, Gone (Panic nil_func)])
     \<and> \<not> conns p"
proof -
  obtain p where p: "play [NewGet, Next 0, NewClose, Next 0, Next 1, Next 1] (fresh_pool, []) =
      Some (p, [Closing1 True, Gone (Panic nil_func)])"
    by (simp add: fresh_pool_def pool_defs)
  from pool_panics_only_on_factory [OF fresh_pool_new play_steps [OF p], of nil_func] p show ?thesis by auto
qed

section \<open>The pool of clients\<close>

text \<open>A client is its connection; \<open>poolConn\<close> is the field that \<open>Get\<close> sets in it.\<close>

record clientPool = channelPool +
  poolConn :: "conn \<Rightarrow> nat option"

definition newPool :: "int \<Rightarrow> ('m clientPool_scheme, unit) gofun" where
  "newPool cap = NewChannelPool 0 cap"

definition cpool_Get :: "('m clientPool_scheme, conn) gofun" where
  "cpool_Get =
     bindS pool_Get (\<lambda>w.
     bindS (getS (\<lambda>p. Closeable (pconns p ! w))) (\<lambda>c.
     case c of
       None \<Rightarrow> panicS ''Connection is not a Faktory client instance''
     | Some c \<Rightarrow> bindS (modS (\<lambda>p. p\<lparr>poolConn := (poolConn p)(c := Some w)\<rparr>)) (\<lambda>_. retS c)))"

definition cpool_Put :: "conn \<Rightarrow> ('m clientPool_scheme, unit) gofun" where
  "cpool_Put c =
     bindS (getS (\<lambda>p. poolConn p c)) (\<lambda>pc.
     case pc of None \<Rightarrow> panicS nil_func | Some w \<Rightarrow> ignore (PoolConn_Close w))"

definition markUnusable :: "conn \<Rightarrow> ('m clientPool_scheme, unit) gofun" where
  "markUnusable c =
     bindS (getS (\<lambda>p. poolConn p c)) (\<lambda>pc.
     case pc of None \<Rightarrow> retS () | Some w \<Rightarrow> MarkUnusable w)"

text \<open>\<open>With\<close> puts the client back whatever the function does, also when it panics.\<close>

definition With :: "(conn \<Rightarrow> ('m clientPool_scheme, unit) gofun) \<Rightarrow> ('m clientPool_scheme, unit) gofun" where
  "With fn =
     bindS cpool_Get (\<lambda>c.
     bindS (tryS (fn c)) (\<lambda>r.
     bindS (cpool_Put c) (\<lambda>_. liftR r)))"

text \<open>
  \<open>With\<close> on a pool with a waiting client \<open>c\<close>, or whose factory makes one: the function runs with it, its result
  (an error or a panic too) is the result, and the client waits in the pool again, unless the function
  marked it unusable: then it is closed.
\<close>

lemma With_returns_client:
  assumes "conns p" "factory p" "\<not> chan_closed (chan p)" "length (buf (chan p)) \<le> capacity (chan p)" "0 < capacity (chan p)"
    and "buf (chan p) = c # cs \<or> buf (chan p) = [] \<and> cs = [] \<and> c = dialled p \<and> dial_err p c = None"
    and "fn = (\<lambda>c. if broken then bindS (markUnusable c) (\<lambda>_. liftR r) else liftR r)"
  shows "\<exists>p'. With fn p = (r, p')
    \<and> (if broken then buf (chan p') = cs \<and> shut p' = shut p @ [c] else buf (chan p') = cs @ [c] \<and> shut p' = shut p)"
proof -
  have g: "\<exists>q w. cpool_Get p = (Ok c, q) \<and> poolConn q c = Some w \<and> w < length (pconns q)
      \<and> pconns q ! w = \<lparr>Closeable = Some c, unusable = False\<rparr> \<and> conns q \<and> chan q = (chan p)\<lparr>buf := cs\<rparr> \<and> shut q = shut p"
    using assms(1-3,6) by (auto simp: cpool_Get_def pool_Get_def pool_defs)
  then obtain q w where q: "cpool_Get p = (Ok c, q)" "poolConn q c = Some w" "w < length (pconns q)"
    "pconns q ! w = \<lparr>Closeable = Some c, unusable = False\<rparr>" "conns q" "chan q = (chan p)\<lparr>buf := cs\<rparr>" "shut q = shut p"
    by blast
  have l: "length cs < capacity (chan p)" using assms(4,5,6) by auto
  show ?thesis
  proof (cases broken)
    case True
    let ?q = "q\<lparr>pconns := (pconns q)[w := \<lparr>Closeable = Some c, unusable = True\<rparr>]\<rparr>"
    have "fn c q = (r, ?q)" using True q by (simp add: assms(7) markUnusable_def MarkUnusable_def bindS_def getS_def modS_def liftR_def)
    moreover have "cpool_Put c ?q = (Ok (), ?q\<lparr>shut := shut p @ [c]\<rparr>)"
      using q by (auto simp: cpool_Put_def pool_defs split: option.split)
    ultimately show ?thesis using True q by (simp add: With_def bindS_def tryS_def liftR_def)
  next
    case False
    have "fn c q = (r, q)" using False by (simp add: assms(7) liftR_def)
    moreover have "cpool_Put c q = (Ok (), q\<lparr>chan := (chan q)\<lparr>buf := cs @ [c]\<rparr>\<rparr>)"
      using q l assms(3) by (simp add: cpool_Put_def pool_defs)
    ultimately show ?thesis using False q by (simp add: With_def bindS_def tryS_def liftR_def)
  qed
qed

text \<open>\<open>Get\<close> of an open pool never waits: with nothing in the pool it calls the factory, however many clients are out.\<close>

lemma get_never_waits:
  assumes "conns p" "factory p" "\<not> chan_closed (chan p)" "buf (chan p) = []" "dial_err p (dialled p) = None"
  shows "\<exists>q. pool_Get p = (Ok (length (pconns p)), q) \<and> dialled q = Suc (dialled p)"
  using assms by (simp add: pool_Get_def pool_defs)

end
