(* ===== verification/Mutate.thy ===== *)
theory Mutate
  imports Manager
begin

text \<open>
  The MUTATE operations on the sorted sets (\<open>server/mutate.go\<close>, the types of \<open>client/mutate.go\<close>) and
  \<open>Find\<close> of \<open>storage/sorted_redis.go\<close> below them.  \<open>ZSCAN\<close> with a \<open>MATCH\<close> pattern is a command of its own
  here, an argument \<open>zs\<close> of the operations: from a cursor it gives a page of entries and the next cursor,
  0 at the end.
\<close>

type_synonym 's zscan = "string \<Rightarrow> nat \<Rightarrow> string \<Rightarrow> 's \<Rightarrow> ((string \<times> rat) list \<times> nat) gores \<times> 's"

text \<open>
  The iterator asks for the next page when the current one is used up; the fuel is the number of pages.
\<close>

fun find_loop :: "nat \<Rightarrow> 's zscan \<Rightarrow> string \<Rightarrow> string \<Rightarrow> nat \<Rightarrow> nat \<Rightarrow>
    (nat \<Rightarrow> setEntry \<Rightarrow> (('s, 'm) store_scheme, unit) gofun) \<Rightarrow> (('s, 'm) store_scheme, unit) gofun" where
  "find_loop 0 zs name pat cursor idx fn = panicS fuel_out"
| "find_loop (Suc f) zs name pat cursor idx fn =
     bindS (call (zs name cursor pat)) (\<lambda>(page, next).
     bindS (for_idx (\<lambda>i (m, x). fn i (NewEntry x m)) idx page) (\<lambda>_.
       if next = 0 then retS () else find_loop f zs name pat next (idx + length page) fn))"

definition Find :: "nat \<Rightarrow> 's zscan \<Rightarrow> string \<Rightarrow> string \<Rightarrow> (nat \<Rightarrow> setEntry \<Rightarrow> (('s, 'm) store_scheme, unit) gofun) \<Rightarrow>
    (('s, 'm) store_scheme, unit) gofun" where
  "Find fuel zs name pat fn = find_loop fuel zs name pat 0 0 fn"

record JobFilter =
  Jids :: "string list option"
  Regexp :: string
  Jobtype :: string

record Operation =
  op_Cmd :: string
  op_Target :: string
  op_Filter :: "JobFilter option"

definition setForTarget :: "string \<Rightarrow> string option" where
  "setForTarget name =
     (if name = ''retries'' \<or> name = ''dead'' \<or> name = ''scheduled'' then Some name else None)"

definition quoted_field :: "string \<Rightarrow> string \<Rightarrow> string" where
  "quoted_field k v = [CHR 0x22] @ k @ [CHR 0x22] @ '':'' @ [CHR 0x22] @ v @ [CHR 0x22]"

definition AlwaysMatch :: "string \<Rightarrow> bool" where
  "AlwaysMatch value = True"

text \<open>The pattern for Redis and the test of a payload.\<close>

definition matchForFilter :: "JobFilter option \<Rightarrow> string \<times> (string \<Rightarrow> bool)" where
  "matchForFilter flt =
     (case flt of
        None \<Rightarrow> (''*'', AlwaysMatch)
      | Some f \<Rightarrow>
          if Regexp f \<noteq> [] then
            (if Jobtype f = [] then (Regexp f, AlwaysMatch)
             else (Regexp f, \<lambda>value. 0 < str_index value (quoted_field ''jobtype'' (Jobtype f))))
          else if Jobtype f \<noteq> [] then (''*'' @ quoted_field ''jobtype'' (Jobtype f) @ ''*'', AlwaysMatch)
          else
            (case Jids f of
               Some (j # js) \<Rightarrow>
                 (''*'', \<lambda>value. list_ex (\<lambda>jid. 0 < str_index value (quoted_field ''jid'' jid)) (j # js))
             | _ \<Rightarrow> (''*'', AlwaysMatch)))"

definition invalid_target :: gerror where
  "invalid_target = GErr ''Invalid target for mutation command''"

definition mutateClear :: "'s redis \<Rightarrow> string \<Rightarrow> (('s, 'm) store_scheme, unit) gofun" where
  "mutateClear rd target =
     (case setForTarget target of None \<Rightarrow> errS invalid_target | Some ss \<Rightarrow> Clear rd ss)"

definition mutateKill :: "nat \<Rightarrow> 's zscan \<Rightarrow> 's redis \<Rightarrow> Operation \<Rightarrow> (('s, 'm) store_scheme, unit) gofun" where
  "mutateKill fuel zs rd op =
     (case setForTarget (op_Target op) of
        None \<Rightarrow> errS invalid_target
      | Some ss \<Rightarrow>
          (let (pat, matchfn) = matchForFilter (op_Filter op) in
           Find fuel zs ss pat (\<lambda>_ ent.
             if matchfn (entry_value ent)
             then bindS Now (\<lambda>now. MoveTo rd ss ''dead'' ent (now + DeadTTL))
             else retS ())))"

definition mutateRequeue :: "nat \<Rightarrow> 's zscan \<Rightarrow> 's redis \<Rightarrow> Operation \<Rightarrow> (('s, 'm) store_scheme, unit) gofun" where
  "mutateRequeue fuel zs rd op =
     (case setForTarget (op_Target op) of
        None \<Rightarrow> errS invalid_target
      | Some ss \<Rightarrow>
          (let (pat, matchfn) = matchForFilter (op_Filter op) in
           Find fuel zs ss pat (\<lambda>_ ent.
             if matchfn (entry_value ent)
             then
               bindS (liftR (entry_Job ent)) (\<lambda>j.
               bindS (GetQueue rd (Queue j)) (\<lambda>q.
               bindS (queue_Push rd q (entry_value ent)) (\<lambda>_.
               RemoveEntry rd ss ent)))
             else retS ())))"

definition mutateDiscard :: "nat \<Rightarrow> 's zscan \<Rightarrow> 's redis \<Rightarrow> Operation \<Rightarrow> (('s, 'm) store_scheme, unit) gofun" where
  "mutateDiscard fuel zs rd op =
     (case setForTarget (op_Target op) of
        None \<Rightarrow> errS invalid_target
      | Some ss \<Rightarrow>
          if op_Filter op = None then Clear rd ss
          else
            (let (pat, matchfn) = matchForFilter (op_Filter op) in
             Find fuel zs ss pat (\<lambda>_ ent.
               if matchfn (entry_value ent) then RemoveEntry rd ss ent else retS ())))"

section \<open>JSON form of an operation\<close>

definition filter_fields :: "JobFilter fields" where
  "filter_fields =
     [(''jids'', fld (dec_slice dec_str [] ''[]string'') Jids (\<lambda>a r. r\<lparr>Jids := a\<rparr>)),
      (''regexp'', fld dec_str Regexp (\<lambda>a r. r\<lparr>Regexp := a\<rparr>)),
      (''jobtype'', fld dec_str Jobtype (\<lambda>a r. r\<lparr>Jobtype := a\<rparr>))]"

definition zero_filter :: JobFilter where
  "zero_filter = \<lparr>Jids = None, Regexp = [], Jobtype = []\<rparr>"

definition operation_fields :: "Operation fields" where
  "operation_fields =
     [(''cmd'', fld dec_str op_Cmd (\<lambda>a r. r\<lparr>op_Cmd := a\<rparr>)),
      (''target'', fld dec_str op_Target (\<lambda>a r. r\<lparr>op_Target := a\<rparr>)),
      (''filter'', fld (dec_ptr ''client.JobFilter'' filter_fields zero_filter) op_Filter
                     (\<lambda>a r. r\<lparr>op_Filter := a\<rparr>))]"

definition zero_operation :: Operation where
  "zero_operation = \<lparr>op_Cmd = [], op_Target = [], op_Filter = None\<rparr>"

definition unmarshal_operation :: "string \<Rightarrow> Operation gores" where
  "unmarshal_operation s = unmarshal ''client.Operation'' operation_fields s zero_operation"

text \<open>The operation a MUTATE command carries out.\<close>

definition run_operation :: "nat \<Rightarrow> 's zscan \<Rightarrow> 's redis \<Rightarrow> Operation \<Rightarrow> (('s, 'm) store_scheme, unit) gofun" where
  "run_operation fuel zs rd op =
     (if op_Cmd op = ''clear'' then mutateClear rd (op_Target op)
      else if op_Cmd op = ''kill'' then mutateKill fuel zs rd op
      else if op_Cmd op = ''discard'' then mutateDiscard fuel zs rd op
      else if op_Cmd op = ''requeue'' then mutateRequeue fuel zs rd op
      else errS (GErr ''Unknown mutate operation''))"

end
