(* ===== verification/Wire.thy ===== *)
theory Wire
  imports Storage
begin

text \<open>
  The wire protocol between clients and the server: the responses a connection writes
  (\<open>server/connection.go\<close>), how the client reads them (\<open>readResponse\<close> of \<open>client/client.go\<close>), and how a
  request is written by the client (\<open>writeLine\<close>) and cut into lines and verbs by the server
  (\<open>processLines\<close> of \<open>server/server.go\<close>).  A stream is the string of bytes still to be read; a read that
  needs more bytes than there are fails, which stands for any error of the connection.
\<close>

definition crlf :: string where
  "crlf = [CHR 0x0D, CHR 0x0A]"

section \<open>Responses of the server (connection.go)\<close>

definition conn_Error :: "gerror \<Rightarrow> string" where
  "conn_Error e =
     (case e of
        KnownErr code msg \<Rightarrow> ''-'' @ code @ '' '' @ msg @ crlf
      | GErr msg \<Rightarrow> ''-ERR '' @ msg @ crlf)"

definition conn_Ok :: string where
  "conn_Ok = ''+OK'' @ crlf"

definition conn_Number :: "int \<Rightarrow> string" where
  "conn_Number val = '':'' @ show_int val @ crlf"

definition conn_Result :: "string option \<Rightarrow> string" where
  "conn_Result msg =
     (case msg of
        None \<Rightarrow> ''$-1'' @ crlf
      | Some m \<Rightarrow> ''$'' @ show_nat (length m) @ crlf @ m @ crlf)"

section \<open>Reading in the client (client.go)\<close>

text \<open>\<open>bufio.Reader.ReadBytes('\n')\<close>: the bytes up to and with the newline, and the rest.\<close>

fun read_line :: "string \<Rightarrow> (string \<times> string) option" where
  "read_line [] = None"
| "read_line (c # s) =
     (if c = CHR 0x0A then Some ([c], s)
      else map_option (\<lambda>(l, r). (c # l, r)) (read_line s))"

text \<open>
  The outcomes of \<open>readResponse\<close>: data, where \<open>None\<close> is the nil slice, an error reported by the server
  (\<open>*ProtocolError\<close>), any other error, which makes the connection unusable, or a panic.
\<close>

datatype read_result =
    RData "string option"
  | RProtocolError string
  | RFail string
  | RPanic string

definition eof :: string where
  "eof = ''EOF''"

definition readResponse :: "string \<Rightarrow> read_result \<times> string" where
  "readResponse s =
     (case s of
        [] \<Rightarrow> (RFail eof, [])
      | chr # s \<Rightarrow>
          (case read_line s of
             None \<Rightarrow> (RFail eof, [])
           | Some (line, s) \<Rightarrow>
               if length line < 2 then (RPanic ''runtime error: slice bounds out of range'', s)
               else
                 let line = take (length line - 2) line in
                 if chr = CHR ''$'' then
                   (case atoi line of
                      Ok count \<Rightarrow>
                        if count = - 1 then (RData None, s)
                        else if length s < nat count then (RFail eof, [])
                        else
                          (case read_line (drop (nat count) s) of
                             None \<Rightarrow> (RFail eof, [])
                           | Some (_, r) \<Rightarrow> (RData (if 0 < count then Some (take (nat count) s) else None), r))
                    | Err e \<Rightarrow> (RFail (err_text e), s)
                    | Panic p \<Rightarrow> (RPanic p, s))
                 else if chr = CHR ''-'' then (RProtocolError line, s)
                 else (RData (Some line), s)))"

text \<open>\<open>ok\<close>: the error, if any, of a request that is answered by \<open>OK\<close>.\<close>

definition client_ok :: "string \<Rightarrow> read_result option \<times> string" where
  "client_ok s =
     (case readResponse s of
        (RData v, r) \<Rightarrow>
          (let val = (case v of None \<Rightarrow> [] | Some x \<Rightarrow> x) in
           (if val = ''OK'' then None else Some (RFail (''Invalid response: '' @ val)), r))
      | (e, r) \<Rightarrow> (Some e, r))"

definition readString :: "string \<Rightarrow> read_result \<times> string" where
  "readString s =
     (case readResponse s of
        (RData None, r) \<Rightarrow> (RData (Some []), r)
      | x \<Rightarrow> x)"

section \<open>Requests\<close>

definition writeLine :: "string \<Rightarrow> string option \<Rightarrow> string" where
  "writeLine op payload = op @ (case payload of None \<Rightarrow> [] | Some p \<Rightarrow> '' '' @ p) @ crlf"

text \<open>What the loop of \<open>processLines\<close> does with the line it has read: the command, and its verb.\<close>

definition command_of_line :: "string \<Rightarrow> string" where
  "command_of_line line = trim_suffix (trim_suffix line crlf) [CHR 0x0A]"

definition verb_of :: "string \<Rightarrow> string" where
  "verb_of cmd = (let idx = str_index cmd '' '' in if 0 \<le> idx then take (nat idx) cmd else cmd)"

section \<open>Round trips\<close>

lemma read_line_crlf: "CHR 0x0A \<notin> set l \<Longrightarrow> read_line (l @ crlf @ s) = Some (l @ crlf, s)"
  by (induction l) (auto simp: crlf_def)

lemma read_line_lf: "CHR 0x0A \<notin> set l \<Longrightarrow> read_line (l @ CHR 0x0A # s) = Some (l @ [CHR 0x0A], s)"
  by (induction l) auto

lemma length_crlf [simp]: "length crlf = 2"
  by (simp add: crlf_def)

lemma show_int_line: "CHR 0x0A \<notin> set (show_int i)"
  using show_nat_digits [of "CHR 0x0A" "nat i"] show_nat_digits [of "CHR 0x0A" "nat (- i)"]
  by (auto simp: show_int_def is_digit_def)

lemma readResponse_line:
  assumes "CHR 0x0A \<notin> set l" "c \<noteq> CHR ''$''"
  shows "readResponse (c # l @ crlf @ s) = (if c = CHR ''-'' then RProtocolError l else RData (Some l), s)"
  using assms by (simp add: readResponse_def read_line_crlf Let_def)

lemma readResponse_bulk:
  assumes "length m < 2 ^ 63"
  shows "readResponse (conn_Result (Some m) @ s) = (RData (if m = [] then None else Some m), s)"
proof -
  have a: "atoi (show_int (int (length m))) = Ok (int (length m))"
    by (rule atoi_show_int) (use assms in \<open>simp_all add: nat_less_iff\<close>)
  have "read_line (show_nat (length m) @ crlf @ m @ crlf @ s) = Some (show_nat (length m) @ crlf, m @ crlf @ s)"
    using show_int_line [of "int (length m)"] by (intro read_line_crlf) (simp add: show_int_def)
  moreover have "read_line (crlf @ s) = Some (crlf, s)"
    using read_line_crlf [of "[]" s] by simp
  ultimately show ?thesis
    using a
    by (simp add: readResponse_def conn_Result_def Let_def show_int_def)
qed

lemma readResponse_nil: "readResponse (conn_Result None @ s) = (RData None, s)"
proof -
  have "atoi ''-1'' = Ok (- 1)"
    using atoi_show_int [of "- 1"] by (simp add: show_int_def show_nat.simps digit_char_def)
  moreover have "read_line (''-1'' @ crlf @ s) = Some (''-1'' @ crlf, s)"
    by (rule read_line_crlf) simp
  ultimately show ?thesis
    by (simp add: readResponse_def conn_Result_def Let_def)
qed

text \<open>Everything a connection can answer.\<close>

datatype response =
    ROk
  | RNumber int
  | RResult "string option"
  | RError gerror

fun write_response :: "response \<Rightarrow> string" where
  "write_response ROk = conn_Ok"
| "write_response (RNumber n) = conn_Number n"
| "write_response (RResult m) = conn_Result m"
| "write_response (RError e) = conn_Error e"

text \<open>What the client should see, and the responses for which it does.\<close>

fun client_view :: "response \<Rightarrow> read_result" where
  "client_view ROk = RData (Some ''OK'')"
| "client_view (RNumber n) = RData (Some (show_int n))"
| "client_view (RResult m) = RData (if m = Some [] then None else m)"
| "client_view (RError e) = RProtocolError (case e of GErr m \<Rightarrow> ''ERR '' @ m | KnownErr c m \<Rightarrow> c @ '' '' @ m)"

fun response_ok :: "response \<Rightarrow> bool" where
  "response_ok (RResult (Some m)) = (length m < 2 ^ 63)"
| "response_ok (RError e) = (CHR 0x0A \<notin> set (err_text e))"
| "response_ok _ = True"

lemma read_write_response:
  assumes "response_ok r"
  shows "readResponse (write_response r @ s) = (client_view r, s)"
proof (cases r)
  case ROk
  then show ?thesis
    using readResponse_line [of "''OK''" "CHR ''+''" s] by (simp add: conn_Ok_def)
next
  case (RNumber n)
  then show ?thesis
    using readResponse_line [of "show_int n" "CHR '':''" s] show_int_line by (simp add: conn_Number_def)
next
  case (RResult m)
  then show ?thesis
    using assms readResponse_bulk readResponse_nil by (cases m) auto
next
  case (RError e)
  show ?thesis
  proof (cases e)
    case (GErr m)
    then show ?thesis
      using RError assms readResponse_line [of "''ERR '' @ m" "CHR ''-''" s]
      by (simp add: conn_Error_def err_text_def)
  next
    case (KnownErr c m)
    then show ?thesis
      using RError assms readResponse_line [of "c @ '' '' @ m" "CHR ''-''" s]
      by (simp add: conn_Error_def err_text_def)
  qed
qed

text \<open>Reading several responses from one stream.\<close>

fun read_responses :: "nat \<Rightarrow> string \<Rightarrow> read_result list \<times> string" where
  "read_responses 0 s = ([], s)"
| "read_responses (Suc n) s =
     (case readResponse s of (r, s) \<Rightarrow> (case read_responses n s of (ps, s) \<Rightarrow> (r # ps, s)))"

text \<open>
  C25: the client reads exactly the responses the server wrote, in order, however they arrive in one stream,
  and leaves the rest of the stream alone: results byte for byte, whatever bytes they contain (an empty
  result comes back as nil), errors with their text, if that has no newline.
\<close>

theorem responses_roundtrip:
  assumes "\<forall>r \<in> set ps. response_ok r"
  shows "read_responses (length ps) (concat (map write_response ps) @ s) = (map client_view ps, s)"
  using assms by (induction ps) (simp_all add: read_write_response)

theorem responses_roundtrip_witness:
  "read_responses 3 (concat (map write_response [RResult (Some [CHR 0x0A, CHR ''$'']), RError (GErr ''no''), ROk]))
   = ([RData (Some [CHR 0x0A, CHR ''$'']), RProtocolError ''ERR no'', RData (Some ''OK'')], [])"
  using responses_roundtrip [of "[RResult (Some [CHR 0x0A, CHR ''$'']), RError (GErr ''no''), ROk]" "[]"]
  by (simp add: err_text_def numeral_3_eq_3)

text \<open>The server gets the command the client wrote.\<close>

lemma command_of_writeLine:
  assumes "CHR 0x0A \<notin> set l"
  shows "read_line (l @ crlf @ s) = Some (l @ crlf, s)" "command_of_line (l @ crlf) = l"
proof -
  show "read_line (l @ crlf @ s) = Some (l @ crlf, s)" by (rule read_line_crlf) fact
  have "\<not> has_suffix l [CHR 0x0A]"
    using assms by (auto simp: has_suffix_iff)
  then show "command_of_line (l @ crlf) = l"
    by (simp add: command_of_line_def) (simp add: trim_suffix_def)
qed

end
