(* ===== verification/Workers.thy ===== *)
theory Workers
  imports GoTime "HOL-Library.AList"
begin

text \<open>
  The worker processes the server knows (\<open>server/workers.go\<close>).  The data of a client is an object that a
  connection and the table of heartbeats point to, and both may point to the same one, so the objects live
  in a heap: the address of an object is its position in the list \<open>objects\<close>.  A connection is known by a
  number.  Mutexes make each group of accesses atomic; \<open>setupHeartbeat\<close> consists of two such groups.
\<close>

datatype WorkerState = Running | Quiet | Terminate

definition stateString :: "WorkerState \<Rightarrow> string" where
  "stateString state =
     (case state of Quiet \<Rightarrow> ''quiet'' | Terminate \<Rightarrow> ''terminate'' | Running \<Rightarrow> '''')"

definition stateFromString :: "string \<Rightarrow> WorkerState" where
  "stateFromString state =
     (if state = ''quiet'' then Quiet else if state = ''terminate'' then Terminate else Running)"

record ClientData =
  Hostname :: string
  cWid :: string
  Pid :: int
  RssKb :: int
  Labels :: "string list option"
  PasswordHash :: string
  cVersion :: int
  StartedAt :: time
  lastHeartbeat :: time
  wstate :: WorkerState
  connections :: "nat list option"

definition IsQuiet :: "ClientData \<Rightarrow> bool" where
  "IsQuiet worker \<longleftrightarrow> wstate worker \<noteq> Running"

definition IsConsumer :: "ClientData \<Rightarrow> bool" where
  "IsConsumer worker \<longleftrightarrow> cWid worker \<noteq> []"

definition Signal :: "WorkerState \<Rightarrow> ClientData \<Rightarrow> ClientData" where
  "Signal newstate worker =
     (if wstate worker = newstate then worker
      else if wstate worker = Running then worker\<lparr>wstate := newstate\<rparr>
      else if wstate worker = Quiet \<and> newstate = Terminate then worker\<lparr>wstate := newstate\<rparr>
      else worker)"

section \<open>The table of workers\<close>

record workers =
  objects :: "ClientData list"
  heartbeats :: "(string \<times> nat) list"

definition newWorkers :: workers where
  "newWorkers = \<lparr>objects = [], heartbeats = []\<rparr>"

definition workers_Count :: "workers \<Rightarrow> nat" where
  "workers_Count w = length (heartbeats w)"

definition upd_object :: "nat \<Rightarrow> (ClientData \<Rightarrow> ClientData) \<Rightarrow> workers \<Rightarrow> workers" where
  "upd_object a f w = w\<lparr>objects := (objects w)[a := f (objects w ! a)]\<rparr>"

text \<open>A new object, as \<open>clientDataFromHello\<close> makes one.\<close>

definition new_object :: "ClientData \<Rightarrow> workers \<Rightarrow> nat \<times> workers" where
  "new_object c w = (length (objects w), w\<lparr>objects := objects w @ [c]\<rparr>)"

text \<open>\<open>m[k] = true\<close> in a map used as a set; writing to the nil map panics, which is \<open>None\<close>.\<close>

definition add_conn :: "nat \<Rightarrow> ClientData \<Rightarrow> ClientData" where
  "add_conn cls c = c\<lparr>connections := map_option (List.insert cls) (connections c)\<rparr>"

text \<open>The second part of \<open>setupHeartbeat\<close>, under the write lock.\<close>

definition setup_insert :: "nat \<Rightarrow> nat \<Rightarrow> workers \<Rightarrow> nat \<times> workers" where
  "setup_insert client cls w =
     (case map_of (heartbeats w) (cWid (objects w ! client)) of
        Some c \<Rightarrow> (c, upd_object c (add_conn cls) w)
      | None \<Rightarrow> (client, upd_object client (add_conn cls)
                   (w\<lparr>heartbeats := AList.update (cWid (objects w ! client)) client (heartbeats w)\<rparr>)))"

text \<open>The part before it: a worker that is known already is returned as it is.\<close>

definition setup_check :: "nat \<Rightarrow> workers \<Rightarrow> nat option" where
  "setup_check client w = map_of (heartbeats w) (cWid (objects w ! client))"

definition setup_init :: "time \<Rightarrow> time \<Rightarrow> ClientData \<Rightarrow> ClientData" where
  "setup_init now1 now2 c = c\<lparr>StartedAt := now1, lastHeartbeat := now2, connections := Some []\<rparr>"

definition setupHeartbeat :: "time \<Rightarrow> time \<Rightarrow> nat \<Rightarrow> nat \<Rightarrow> workers \<Rightarrow> (nat \<times> bool) \<times> workers" where
  "setupHeartbeat now1 now2 client cls w =
     (case setup_check client w of
        Some entry \<Rightarrow> ((entry, True), w)
      | None \<Rightarrow>
          (case setup_insert client cls (upd_object client (setup_init now1 now2) w) of
             (entry, w) \<Rightarrow> ((entry, False), w)))"

record ClientBeat =
  CurrentState :: string
  beat_Wid :: string
  beat_RssKb :: int

definition beat_object :: "time \<Rightarrow> ClientBeat \<Rightarrow> ClientData \<Rightarrow> ClientData" where
  "beat_object now beat entry =
     (let newst = (if CurrentState beat \<noteq> [] then stateFromString (CurrentState beat) else wstate entry);
          entry = entry\<lparr>RssKb := beat_RssKb beat, lastHeartbeat := now\<rparr>
      in if wstate entry \<noteq> newst then Signal newst entry else entry)"

definition workers_heartbeat :: "time \<Rightarrow> ClientBeat \<Rightarrow> workers \<Rightarrow> nat option \<times> workers" where
  "workers_heartbeat now beat w =
     (case map_of (heartbeats w) (beat_Wid beat) of
        None \<Rightarrow> (None, w)
      | Some entry \<Rightarrow> (Some entry, upd_object entry (beat_object now beat) w))"

definition del_conn :: "nat \<Rightarrow> ClientData \<Rightarrow> ClientData" where
  "del_conn cls c = c\<lparr>connections := map_option (remove1 cls) (connections c)\<rparr>"

definition RemoveConnection :: "nat \<Rightarrow> nat \<Rightarrow> workers \<Rightarrow> workers" where
  "RemoveConnection client cls w =
     (let wid = cWid (objects w ! client) in
      case map_of (heartbeats w) wid of
        None \<Rightarrow> w
      | Some cd \<Rightarrow>
          (let w = upd_object cd (del_conn cls) w in
           case connections (objects w ! cd) of
             Some (c # cs) \<Rightarrow> w
           | _ \<Rightarrow> w\<lparr>heartbeats := AList.delete wid (heartbeats w)\<rparr>))"

text \<open>The workers removed, the connections closed, and the table without them.\<close>

definition stale :: "time \<Rightarrow> workers \<Rightarrow> string \<times> nat \<Rightarrow> bool" where
  "stale t w = (\<lambda>(k, a). lastHeartbeat (objects w ! a) < t)"

definition reapHeartbeats :: "time \<Rightarrow> workers \<Rightarrow> (nat \<times> nat list) \<times> workers" where
  "reapHeartbeats t w =
     (let toDelete = filter (stale t w) (heartbeats w);
          closed = concat (map (\<lambda>(k, a). case connections (objects w ! a) of None \<Rightarrow> [] | Some cs \<Rightarrow> cs) toDelete)
      in ((length toDelete, closed), w\<lparr>heartbeats := filter (\<lambda>e. \<not> stale t w e) (heartbeats w)\<rparr>))"

section \<open>The state machine\<close>

text \<open>
  Everything that happens to the table: a client says hello, and its object is made; a connection with a
  worker id is set up, in two steps, between which others may come; a worker sends a heartbeat or is sent
  a signal; a connection is closed; the heartbeats are reaped.
\<close>

datatype event =
    Hello ClientData
  | Check nat time time
  | Insert nat nat
  | Beat time ClientBeat
  | SignalTo nat WorkerState
  | Disconnect nat nat
  | Reap time

fun wapply :: "event \<Rightarrow> workers \<Rightarrow> workers" where
  "wapply (Hello c) w = snd (new_object c w)"
| "wapply (Check a now1 now2) w = upd_object a (setup_init now1 now2) w"
| "wapply (Insert a cls) w = snd (setup_insert a cls w)"
| "wapply (Beat now b) w = snd (workers_heartbeat now b w)"
| "wapply (SignalTo a s) w = upd_object a (Signal s) w"
| "wapply (Disconnect a cls) w = RemoveConnection a cls w"
| "wapply (Reap t) w = snd (reapHeartbeats t w)"

fun enabled :: "event \<Rightarrow> workers \<Rightarrow> bool" where
  "enabled (Hello c) w = (connections c = None \<and> wstate c = Running)"
| "enabled (Check a now1 now2) w =
     (a < length (objects w) \<and> setup_check a w = None \<and> a \<notin> snd ` set (heartbeats w))"
| "enabled (Insert a cls) w =
     (a < length (objects w) \<and> connections (objects w ! a) \<noteq> None \<and> a \<notin> snd ` set (heartbeats w))"
| "enabled (SignalTo a s) w = (a \<in> snd ` set (heartbeats w))"
| "enabled (Disconnect a cls) w = (a < length (objects w))"
| "enabled _ w = True"

inductive wtrace :: "workers \<Rightarrow> event list \<Rightarrow> workers \<Rightarrow> bool" where
  none: "wtrace w [] w"
| more: "wtrace w es w1 \<Longrightarrow> enabled e w1 \<Longrightarrow> wtrace w (es @ [e]) (wapply e w1)"

text \<open>Every entry of the table points to the object of its worker, which has an open connection.\<close>

definition workers_inv :: "workers \<Rightarrow> bool" where
  "workers_inv w \<longleftrightarrow> distinct (map fst (heartbeats w)) \<and>
     (\<forall>(k, a) \<in> set (heartbeats w). a < length (objects w) \<and> cWid (objects w ! a) = k
        \<and> connections (objects w ! a) \<notin> {None, Some []})"

lemma object_fields [simp]:
  "cWid (add_conn cls c) = cWid c" "cWid (setup_init n m c) = cWid c" "cWid (beat_object t b c) = cWid c"
  "cWid (Signal s c) = cWid c" "cWid (del_conn cls c) = cWid c"
  "connections (Signal s c) = connections c" "connections (beat_object t b c) = connections c"
  "wstate (add_conn cls c) = wstate c" "wstate (setup_init n m c) = wstate c" "wstate (del_conn cls c) = wstate c"
  by (simp_all add: add_conn_def setup_init_def beat_object_def Signal_def del_conn_def Let_def)

lemma upd_object_facts [simp]:
  "length (objects (upd_object a f w)) = length (objects w)" "heartbeats (upd_object a f w) = heartbeats w"
  "a < length (objects w) \<Longrightarrow> objects (upd_object a f w) ! b = (if b = a then f (objects w ! a) else objects w ! b)"
  by (auto simp: upd_object_def)

lemma inv_entry:
  assumes "workers_inv w" "map_of (heartbeats w) k = Some a"
  shows "a < length (objects w)" "cWid (objects w ! a) = k" "connections (objects w ! a) \<notin> {None, Some []}"
    "a \<in> snd ` set (heartbeats w)"
proof -
  from assms(2) have m: "(k, a) \<in> set (heartbeats w)" by (rule map_of_SomeD)
  with assms(1) show "a < length (objects w)" "cWid (objects w ! a) = k"
    "connections (objects w ! a) \<notin> {None, Some []}"
    by (auto simp: workers_inv_def)
  show "a \<in> snd ` set (heartbeats w)" using m by force
qed

lemma inv_upd:
  assumes "workers_inv w" "a < length (objects w)" "\<And>c. cWid (f c) = cWid c"
    and "a \<in> snd ` set (heartbeats w) \<Longrightarrow> connections (f (objects w ! a)) \<notin> {None, Some []}"
  shows "workers_inv (upd_object a f w)"
  unfolding workers_inv_def
proof (intro conjI ballI)
  show "distinct (map fst (heartbeats (upd_object a f w)))" using assms(1) by (simp add: workers_inv_def)
  fix e assume e: "e \<in> set (heartbeats (upd_object a f w))"
  obtain k b where kb: "e = (k, b)" by fastforce
  then have b: "(k, b) \<in> set (heartbeats w)" "b \<in> snd ` set (heartbeats w)" using e by force+
  with assms(1) have "b < length (objects w)" "cWid (objects w ! b) = k"
    "connections (objects w ! b) \<notin> {None, Some []}" by (auto simp: workers_inv_def)
  with kb b assms(2-4) show "case e of (k, b) \<Rightarrow> b < length (objects (upd_object a f w))
      \<and> cWid (objects (upd_object a f w) ! b) = k
      \<and> connections (objects (upd_object a f w) ! b) \<notin> {None, Some []}"
    by (cases "b = a") simp_all
qed

lemma update_new_entry: "k \<notin> fst ` set xs \<Longrightarrow> AList.update k v xs = xs @ [(k, v)]"
  by (induction xs) auto

lemma delete_set: "set (AList.delete k xs) = {(j, v) \<in> set xs. j \<noteq> k}"
  by (auto simp: AList.delete_eq)

lemma workers_inv_step:
  assumes "workers_inv w" "enabled e w"
  shows "workers_inv (wapply e w)"
proof (cases e)
  case (Hello c)
  with assms show ?thesis
    by (fastforce simp: workers_inv_def new_object_def nth_append)
next
  case (Check a now1 now2)
  with assms show ?thesis by (auto intro!: inv_upd)
next
  case (Insert a cls)
  show ?thesis
  proof (cases "map_of (heartbeats w) (cWid (objects w ! a))")
    case None
    then have k: "cWid (objects w ! a) \<notin> fst ` set (heartbeats w)"
      by (simp add: map_of_eq_None_iff)
    let ?h = "AList.update (cWid (objects w ! a)) a (heartbeats w)"
    have h: "set ?h = insert (cWid (objects w ! a), a) (set (heartbeats w))" "distinct (map fst ?h)"
      using k assms(1) distinct_update [of "heartbeats w" "cWid (objects w ! a)" a]
      by (simp_all add: update_new_entry workers_inv_def)
    obtain cs where cs: "connections (objects w ! a) = Some cs" using assms(2) Insert by auto
    have "wapply e w = upd_object a (add_conn cls) (w\<lparr>heartbeats := ?h\<rparr>)"
      by (simp add: Insert setup_insert_def None)
    moreover have "connections (add_conn cls (objects w ! a)) \<notin> {None, Some []}"
      using cs by (auto simp: add_conn_def List.insert_def)
    moreover have "a < length (objects w)" "a \<notin> snd ` set (heartbeats w)" using assms(2) Insert by simp_all
    moreover have "\<forall>(k, b) \<in> set (heartbeats w). b \<noteq> a \<and> b < length (objects w) \<and> cWid (objects w ! b) = k
        \<and> connections (objects w ! b) \<notin> {None, Some []}"
      using assms(1) calculation(4) by (force simp: workers_inv_def)
    ultimately show ?thesis
      using h by (auto simp: workers_inv_def)
  next
    case (Some b)
    with inv_entry [OF assms(1) Some] Insert show ?thesis
      by (auto simp: setup_insert_def add_conn_def List.insert_def split: if_splits intro!: inv_upd assms(1))
  qed
next
  case (Beat now b)
  with assms show ?thesis
    by (auto simp: workers_heartbeat_def split: option.split intro!: inv_upd dest: inv_entry)
next
  case (SignalTo a s)
  then obtain k where k: "(k, a) \<in> set (heartbeats w)" using assms(2) by auto
  then have "a < length (objects w)" "connections (objects w ! a) \<notin> {None, Some []}"
    using assms(1) by (auto simp: workers_inv_def)
  with SignalTo assms(1) show ?thesis
    by (simp add: inv_upd)
next
  case (Disconnect a cls)
  let ?k = "cWid (objects w ! a)"
  show ?thesis
  proof (cases "map_of (heartbeats w) ?k")
    case (Some b)
    note b = inv_entry [OF assms(1) Some]
    let ?w = "upd_object b (del_conn cls) w"
    have others: "\<forall>(k, c) \<in> set (heartbeats w). k \<noteq> ?k \<longrightarrow> c \<noteq> b"
      using assms(1) b(2) by (auto simp: workers_inv_def)
    show ?thesis
    proof (cases "connections (objects ?w ! b) \<in> {None, Some []}")
      case True
      then have "wapply e w = ?w\<lparr>heartbeats := AList.delete ?k (heartbeats w)\<rparr>"
        by (auto simp: Disconnect RemoveConnection_def Let_def Some split: option.split)
      then show ?thesis
        using assms(1) others b(1) by (auto simp: workers_inv_def delete_set distinct_delete)
    next
      case False
      then have "wapply e w = ?w"
        by (auto simp: Disconnect RemoveConnection_def Let_def Some split: option.split list.split)
      then show ?thesis
        using False b assms(1) by (simp add: inv_upd)
    qed
  qed (use assms Disconnect in \<open>simp add: RemoveConnection_def\<close>)
next
  case (Reap t)
  with assms show ?thesis
    by (auto simp: workers_inv_def reapHeartbeats_def Let_def intro: distinct_map_filter)
qed

lemma workers_inv_trace: "wtrace w es w' \<Longrightarrow> workers_inv w \<Longrightarrow> workers_inv w'"
  by (induction rule: wtrace.induct) (simp_all add: workers_inv_step)

text \<open>
  C29: in every state the table of workers can get into, whatever connections, heartbeats, signals and
  reaping do and however the two steps of setting up a connection are interleaved, each worker is listed
  once, under its own id, points to an existing object and has at least one connection.
\<close>

theorem workers_table_invariant: "wtrace newWorkers es w \<Longrightarrow> workers_inv w"
  by (erule workers_inv_trace) (simp add: newWorkers_def workers_inv_def)

section \<open>The life of a worker\<close>

text \<open>\<open>running -> quiet -> terminate\<close>\<close>

fun progress :: "WorkerState \<Rightarrow> nat" where
  "progress Running = 0"
| "progress Quiet = 1"
| "progress Terminate = 2"

lemma progress_Signal: "progress (wstate c) \<le> progress (wstate (Signal s c))"
  by (cases "wstate c"; cases s) (simp_all add: Signal_def)

lemma progress_beat: "progress (wstate c) \<le> progress (wstate (beat_object t b c))"
  using progress_Signal [of "c\<lparr>RssKb := beat_RssKb b, lastHeartbeat := t\<rparr>"]
  by (simp add: beat_object_def Let_def)

text \<open>Objects are never lost, their states only move forward, and only those of the table move.\<close>

lemma state_step:
  assumes "workers_inv w" "enabled e w" "a < length (objects w)"
  shows "a < length (objects (wapply e w))
    \<and> progress (wstate (objects w ! a)) \<le> progress (wstate (objects (wapply e w) ! a))
    \<and> (a \<notin> snd ` set (heartbeats w) \<longrightarrow> wstate (objects (wapply e w) ! a) = wstate (objects w ! a))"
proof (cases e)
  case (Hello c)
  then show ?thesis using assms(3) by (simp add: new_object_def nth_append)
next
  case (Check b now1 now2)
  then show ?thesis using assms(2,3) by simp
next
  case (Insert b cls)
  show ?thesis
  proof (cases "map_of (heartbeats w) (cWid (objects w ! b))")
    case None
    then show ?thesis
      using Insert assms(2,3) by (auto simp: setup_insert_def upd_object_def nth_list_update)
  next
    case (Some c)
    then show ?thesis
      using Insert assms(3) inv_entry(1) [OF assms(1) Some] by (simp add: setup_insert_def)
  qed
next
  case (Beat now b)
  show ?thesis
  proof (cases "map_of (heartbeats w) (beat_Wid b)")
    case (Some c)
    then show ?thesis
      using Beat assms(3) inv_entry [OF assms(1) Some] progress_beat
      by (auto simp: workers_heartbeat_def)
  qed (use Beat assms(3) in \<open>simp add: workers_heartbeat_def\<close>)
next
  case (SignalTo b s)
  then have "b \<in> snd ` set (heartbeats w)" using assms(2) by simp
  moreover from this assms(1) have "b < length (objects w)" by (auto simp: workers_inv_def)
  ultimately show ?thesis
    using SignalTo assms(3) progress_Signal by auto
next
  case (Disconnect b cls)
  have "a < length (objects (RemoveConnection b cls w)) \<and>
      wstate (objects (RemoveConnection b cls w) ! a) = wstate (objects w ! a)"
    using assms(3) inv_entry(1) [OF assms(1)]
    by (auto simp: RemoveConnection_def Let_def split: option.split list.split)
  with Disconnect show ?thesis by simp
next
  case (Reap t)
  then show ?thesis using assms(3) by (simp add: reapHeartbeats_def Let_def)
qed

lemma state_trace:
  assumes "wtrace w es w'" "workers_inv w" "a < length (objects w)"
  shows "a < length (objects w') \<and> progress (wstate (objects w ! a)) \<le> progress (wstate (objects w' ! a))"
  using assms
proof (induction rule: wtrace.induct)
  case (more w es w1 e)
  then show ?case
    using state_step [of w1 e a] workers_inv_trace [of w es w1] by fastforce
qed simp

text \<open>
  C28: a worker never moves backward: whatever it reports in its heartbeats and whatever signals it is sent,
  its state only goes from running to quiet to terminate, and a worker told to terminate stays so.
\<close>

theorem worker_never_moves_backward:
  assumes "wtrace newWorkers es w" "wtrace w es' w'" "a < length (objects w)"
  shows "progress (wstate (objects w ! a)) \<le> progress (wstate (objects w' ! a))
    \<and> (wstate (objects w ! a) = Terminate \<longrightarrow> wstate (objects w' ! a) = Terminate)"
proof -
  have "workers_inv w"
    using workers_inv_trace [OF assms(1)] by (simp add: newWorkers_def workers_inv_def)
  then have p: "progress (wstate (objects w ! a)) \<le> progress (wstate (objects w' ! a))"
    using state_trace [OF assms(2) _ assms(3)] by simp
  moreover have "wstate (objects w' ! a) = Terminate" if "wstate (objects w ! a) = Terminate"
    using p that by (cases "wstate (objects w' ! a)") auto
  ultimately show ?thesis by blast
qed

definition zero_client :: ClientData where
  "zero_client = \<lparr>Hostname = [], cWid = [], Pid = 0, RssKb = 0, Labels = None, PasswordHash = [], cVersion = 0,
     StartedAt = - 62135596800 * second, lastHeartbeat = - 62135596800 * second, wstate = Running,
     connections = None\<rparr>"

definition sample_client :: ClientData where
  "sample_client = zero_client\<lparr>cWid := ''w1'', cVersion := 2\<rparr>"

definition quiet_beat :: ClientBeat where
  "quiet_beat = \<lparr>CurrentState = ''quiet'', beat_Wid = ''w1'', beat_RssKb = 1\<rparr>"

definition setup_events :: "event list" where
  "setup_events = [Hello sample_client, Check 0 0 0, Insert 0 1]"

definition one_worker :: workers where
  "one_worker = \<lparr>objects = [sample_client\<lparr>StartedAt := 0, lastHeartbeat := 0, connections := Some [1]\<rparr>],
     heartbeats = [(''w1'', 0)]\<rparr>"

lemma one_worker_trace: "wtrace newWorkers setup_events one_worker"
proof -
  have "wtrace newWorkers ([] @ [Hello sample_client]) (wapply (Hello sample_client) newWorkers)"
    by (rule wtrace.more [OF wtrace.none]) (simp add: sample_client_def zero_client_def)
  from wtrace.more [OF this, of "Check 0 0 0"] have
    "wtrace newWorkers ([Hello sample_client] @ [Check 0 0 0])
       (wapply (Check 0 0 0) (wapply (Hello sample_client) newWorkers))"
    by (simp add: newWorkers_def new_object_def setup_check_def)
  from wtrace.more [OF this, of "Insert 0 1"] show ?thesis
    by (simp add: newWorkers_def new_object_def setup_events_def upd_object_def setup_init_def setup_insert_def
        add_conn_def one_worker_def) (simp add: sample_client_def)
qed

theorem workers_table_invariant_witness: "workers_inv one_worker"
  using workers_table_invariant [OF one_worker_trace] .

theorem worker_never_moves_backward_witness:
  "wstate (objects one_worker ! 0) = Running
   \<and> progress Running \<le> progress (wstate (objects (wapply (Beat 5 quiet_beat) one_worker) ! 0))"
proof -
  have "wtrace one_worker ([] @ [Beat 5 quiet_beat]) (wapply (Beat 5 quiet_beat) one_worker)"
    by (rule wtrace.more [OF wtrace.none]) simp
  from worker_never_moves_backward [OF one_worker_trace this, of 0] show ?thesis
    by (simp add: one_worker_def sample_client_def zero_client_def)
qed

section \<open>A second connection of a worker\<close>

lemma unregistered_stays:
  assumes "workers_inv w" "enabled e w" "a < length (objects w)" "a \<notin> snd ` set (heartbeats w)"
    and "\<forall>cls. e \<noteq> Insert a cls"
  shows "a \<notin> snd ` set (heartbeats (wapply e w))"
proof (cases e)
  case (Insert b cls)
  then have "b \<noteq> a" using assms(5) by blast
  moreover have "set (AList.update k b xs) \<subseteq> insert (k, b) (set xs)" for k and xs :: "(string \<times> nat) list"
    by (induction xs) auto
  then have "a \<notin> snd ` set (AList.update k b (heartbeats w))" for k
    using assms(4) \<open>b \<noteq> a\<close> by fastforce
  ultimately show ?thesis
    using assms(4) Insert by (simp add: setup_insert_def split: option.split)
next
  case (Disconnect b cls)
  have "set (heartbeats (RemoveConnection b cls w)) \<subseteq> set (heartbeats w)"
    by (auto simp: RemoveConnection_def Let_def delete_set split: option.split list.split)
  with assms(4) Disconnect show ?thesis by auto
qed (use assms(4) in \<open>auto simp: new_object_def workers_heartbeat_def reapHeartbeats_def Let_def split: option.split\<close>)



end
