(* ===== verification/Commands.thy ===== *)
theory Commands
  imports Mutate Wire Workers
begin

text \<open>
  The commands of the server (\<open>server/commands.go\<close>, \<open>mutate\<close> of \<open>server/mutate.go\<close>) and the loop that
  reads and dispatches them (\<open>processLines\<close> of \<open>server/server.go\<close>).  The state of the server extends the
  manager's by the table of workers and what has been written to each connection.  Writing always
  succeeds in the model; the code ignores errors of writing as well.  The report of INFO, made of
  statistics of the running process, is an argument.
\<close>

record Connection =
  client_at :: nat
  conn_no :: nat

record 's server = "'s mgr" +
  wk :: workers
  sent :: "nat \<Rightarrow> string"
  conn_closed :: "nat list"
  srv_closed :: bool
  stat_Commands :: int
  stat_Connections :: int

text \<open>The arguments that stand for what is outside: Redis, its ZSCAN, the middleware chains, bounds, INFO.\<close>

record 's env =
  e_redis :: "'s redis"
  e_zscan :: "'s zscan"
  e_chains :: "'s server ctx chains"
  e_fuel :: nat
  e_order :: "(string \<times> redisQueue) list \<Rightarrow> (string \<times> redisQueue) list"
  e_info :: "('s server, string) gofun"

definition conn_write :: "Connection \<Rightarrow> string \<Rightarrow> ('s server, unit) gofun" where
  "conn_write c bytes =
     modS (\<lambda>st. st\<lparr>sent := (sent st)(conn_no c := sent st (conn_no c) @ bytes)\<rparr>)"

definition conn_Close :: "Connection \<Rightarrow> ('s server, unit) gofun" where
  "conn_Close c = modS (\<lambda>st. st\<lparr>conn_closed := conn_no c # conn_closed st\<rparr>)"

text \<open>\<open>cmd[n:]\<close> panics when the command is too short.\<close>

definition slice_from :: "nat \<Rightarrow> string \<Rightarrow> string gores" where
  "slice_from n s = (if n \<le> length s then Ok (drop n s) else Panic ''runtime error: slice bounds out of range'')"

text \<open>The way most commands end: the error of an operation, or OK.\<close>

definition answer :: "Connection \<Rightarrow> ('s server, 'a) gofun \<Rightarrow> ('s server, unit) gofun" where
  "answer c m =
     bindS (tryS m) (\<lambda>r.
       case r of
         Ok _ \<Rightarrow> conn_write c conn_Ok
       | Err e \<Rightarrow> conn_write c (conn_Error e)
       | Panic p \<Rightarrow> panicS p)"

definition cmd_track :: "Connection \<Rightarrow> ('s server, unit) gofun" where
  "cmd_track c = conn_write c (conn_Error (GErr ''The Tracking subsystem is only available in Faktory Enterprise''))"

definition cmd_batch :: "Connection \<Rightarrow> ('s server, unit) gofun" where
  "cmd_batch c = conn_write c (conn_Error (GErr ''The Batch subsystem is only available in Faktory Enterprise''))"

text \<open>QUEUE PAUSE and RESUME; errors of the manager are dropped.\<close>

definition queue_op :: "'s env \<Rightarrow> string \<Rightarrow> string \<Rightarrow> ('s server, unit) gofun" where
  "queue_op ev verb name =
     (if verb = ''PAUSE'' then ignore (mgr_Pause (e_redis ev) name)
      else if verb = ''RESUME'' then ignore (mgr_Resume (e_redis ev) name)
      else retS ())"

definition cmd_queue :: "'s env \<Rightarrow> Connection \<Rightarrow> string \<Rightarrow> ('s server, unit) gofun" where
  "cmd_queue ev c cmd =
     (case tl (split_on CHR '' '' cmd) of
        verb # name # names \<Rightarrow>
          bindS (if name = ''*''
                 then EachQueue (e_order ev) (\<lambda>q. queue_op ev verb (qname q))
                 else for_idx (\<lambda>_. queue_op ev verb) 0 (name # names)) (\<lambda>_.
          conn_write c conn_Ok)
      | _ \<Rightarrow> panicS ''runtime error: index out of range'')"

definition cmd_flush :: "'s env \<Rightarrow> Connection \<Rightarrow> ('s server, unit) gofun" where
  "cmd_flush ev c = answer c (Flush (e_redis ev))"

definition cmd_push :: "'s env \<Rightarrow> Connection \<Rightarrow> string \<Rightarrow> ('s server, unit) gofun" where
  "cmd_push ev c cmd =
     bindS (liftR (slice_from 5 cmd)) (\<lambda>data.
       case unmarshal ''client.Job'' job_fields data (zero_job\<lparr>Retry := 25\<rparr>) of
         Ok job \<Rightarrow> answer c (mgr_Push (e_redis ev) (e_chains ev) job)
       | Err e \<Rightarrow> conn_write c (conn_Error (GErr (''Invalid JSON: '' @ err_text e)))
       | Panic p \<Rightarrow> panicS p)"

text \<open>The state asked for is that of the object the connection points to.\<close>

definition cmd_fetch :: "'s env \<Rightarrow> Connection \<Rightarrow> string \<Rightarrow> ('s server, unit) gofun" where
  "cmd_fetch ev c cmd =
     bindS (getS (\<lambda>st. objects (wk st) ! client_at c)) (\<lambda>client.
       if wstate client \<noteq> Running then conn_write c (conn_Result None)
       else
         bindS (tryS (Fetch (e_fuel ev) (e_redis ev) (e_chains ev) (cWid client) (tl (split_on CHR '' '' cmd)))) (\<lambda>r.
           case r of
             Ok (Some job) \<Rightarrow> conn_write c (conn_Result (Some (marshal_job job)))
           | Ok None \<Rightarrow> conn_write c (conn_Result None)
           | Err e \<Rightarrow> conn_write c (conn_Error e)
           | Panic p \<Rightarrow> panicS p))"

text \<open>A \<open>map[string]string\<close>: a null value is the empty string, any other value that is no string an error.\<close>

fun dec_str_members :: "(string \<times> json) list \<Rightarrow> (string \<times> string) list \<Rightarrow> (string \<times> string) list gores" where
  "dec_str_members [] acc = Ok acc"
| "dec_str_members ((k, v) # kvs) acc =
     (case dec_str v [] of
        Ok s \<Rightarrow> dec_str_members kvs (AList.update k s acc)
      | Err e \<Rightarrow> Err e
      | Panic p \<Rightarrow> Panic p)"

definition unmarshal_str_map :: "string \<Rightarrow> (string \<times> string) list gores" where
  "unmarshal_str_map s =
     (case parse_json s of
        None \<Rightarrow> Err syntax_err
      | Some JNull \<Rightarrow> Ok []
      | Some (JObj kvs) \<Rightarrow> dec_str_members kvs []
      | Some v \<Rightarrow> type_err ''map[string]string'' v)"

definition cmd_ack :: "'s env \<Rightarrow> Connection \<Rightarrow> string \<Rightarrow> ('s server, unit) gofun" where
  "cmd_ack ev c cmd =
     bindS (liftR (slice_from 4 cmd)) (\<lambda>data.
       case unmarshal_str_map data of
         Ok hash \<Rightarrow>
           (case map_of hash ''jid'' of
              Some jid \<Rightarrow> answer c (Acknowledge (e_redis ev) (e_chains ev) jid)
            | None \<Rightarrow> conn_write c (conn_Error (GErr (''Invalid ACK '' @ data))))
       | Err e \<Rightarrow> conn_write c (conn_Error (GErr (''Invalid ACK '' @ data)))
       | Panic p \<Rightarrow> panicS p)"

definition fail_fields :: "FailPayload fields" where
  "fail_fields =
     [(''jid'', fld dec_str fail_Jid (\<lambda>a r. r\<lparr>fail_Jid := a\<rparr>)),
      (''message'', fld dec_str fail_message (\<lambda>a r. r\<lparr>fail_message := a\<rparr>)),
      (''errtype'', fld dec_str fail_type (\<lambda>a r. r\<lparr>fail_type := a\<rparr>)),
      (''backtrace'', fld (dec_slice dec_str [] ''[]string'') fail_backtrace (\<lambda>a r. r\<lparr>fail_backtrace := a\<rparr>))]"

definition zero_fail :: FailPayload where
  "zero_fail = \<lparr>fail_Jid = [], fail_message = [], fail_type = [], fail_backtrace = None\<rparr>"

definition cmd_fail :: "'s env \<Rightarrow> Connection \<Rightarrow> string \<Rightarrow> ('s server, unit) gofun" where
  "cmd_fail ev c cmd =
     bindS (liftR (slice_from 5 cmd)) (\<lambda>data.
       case unmarshal ''manager.FailPayload'' fail_fields data zero_fail of
         Ok failure \<Rightarrow> answer c (mgr_Fail (e_redis ev) (e_chains ev) (Some failure))
       | Err e \<Rightarrow> conn_write c (conn_Error (GErr (''Invalid FAIL '' @ data)))
       | Panic p \<Rightarrow> panicS p)"

definition cmd_info :: "'s env \<Rightarrow> Connection \<Rightarrow> ('s server, unit) gofun" where
  "cmd_info ev c =
     bindS (tryS (e_info ev)) (\<lambda>r.
       case r of
         Ok report \<Rightarrow> conn_write c (conn_Result (Some report))
       | Err e \<Rightarrow> conn_write c (conn_Error e)
       | Panic p \<Rightarrow> panicS p)"

definition beat_fields :: "ClientBeat fields" where
  "beat_fields =
     [(''current_state'', fld dec_str CurrentState (\<lambda>a r. r\<lparr>CurrentState := a\<rparr>)),
      (''wid'', fld dec_str beat_Wid (\<lambda>a r. r\<lparr>beat_Wid := a\<rparr>)),
      (''rss_kb'', fld dec_int beat_RssKb (\<lambda>a r. r\<lparr>beat_RssKb := a\<rparr>))]"

definition zero_beat :: ClientBeat where
  "zero_beat = \<lparr>CurrentState = [], beat_Wid = [], beat_RssKb = 0\<rparr>"

text \<open>An unknown worker does not read the clock.\<close>

definition cmd_heartbeat :: "Connection \<Rightarrow> string \<Rightarrow> ('s server, unit) gofun" where
  "cmd_heartbeat c cmd =
     bindS (liftR (slice_from 5 cmd)) (\<lambda>data.
       case unmarshal ''server.ClientBeat'' beat_fields data zero_beat of
         Ok beat \<Rightarrow>
           bindS (getS (\<lambda>st. map_of (heartbeats (wk st)) (beat_Wid beat))) (\<lambda>entry.
             case entry of
               None \<Rightarrow> conn_write c (conn_Error (GErr (''Unknown worker '' @ beat_Wid beat)))
             | Some a \<Rightarrow>
                 bindS Now (\<lambda>now.
                 bindS (modS (\<lambda>st. st\<lparr>wk := snd (workers_heartbeat now beat (wk st))\<rparr>)) (\<lambda>_.
                 bindS (getS (\<lambda>st. wstate (objects (wk st) ! a))) (\<lambda>state.
                   if state = Running then conn_write c conn_Ok
                   else conn_write c (conn_Result (Some
                          (''{'' @ quoted_field ''state'' (stateString state) @ ''}'')))))))
       | Err e \<Rightarrow> conn_write c (conn_Error (GErr (''Invalid BEAT '' @ data)))
       | Panic p \<Rightarrow> panicS p)"

definition cmd_mutate :: "'s env \<Rightarrow> Connection \<Rightarrow> string \<Rightarrow> ('s server, unit) gofun" where
  "cmd_mutate ev c cmd =
     (case split_on CHR '' '' cmd of
        [_, data] \<Rightarrow>
          (case unmarshal_operation data of
             Ok op \<Rightarrow> answer c (run_operation (e_fuel ev) (e_zscan ev) (e_redis ev) op)
           | Err e \<Rightarrow> conn_write c (conn_Error e)
           | Panic p \<Rightarrow> panicS p)
      | _ \<Rightarrow> conn_write c (conn_Error (GErr ''Invalid format'')))"

section \<open>Dispatch\<close>

definition CommandSet :: "'s env \<Rightarrow> Connection \<Rightarrow> (string \<times> (string \<Rightarrow> ('s server, unit) gofun)) list" where
  "CommandSet ev c =
     [(''END'', \<lambda>_. conn_Close c), (''PUSH'', cmd_push ev c), (''FETCH'', cmd_fetch ev c),
      (''ACK'', cmd_ack ev c), (''FAIL'', cmd_fail ev c), (''BEAT'', cmd_heartbeat c),
      (''INFO'', \<lambda>_. cmd_info ev c), (''FLUSH'', \<lambda>_. cmd_flush ev c), (''MUTATE'', cmd_mutate ev c),
      (''BATCH'', \<lambda>_. cmd_batch c), (''TRACK'', \<lambda>_. cmd_track c), (''QUEUE'', cmd_queue ev c)]"

text \<open>One round of the loop with the line it has read; \<open>True\<close> says that the loop goes on.\<close>

definition processLine :: "'s env \<Rightarrow> Connection \<Rightarrow> string \<Rightarrow> ('s server, bool) gofun" where
  "processLine ev c line =
     bindS (getS srv_closed) (\<lambda>closed.
       if closed then
         bindS (conn_write c (conn_Error (GErr ''Shutdown in progress''))) (\<lambda>_.
         bindS (conn_Close c) (\<lambda>_. retS False))
       else
         let cmd = command_of_line line; verb = verb_of cmd in
         bindS (case map_of (CommandSet ev c) verb of
                  None \<Rightarrow> conn_write c (conn_Error (GErr (''Unknown command '' @ verb)))
                | Some proc \<Rightarrow>
                    bindS (modS (\<lambda>st. st\<lparr>stat_Commands := u64 (stat_Commands st + 1)\<rparr>)) (\<lambda>_. proc cmd)) (\<lambda>_.
         retS (verb \<noteq> ''END'')))"

text \<open>
  The loop on all bytes the client sends before it closes the connection; the fuel is the number of lines.
\<close>

fun lines_loop :: "nat \<Rightarrow> 's env \<Rightarrow> Connection \<Rightarrow> string \<Rightarrow> ('s server, unit) gofun" where
  "lines_loop 0 ev c input = panicS fuel_out"
| "lines_loop (Suc f) ev c input =
     (case read_line input of
        None \<Rightarrow> conn_Close c
      | Some (line, rest) \<Rightarrow>
          bindS (processLine ev c line) (\<lambda>go. if go then lines_loop f ev c rest else retS ()))"

text \<open>The deferred decrement of the counter runs after a panic, too.\<close>

definition processLines :: "nat \<Rightarrow> 's env \<Rightarrow> Connection \<Rightarrow> string \<Rightarrow> ('s server, unit) gofun" where
  "processLines fuel ev c input =
     bindS (modS (\<lambda>st. st\<lparr>stat_Connections := u64 (stat_Connections st + 1)\<rparr>)) (\<lambda>_.
     bindS (tryS (lines_loop fuel ev c input)) (\<lambda>r.
     bindS (modS (\<lambda>st. st\<lparr>stat_Connections := u64 (stat_Connections st - 1)\<rparr>)) (\<lambda>_. liftR r)))"

end
