(* ===== verification/ServerFacts.thy ===== *)
theory ServerFacts
  imports Commands WorkingFacts
begin

text \<open>
  Client and server together: what the requests of \<open>client/client.go\<close> do when they go through the loop of
  the server, and the commands that bring the server down.
\<close>

section \<open>JSON stays on one line\<close>

lemma quote_char_line: "CHR 0x0A \<notin> set (quote_char c)"
proof -
  have "hex_char k \<noteq> CHR 0x0A" if "k < 16" for k
    using less_sixteen_cases [OF that] by (auto simp: hex_char_def)
  then have "hex_char (of_char c div 16) \<noteq> CHR 0x0A" "hex_char (of_char c mod 16) \<noteq> CHR 0x0A"
    using mod_less_divisor [of 256 "of_char c :: nat"] by (auto simp: of_char_mod_256 less_mult_imp_div_less)
  then show ?thesis
    by (auto simp: quote_char_def Let_def)
qed

lemma quote_bytes_line: "CHR 0x0A \<notin> set (quote_bytes s)"
  by (induction s rule: quote_bytes.induct) (auto simp: quote_char_line)

lemma quote_json_line [simp]: "CHR 0x0A \<notin> set (quote_json s)"
  using quote_bytes_line [of s] by (simp add: quote_json_def)

lemma join_with_line: "\<forall>s \<in> set ss. c \<notin> set s \<Longrightarrow> c \<notin> set d \<Longrightarrow> c \<notin> set (join_with d ss)"
  by (induction d ss rule: join_with.induct) auto

lemma show_json_line: "json_ok v \<Longrightarrow> CHR 0x0A \<notin> set (show_json v)"
proof (induction v)
  case (JNum n)
  then show ?case by (auto simp: list_all_iff num_char_def is_digit_def)
next
  case (JArr vs)
  then have "\<forall>s \<in> set (map show_json vs). CHR 0x0A \<notin> set s"
    by (auto simp: list_all_iff)
  from join_with_line [OF this, of "'',''"] show ?case
    by (simp only: show_json.simps set_append) simp
next
  case (JObj kvs)
  have "\<forall>s \<in> set (map (\<lambda>(k, v). quote_json k @ '':'' @ show_json v) kvs). CHR 0x0A \<notin> set s"
    using JObj by (force simp: list_all_iff)
  from join_with_line [OF this, of "'',''"] show ?case
    by (simp only: show_json.simps set_append) simp
qed auto

lemma marshal_job_line: "job_ok j \<Longrightarrow> CHR 0x0A \<notin> set (marshal_job j)"
  unfolding marshal_job_def by (rule show_json_line, rule json_ok_job)

lemma marshal_job_ne: "marshal_job j \<noteq> []"
  by (simp add: marshal_job_def encode_job_def)

text \<open>The server decodes a pushed job over a job with 25 retries; a client always sends the retries.\<close>

lemma decode_job_over:
  assumes "job_ok j"
  shows "dec_struct t job_fields (encode_job j) (zero_job\<lparr>Retry := n\<rparr>) = Ok (norm_job j)"
proof -
  obtain ji qu ty ar ca ea ta rf re bt fl cu where j: "j = \<lparr>Jid = ji, Queue = qu, JobType = ty,
      Args = ar, CreatedAt = ca, EnqueuedAt = ea, At = ta, ReserveFor = rf, Retry = re,
      Backtrace = bt, JobFailure = fl, Custom = cu\<rparr>"
    by (cases j)
  have nil: "dec_slice dec_any JNull t JNull old = Ok None" for t old
    by (simp add: dec_slice_def)
  show ?thesis
    using assms
    by (auto simp: j job_ok_def dec_struct_def encode_job_def zero_job_def dec_one
        dec_opt job_fields_def norm_job_def nil_empty_def nil dec_args dec_custom
        dec_ptr_failure
        simp del: dec_members.simps(2) json_normal.simps split: option.split option.split_asm list.split)
qed

lemma unmarshal_job_over:
  "job_ok j \<Longrightarrow> unmarshal t job_fields (marshal_job j) (zero_job\<lparr>Retry := n\<rparr>) = Ok (norm_job j)"
  by (simp add: unmarshal_def marshal_job_def parse_show_json json_ok_job decode_job_over)

section \<open>Requests of the client\<close>

definition client_Push :: "Job \<Rightarrow> string" where
  "client_Push job = writeLine ''PUSH'' (Some (marshal_job job))"

text \<open>The job of a FETCH: the response is empty, or a job in JSON.\<close>

definition client_Fetch :: "string list \<Rightarrow> string" where
  "client_Fetch q = writeLine ''FETCH'' (Some (join_with '' '' q))"

definition fetch_response :: "string \<Rightarrow> Job option gores \<times> string" where
  "fetch_response s =
     (case readResponse s of
        (RData v, r) \<Rightarrow>
          (case v of
             Some (c # cs) \<Rightarrow>
               ((case unmarshal_job (c # cs) of
                   Ok j \<Rightarrow> Ok (Some j) | Err e \<Rightarrow> Err e | Panic p \<Rightarrow> Panic p), r)
           | _ \<Rightarrow> (Ok None, r))
      | (RProtocolError m, r) \<Rightarrow> (Err (GErr m), r)
      | (RFail m, r) \<Rightarrow> (Err (GErr m), r)
      | (RPanic p, r) \<Rightarrow> (Panic p, r))"

definition client_Ack :: "string \<Rightarrow> string" where
  "client_Ack jid = writeLine ''ACK'' (Some (''{'' @ quoted_field ''jid'' jid @ ''}''))"

lemma verb_of_prefix: "CHR '' '' \<notin> set v \<Longrightarrow> verb_of (v @ '' '' @ r) = v"
proof -
  assume v: "CHR '' '' \<notin> set v"
  then have "str_index_from i (v @ '' '' @ r) '' '' = i + int (length v)" for i
    by (induction v arbitrary: i) auto
  then show ?thesis by (simp add: verb_of_def str_index_def)
qed

lemma verb_of_plain: "CHR '' '' \<notin> set v \<Longrightarrow> verb_of v = v"
proof -
  assume v: "CHR '' '' \<notin> set v"
  then have "str_index_from i v '' '' = - 1" for i
    by (induction v arbitrary: i) auto
  then show ?thesis by (simp add: verb_of_def str_index_def)
qed

lemma sview_server [simp]:
  "wk (sview v st) = wk st" "sent (sview v st) = sent st" "srv_closed (sview v st) = srv_closed st"
  "stat_Commands (sview v st) = stat_Commands st"
  "sview v (st\<lparr>sent := x\<rparr>) = (sview v st)\<lparr>sent := x\<rparr>"
  "sview v (st\<lparr>stat_Commands := n\<rparr>) = (sview v st)\<lparr>stat_Commands := n\<rparr>"
  "sview v (st\<lparr>wk := y\<rparr>) = (sview v st)\<lparr>wk := y\<rparr>"
  by (cases st; simp add: sview_def)+

text \<open>The state when a command of the table has been counted, and when a reply has been written.\<close>

definition counted :: "('s, 'm) server_scheme \<Rightarrow> ('s, 'm) server_scheme" where
  "counted st = st\<lparr>stat_Commands := u64 (stat_Commands st + 1)\<rparr>"

definition replied :: "Connection \<Rightarrow> string \<Rightarrow> ('s, 'm) server_scheme \<Rightarrow> ('s, 'm) server_scheme" where
  "replied c bytes st = st\<lparr>sent := (sent st)(conn_no c := sent st (conn_no c) @ bytes)\<rparr>"

lemma sview_reply: "sview v (counted st) = counted (sview v st)" "sview v (replied c b st) = replied c b (sview v st)"
  by (simp_all add: counted_def replied_def)

lemma replied_rs [simp]: "rs (replied c b st) = rs st"
  by (simp add: replied_def)

lemma conn_write_run: "conn_write c b st = (Ok (), replied c b st)"
  by (simp add: conn_write_def modS_def replied_def)

lemma processLine_run:
  assumes "\<not> srv_closed st" "command_of_line line = cmd" "map_of (CommandSet ev c) (verb_of cmd) = Some proc"
    and "proc cmd (counted st) = (Ok (), st')" "verb_of cmd \<noteq> ''END''"
  shows "processLine ev c line st = (Ok True, st')"
  using assms by (simp add: processLine_def gosimps counted_def Let_def)

section \<open>PUSH\<close>

lemma client_line:
  assumes "CHR 0x0A \<notin> set (op @ '' '' @ p)"
  shows "read_line (writeLine op (Some p) @ s) = Some (writeLine op (Some p), s)"
    "command_of_line (writeLine op (Some p)) = op @ '' '' @ p"
  using command_of_writeLine [OF assms] by (simp_all add: writeLine_def)

lemma push_ready_norm [simp]: "push_ready (norm_job j) = push_ready j"
  by (simp add: push_ready_def norm_job_def)

lemma push_line_run:
  assumes "redis_server rd view healthy" "healthy (rs st)" "store_ok (sview view st)"
    and "e_redis ev = rd" "e_chains ev = no_chains" "\<not> srv_closed st"
    and "job_ok j" "push_ready j" "queue_key (Queue (push_job st (norm_job j)))"
  shows "\<exists>st1. processLine ev c (client_Push j) st = (Ok True, st1) \<and> healthy (rs st1)
    \<and> sview view st1 = replied c conn_Ok (pushed (norm_job j) (counted (sview view st)))"
    and "read_line (client_Push j @ rest) = Some (client_Push j, rest)"
proof -
  let ?job = "norm_job j" and ?d = "sview view (counted st)"
  have line: "CHR 0x0A \<notin> set (''PUSH'' @ '' '' @ marshal_job j)"
    using marshal_job_line [OF assms(7)] by simp
  note cl = client_line [OF line, folded client_Push_def]
  show "read_line (client_Push j @ rest) = Some (client_Push j, rest)" by (rule cl(1))
  have d: "store_ok ?d" "queue_key (Queue (push_job ?d ?job))"
    using assms(3,9) by (simp_all add: counted_def push_job_def store_ok_def)
  then obtain j' where "mgr_Push db_redis no_chains ?job ?d = (Ok j', pushed ?job ?d)"
    using push_run [OF d(1) _ d(2)] assms(8) by auto
  with simD [OF redis_server.mgr_Push_sim [OF assms(1) chains_sim_none], of "counted st" ?job] assms(2)
  obtain s2 where s2: "mgr_Push rd no_chains ?job (counted st) = (Ok j', s2)" "sview view s2 = pushed ?job ?d"
    "healthy (rs s2)"
    by (cases "mgr_Push rd no_chains ?job (counted st)") (auto simp: counted_def)
  have "cmd_push ev c (''PUSH'' @ '' '' @ marshal_job j) (counted st) = (Ok (), replied c conn_Ok s2)"
    using s2(1) assms(4,5) unmarshal_job_over [OF assms(7)]
    by (simp add: cmd_push_def slice_from_def answer_def gosimps conn_write_run)
  then have "processLine ev c (client_Push j) st = (Ok True, replied c conn_Ok s2)"
    using processLine_run [OF assms(6) cl(2)] verb_of_prefix [of "''PUSH''" "marshal_job j"]
    by (simp add: CommandSet_def)
  with s2(2,3) show "\<exists>st1. processLine ev c (client_Push j) st = (Ok True, st1) \<and> healthy (rs st1)
    \<and> sview view st1 = replied c conn_Ok (pushed (norm_job j) (counted (sview view st)))"
    by (simp add: sview_reply)
qed

text \<open>
  C7: a job a client pushes arrives: the bytes \<open>Push\<close> of the client writes are one line for the server, the
  server stores the job it finds there, as it was up to empty optional fields, exactly as \<open>Push\<close> of the
  manager stores it, and answers on that connection only; the client reads the answer as success.
\<close>

theorem push_over_the_wire:
  assumes "redis_server rd view healthy" "healthy (rs st)" "store_ok (sview view st)"
    and "e_redis ev = rd" "e_chains ev = no_chains" "\<not> srv_closed st"
    and "job_ok j" "push_ready j" "queue_key (Queue (push_job st (norm_job j)))"
    and "st1 = snd (processLine ev c (client_Push j) st)"
  shows "read_line (client_Push j @ tail) = Some (client_Push j, tail)
    \<and> fst (processLine ev c (client_Push j) st) = Ok True
    \<and> sview view st1 = replied c conn_Ok (pushed (norm_job j) (counted (sview view st)))
    \<and> client_ok conn_Ok = (None, [])"
proof -
  obtain s1 where s1: "processLine ev c (client_Push j) st = (Ok True, s1)"
    "sview view s1 = replied c conn_Ok (pushed (norm_job j) (counted (sview view st)))"
    using push_line_run(1) [OF assms(1-9), of c] by blast
  have "client_ok conn_Ok = (None, [])"
    using read_write_response [of ROk "[]"] by (simp add: client_ok_def)
  with s1 show ?thesis
    using push_line_run(2) [OF assms(1-9)] assms(10) by simp
qed

definition sample_env :: "db env" where
  "sample_env = \<lparr>e_redis = db_redis, e_zscan = (\<lambda>n c p d. (Ok ([], 0), d)), e_chains = no_chains, e_fuel = 1,
     e_order = (\<lambda>qs. qs), e_info = retS ''{}''\<rparr>"

definition sample_conn :: Connection where
  "sample_conn = \<lparr>client_at = 0, conn_no = 1\<rparr>"

definition server_of :: "'s mgr \<Rightarrow> workers \<Rightarrow> 's server" where
  "server_of m w = mgr.extend m \<lparr>wk = w, sent = (\<lambda>_. []), conn_closed = [], srv_closed = False, stat_Commands = 0,
     stat_Connections = 0\<rparr>"

lemma server_of_facts [simp]:
  "rs (server_of m w) = rs m" "store_ok (server_of m w) = store_ok m" "wk (server_of m w) = w"
  "srv_closed (server_of m w) = False" "queue_of k (server_of m w) = queue_of k m"
  "zset_of n (server_of m w) = zset_of n m" "paused (server_of m w) = paused m"
  "clock (server_of m w) = clock m" "tick (server_of m w) = tick m" "sent (server_of m w) = (\<lambda>_. [])"
  by (simp_all add: server_of_def mgr.extend_def store_ok_def queue_of_def zset_of_def)

theorem push_over_the_wire_witness:
  "fst (processLine sample_env sample_conn (client_Push sample_job) (server_of empty_mgr one_worker)) = Ok True
   \<and> sent (snd (processLine sample_env sample_conn (client_Push sample_job) (server_of empty_mgr one_worker))) 1
       = sent (pushed (norm_job sample_job) (counted (server_of empty_mgr one_worker))) 1 @ conn_Ok"
proof -
  let ?s = "server_of empty_mgr one_worker"
  have s: "push_ready sample_job" "Queue (push_job ?s (norm_job sample_job)) = ''default''"
    by (simp_all add: sample_job_def SetCustom_def zero_job_def push_ready_def push_job_def norm_job_def)
  have "fst (processLine sample_env sample_conn (client_Push sample_job) ?s) = Ok True
    \<and> snd (processLine sample_env sample_conn (client_Push sample_job) ?s)
        = replied sample_conn conn_Ok (pushed (norm_job sample_job) (counted ?s))"
    using push_over_the_wire [OF dbr.redis_server_axioms, of ?s sample_env sample_job, OF _ _ _ _ _ _ _ _ refl]
      s empty_mgr_ok queue_key_default sample_job_ok
    by (simp add: sample_env_def)
  then show ?thesis
    by (simp add: replied_def sample_conn_def)
qed

section \<open>FETCH\<close>

lemma queue_key_chars: "queue_key k \<Longrightarrow> CHR '' '' \<notin> set k \<and> CHR 0x0A \<notin> set k"
  by (auto simp: queue_key_def valid_queue_name_def list_all_iff queue_char_def is_digit_def Let_def)

lemma fetch_line:
  assumes "queues \<noteq> []" "\<forall>k \<in> set queues. queue_key k"
  shows "CHR 0x0A \<notin> set (''FETCH'' @ '' '' @ join_with '' '' queues)"
    "tl (split_on CHR '' '' (''FETCH'' @ '' '' @ join_with '' '' queues)) = queues"
proof -
  have q: "\<forall>k \<in> set queues. CHR '' '' \<notin> set k" "\<forall>k \<in> set queues. CHR 0x0A \<notin> set k"
    using assms(2) queue_key_chars by blast+
  show "CHR 0x0A \<notin> set (''FETCH'' @ '' '' @ join_with '' '' queues)"
    using join_with_line [OF q(2), of "'' ''"] by simp
  have "split_on CHR '' '' (''FETCH'' @ CHR '' '' # join_with '' '' queues) =
      ''FETCH'' # split_on CHR '' '' (join_with '' '' queues)"
    by (rule split_on_append_sep) simp
  moreover have "split_on CHR '' '' (join_with '' '' queues) = queues"
    using split_on_join [of queues "CHR '' ''"] q(1) assms(1) by auto
  ultimately show "tl (split_on CHR '' '' (''FETCH'' @ '' '' @ join_with '' '' queues)) = queues"
    by simp
qed

lemma fetch_response_job:
  assumes "job_ok j" "length (marshal_job j) < 2 ^ 63"
  shows "fetch_response (conn_Result (Some (marshal_job j)) @ s) = (Ok (Some (norm_job j)), s)"
proof -
  obtain ch cs where m: "marshal_job j = ch # cs" using marshal_job_ne by (cases "marshal_job j") auto
  with readResponse_bulk [OF assms(2), of s] unmarshal_marshal [OF assms(1)] show ?thesis
    by (simp add: fetch_response_def)
qed

lemma fetched_counted:
  "queue_of k (counted st) = queue_of k st" "zset_of n (counted st) = zset_of n st" "store_ok (counted st) = store_ok st"
  by (simp_all add: counted_def queue_of_def zset_of_def store_ok_def)

lemma counted_facts [simp]:
  "paused (counted st) = paused st" "clock (counted st) = clock st" "tick (counted st) = tick st"
  "rs (counted st) = rs st" "wk (counted st) = wk st"
  by (simp_all add: counted_def)

lemma first_ready_counted: "first_ready qs (counted st) = first_ready qs st"
  by (simp add: first_ready_def fetched_counted)

lemma fetch_line_run:
  assumes "redis_server rd view healthy" "healthy (rs st)" "store_ok (sview view st)"
    and "e_redis ev = rd" "e_chains ev = no_chains" "e_fuel ev = Suc f" "\<not> srv_closed st"
    and "wstate (objects (wk st) ! client_at c) = Running"
    and "queues \<noteq> []" "\<forall>k \<in> set queues. queue_key k"
    and "first_ready (filter (\<lambda>q. q \<notin> set (paused st)) queues) (sview view st) = Some k"
    and "unmarshal_job (hd (queue_of k (sview view st))) = Ok j"
    and "time_ok (clock st (tick st) + reserve_timeout j * second)"
  shows "\<exists>st1. processLine ev c (client_Fetch queues) st = (Ok True, st1) \<and> healthy (rs st1)
    \<and> sview view st1 = replied c (conn_Result (Some (marshal_job j)))
        (fetched (cWid (objects (wk st) ! client_at c)) k (counted (sview view st)))"
    and "read_line (client_Fetch queues @ rest) = Some (client_Fetch queues, rest)"
proof -
  let ?d = "sview view (counted st)" and ?wid = "cWid (objects (wk st) ! client_at c)"
  let ?cmd = "''FETCH'' @ '' '' @ join_with '' '' queues" and ?reply = "conn_Result (Some (marshal_job j))"
  note line = fetch_line [OF assms(9,10)]
  note cl = client_line [OF line(1), folded client_Fetch_def]
  show "read_line (client_Fetch queues @ rest) = Some (client_Fetch queues, rest)" by (rule cl(1))
  have "Fetch (Suc f) db_redis no_chains ?wid queues ?d = (Ok (Some j), fetched ?wid k ?d)"
    using assms(3,9-13) by (intro Fetch_db) (simp_all add: sview_reply fetched_counted first_ready_counted)
  with simD [OF redis_server.Fetch_sim [OF assms(1) chains_sim_none], of "counted st" "Suc f" ?wid queues] assms(2)
  obtain s2 where s2: "Fetch (Suc f) rd no_chains ?wid queues (counted st) = (Ok (Some j), s2)"
    "sview view s2 = fetched ?wid k ?d" "healthy (rs s2)"
    by (cases "Fetch (Suc f) rd no_chains ?wid queues (counted st)") (auto simp: fetched_counted simp del: Fetch.simps)
  have "cmd_fetch ev c ?cmd (counted st) = (Ok (), replied c ?reply s2)"
    using s2(1) assms(4,5,6,8) line(2)
    by (simp add: cmd_fetch_def gosimps conn_write_run fetched_counted del: Fetch.simps)
  then have "processLine ev c (client_Fetch queues) st = (Ok True, replied c ?reply s2)"
    using processLine_run [OF assms(7) cl(2)] verb_of_prefix [of "''FETCH''" "join_with '' '' queues"]
    by (simp add: CommandSet_def)
  with s2(2,3) show "\<exists>st1. processLine ev c (client_Fetch queues) st = (Ok True, st1) \<and> healthy (rs st1)
    \<and> sview view st1 = replied c ?reply (fetched ?wid k (counted (sview view st)))"
    by (simp add: sview_reply)
qed

text \<open>
  C8: a job reaches the worker: on a connection whose worker is running, FETCH takes the oldest job of the
  first queue that is neither paused nor empty out of its queue, reserves it for that worker, and sends
  it; the client reads it as the same job, up to empty optional fields, and leaves the bytes behind the
  response alone.
\<close>

theorem fetch_over_the_wire:
  assumes "redis_server rd view healthy" "healthy (rs st)" "store_ok (sview view st)"
    and "e_redis ev = rd" "e_chains ev = no_chains" "e_fuel ev = Suc f" "\<not> srv_closed st"
    and "wstate (objects (wk st) ! client_at c) = Running"
    and "queues \<noteq> []" "\<forall>k \<in> set queues. queue_key k"
    and "first_ready (filter (\<lambda>q. q \<notin> set (paused st)) queues) (sview view st) = Some k"
    and "unmarshal_job (hd (queue_of k (sview view st))) = Ok j" "job_ok j" "length (marshal_job j) < 2 ^ 63"
    and "time_ok (clock st (tick st) + reserve_timeout j * second)"
    and "reply = conn_Result (Some (marshal_job j))"
  shows "fst (processLine ev c (client_Fetch queues) st) = Ok True
    \<and> sview view (snd (processLine ev c (client_Fetch queues) st)) =
        replied c reply (fetched (cWid (objects (wk st) ! client_at c)) k (counted (sview view st)))
    \<and> fetch_response (reply @ tail) = (Ok (Some (norm_job j)), tail)"
proof -
  obtain s1 where "processLine ev c (client_Fetch queues) st = (Ok True, s1)"
    "sview view s1 = replied c (conn_Result (Some (marshal_job j)))
       (fetched (cWid (objects (wk st) ! client_at c)) k (counted (sview view st)))"
    using fetch_line_run(1) [OF assms(1-12,15)] by blast
  then show ?thesis
    using assms(16) fetch_response_job [OF assms(13,14), of tail] by simp
qed

lemma length_quote_bytes: "length (quote_bytes s) \<le> 6 * length s"
proof (induction s rule: quote_bytes.induct)
  case (2 c cs)
  have "length (quote_char c) \<le> 6" by (simp add: quote_char_def Let_def)
  with 2 show ?case by (auto simp: has_prefix_iff)
qed simp

lemma sample_job_length: "length (marshal_job sample_job) < 2 ^ 63"
proof -
  have q: "length (quote_json s) \<le> 6 * length s + 2" for s
    using length_quote_bytes [of s] by (simp add: quote_json_def)
  have i: "length (show_int 25) = 2" "length (show_int 2) = 1"
    by (simp_all add: show_int_def show_nat.simps)
  have "length (marshal_job sample_job) \<le> 2000"
    using q [of "''jid''"] q [of "''0123456789abcdef''"] q [of "''queue''"] q [of "''default''"]
      q [of "''jobtype''"] q [of "''Email''"] q [of "''args''"] q [of "''to''"] q [of "''k''"]
      q [of "''retry''"] q [of "''failure''"] q [of "''retry_count''"] q [of "''failed_at''"]
      q [of "''2020-02-29T12:00:00Z''"] q [of "''custom''"] q [of "''a''"] q [of "''b''"] q [of "''x''"]
    by (simp add: marshal_job_def encode_job_def sample_job_def SetCustom_def zero_job_def encode_failure_def
        zero_failure_def json_int_def i opt_str_def opt_int_def less_list_code)
  then show ?thesis by simp
qed

theorem fetch_over_the_wire_witness:
  "\<exists>reply. processLine sample_env sample_conn (client_Fetch [''default'']) (server_of ready_mgr one_worker) =
       (Ok True, replied sample_conn reply (fetched ''w1'' ''default'' (counted (server_of ready_mgr one_worker))))
     \<and> fetch_response reply = (Ok (Some sample_job), [])"
proof -
  let ?s = "server_of ready_mgr one_worker" and ?r = "conn_Result (Some (marshal_job sample_job))"
  have o: "wstate (objects one_worker ! 0) = Running" "cWid (objects one_worker ! 0) = ''w1''"
    by (simp_all add: one_worker_def sample_client_def zero_client_def)
  have n: "norm_job sample_job = sample_job"
    using sample_facts unmarshal_marshal [OF sample_job_ok] by simp
  have l: "length (marshal_job sample_job) < 2 ^ 63"
    by (rule sample_job_length)
  have "first_ready [''default''] ?s = Some ''default''"
    by (simp add: first_ready_def ready_mgr_facts)
  then have "fst (processLine sample_env sample_conn (client_Fetch [''default'']) ?s) = Ok True
    \<and> snd (processLine sample_env sample_conn (client_Fetch [''default'']) ?s) =
        replied sample_conn ?r (fetched ''w1'' ''default'' (counted ?s))
    \<and> fetch_response ?r = (Ok (Some sample_job), [])"
    using fetch_over_the_wire [OF dbr.redis_server_axioms, of ?s sample_env 0 sample_conn "[''default'']" "''default''"
        sample_job ?r "[]"] o n l ready_mgr_facts queue_key_default sample_facts sample_job_ok sample_expiry_ok
    by (simp add: sample_env_def sample_conn_def sample_expiry_def)
  then show ?thesis by (metis prod.collapse)
qed

section \<open>Commands that bring the server down\<close>

lemma processLine_panic:
  assumes "\<not> srv_closed st" "command_of_line line = cmd" "map_of (CommandSet ev c) (verb_of cmd) = Some proc"
    and "fst (proc cmd (counted st)) = Panic p"
  shows "fst (processLine ev c line st) = Panic p"
proof -
  obtain s' where "proc cmd (counted st) = (Panic p, s')" using assms(4) by (metis prod.collapse)
  then show ?thesis
    using assms(1-3) by (simp add: processLine_def gosimps counted_def Let_def)
qed

text \<open>
  C31: a client can bring the server down with a command that lacks its argument: the handlers of PUSH, FAIL,
  BEAT and ACK cut the verb off without looking at the length of the line, QUEUE reads the second word
  without counting them, and a panic in the goroutine of a connection ends the process.
\<close>

theorem short_command_panics:
  assumes "\<not> srv_closed st" "cmd \<in> {''PUSH'', ''FAIL'', ''BEAT'', ''ACK'', ''QUEUE'', ''QUEUE PAUSE'', ''QUEUE RESUME''}"
  shows "\<exists>p. fst (processLine ev c (writeLine cmd None) st) = Panic p"
proof -
  have cmd: "command_of_line (writeLine cmd None) = cmd"
    using command_of_writeLine(2) [of cmd] assms(2) by (auto simp: writeLine_def)
  have v: "verb_of ''QUEUE PAUSE'' = ''QUEUE''" "verb_of ''QUEUE RESUME'' = ''QUEUE''"
    using verb_of_prefix [of "''QUEUE''" "''PAUSE''"] verb_of_prefix [of "''QUEUE''" "''RESUME''"] by simp_all
  note defs = cmd_push_def cmd_fail_def cmd_heartbeat_def cmd_ack_def cmd_queue_def slice_from_def liftR_def
    panicS_def bindS_def
  have "\<exists>proc p. map_of (CommandSet ev c) (verb_of cmd) = Some proc \<and> fst (proc cmd (counted st)) = Panic p"
    using assms(2) by (elim insertE emptyE) (simp_all add: v verb_of_plain CommandSet_def defs)
  then show ?thesis
    using processLine_panic [OF assms(1) cmd] by blast
qed

theorem short_command_panics_witness:
  "\<exists>p. fst (processLine sample_env sample_conn (writeLine ''PUSH'' None) (server_of empty_mgr one_worker)) = Panic p"
  by (rule short_command_panics) simp_all

end
