(* ===== verification/JsonNumbers.thy ===== *)
theory JsonNumbers
  imports Decode
begin

text \<open>
  Integers in \<open>interface{}\<close> values: a number decoded there is a \<open>float64\<close>, and up to \<open>10 ^ 15\<close> the text
  \<open>encoding/json\<close> writes for it is the integer's own.  Arguments of jobs that are such integers, and the
  numbers of the greeting of the server, come through unchanged.
\<close>

section \<open>Values of literals\<close>

lemma num_val_show_nat [simp]: "num_val (show_nat n) = of_nat n"
proof -
  have d: "\<And>c. c \<in> set (show_nat n) \<Longrightarrow> is_digit c" by (rule show_nat_digits)
  then have w: "takeWhile is_digit (show_nat n) = show_nat n" "dropWhile is_digit (show_nat n) = []"
    by (simp_all add: takeWhile_eq_all_conv)
  have "hd (show_nat n) \<noteq> CHR ''-''"
    using hd_digit_show_nat [of n] by (auto simp: is_digit_nonspecial)
  then show ?thesis
    by (simp add: num_val_def Let_def pow10_def w)
qed

lemma to_float64_nat:
  assumes "n < 2 ^ 53"
  shows "to_float64 (of_nat n) = Some (of_nat n)"
proof (cases "n = 0")
  case False
  define x :: rat where "x = of_nat n"
  have x: "0 < x" "1 \<le> x" using False by (simp_all add: x_def)
  have lt: "x < 2 powi 53"
  proof -
    have "x < of_nat (2 ^ 53)" unfolding x_def using assms by (simp only: of_nat_less_iff)
    then show ?thesis by simp
  qed
  note b = expo_bounds [OF x(1)]
  have "f64 x = x"
    using f64_of_int [of "int n"] assms by (simp add: x_def)
  moreover have "\<not> expo x < - 1022"
  proof
    assume "expo x < - 1022"
    then have "2 powi (expo x + 1) \<le> (2 powi 0 :: rat)" by (intro powi2_mono) simp
    with b(2) x(2) show False by simp
  qed
  moreover have "\<not> 1024 \<le> expo x"
  proof
    assume "1024 \<le> expo x"
    then have "2 powi 53 \<le> (2 powi expo x :: rat)" by (intro powi2_mono) simp
    with b(1) lt show False by simp
  qed
  ultimately show ?thesis
    using x by (simp add: to_float64_def Let_def flip: x_def)
qed (simp add: to_float64_def)

section \<open>The shortest digits of an integer\<close>

lemma short_digits_nat:
  assumes "0 < n"
  shows "e \<le> f \<Longrightarrow> (n div 10 ^ e + 1) * 10 ^ e < 2 ^ 53 \<Longrightarrow>
    \<exists>k \<le> e. short_digits (Suc f) (int e) (of_nat n) = (n div 10 ^ k, int k) \<and> 10 ^ k dvd n
      \<and> (k < e \<longrightarrow> \<not> 10 ^ Suc k dvd n)"
proof (induction e arbitrary: f)
  case 0
  have "(of_int \<lfloor>of_nat n :: rat\<rfloor> :: rat) = of_nat n" by simp
  then show ?case
    using to_float64_nat [of n] 0 by (simp add: pow10_def Let_def)
next
  case (Suc e)
  define d where "d = n div 10 ^ Suc e"
  let ?p = "10 ^ Suc e :: nat"
  have p: "pow10 (int (Suc e)) = of_nat ?p" by (simp add: pow10_def power_int_def nat_add_distrib)
  have fl: "\<lfloor>(of_nat n :: rat) / of_nat ?p\<rfloor> = int d"
    unfolding d_def by (rule floor_divide_of_nat_eq)
  have le: "d * ?p \<le> n" "n < (d + 1) * ?p"
    unfolding d_def by (simp_all add: dividend_less_div_times)
  have lo: "to_float64 (of_int (int d) * of_nat ?p) = Some (of_nat (d * ?p))"
    using to_float64_nat [of "d * ?p"] le Suc.prems(2) by (simp add: d_def algebra_simps)
  have hi: "to_float64 (of_int (int d + 1) * of_nat ?p) = Some (of_nat ((d + 1) * ?p))"
    using to_float64_nat [of "(d + 1) * ?p"] Suc.prems(2) by (simp add: d_def algebra_simps)
  have hi_ne: "(of_nat ((d + 1) * ?p) :: rat) \<noteq> of_nat n"
    using le(2) by (simp only: of_nat_eq_iff)
  have step: "short_digits (Suc f) (int (Suc e)) (of_nat n) =
      (if d * ?p = n then (d, int (Suc e)) else short_digits f (int e) (of_nat n))"
    unfolding short_digits.simps p fl Let_def lo hi
    using hi_ne by (simp only: option.inject of_nat_eq_iff) simp
  show ?case
  proof (cases "d * ?p = n")
    case True
    then have "?p dvd n" by (metis dvd_triv_right)
    with True step show ?thesis by (intro exI [of _ "Suc e"]) (simp add: d_def)
  next
    case False
    obtain f' where f: "f = Suc f'" "e \<le> f'" using Suc.prems(1) by (cases f) auto
    have nd: "\<not> ?p dvd n" using False by (auto simp: d_def)
    have "(n div 10 ^ e + 1) * 10 ^ e \<le> (d + 1) * ?p"
    proof -
      have "n div 10 ^ e < (d + 1) * 10"
        using le(2) by (simp add: less_mult_imp_div_less algebra_simps)
      then have "n div 10 ^ e + 1 \<le> (d + 1) * 10" by simp
      then have "(n div 10 ^ e + 1) * 10 ^ e \<le> (d + 1) * 10 * 10 ^ e" by (rule mult_le_mono1)
      then show ?thesis by (simp add: algebra_simps)
    qed
    then have "(n div 10 ^ e + 1) * 10 ^ e < 2 ^ 53" using Suc.prems(2) by (simp add: d_def)
    from Suc.IH [OF f(2) this] obtain k where k: "k \<le> e"
      "short_digits (Suc f') (int e) (of_nat n) = (n div 10 ^ k, int k)" "10 ^ k dvd n" "k < e \<longrightarrow> \<not> 10 ^ Suc k dvd n"
      by blast
    have "\<not> 10 ^ Suc k dvd n" using k(1,4) nd by (cases "k = e") auto
    with k step False f show ?thesis by (intro exI [of _ k]) auto
  qed
qed

lemma show_nat_times_ten: "0 < d \<Longrightarrow> show_nat (d * 10 ^ k) = show_nat d @ replicate k CHR ''0''"
proof (induction k)
  case (Suc k)
  have "show_nat (d * 10 ^ Suc k) = show_nat (d * 10 ^ k) @ ''0''"
    using Suc.prems by (subst show_nat.simps) (simp add: digit_char_def)
  with Suc show ?case by (simp add: replicate_append_same)
qed simp

lemma length_show_nat_pow: "0 < n \<Longrightarrow> 10 ^ (length (show_nat n) - 1) \<le> n \<and> n < 10 ^ length (show_nat n)"
proof (induction n rule: show_nat.induct)
  case (1 n)
  show ?case
  proof (cases "n < 10")
    case False
    let ?l = "length (show_nat (n div 10))"
    have "1 \<le> ?l" by (simp add: Suc_le_eq)
    have "10 ^ (?l - 1) \<le> n div 10 \<and> n div 10 < 10 ^ ?l" using 1 False by simp
    then have "10 ^ (?l - 1) * 10 \<le> n" "n < 10 ^ ?l * 10"
      using less_eq_div_iff_mult_less_eq [of 10 "10 ^ (?l - 1)" n] div_less_iff_less_mult [of 10 n "10 ^ ?l"]
      by simp_all
    moreover have "10 ^ (?l - 1) * 10 = (10 :: nat) ^ ?l"
      using \<open>1 \<le> ?l\<close> by (intro power_minus_mult) simp
    ultimately show ?thesis using False by (simp add: show_nat.simps [of n])
  qed (use "1.prems" in \<open>simp add: show_nat.simps [of n]\<close>)
qed

lemma show_pos_float_nat:
  assumes "0 < n" "n < 10 ^ 15"
  shows "show_pos_float (of_nat n) = show_nat n"
proof -
  let ?l = "length (show_nat n)"
  define e where "e = ?l - 1"
  have l: "?l = Suc e" by (simp add: e_def)
  note w = length_show_nat_pow [OF assms(1), unfolded l]
  have "(10 :: nat) ^ e < 10 ^ 15" using w assms(2) by simp
  then have e15: "e < 15" by (rule power_less_imp_less_exp [rotated]) simp
  have "(n div 10 ^ e + 1) * 10 ^ e \<le> 10 ^ Suc e"
  proof -
    have "n div 10 ^ e + 1 \<le> 10" using w by (simp add: less_mult_imp_div_less Suc_le_eq)
    then have "(n div 10 ^ e + 1) * 10 ^ e \<le> 10 * 10 ^ e" by (rule mult_le_mono1)
    then show ?thesis by simp
  qed
  also have "(10 :: nat) ^ Suc e \<le> 10 ^ 15" using e15 by (intro power_increasing) auto
  also have "(10 :: nat) ^ 15 < 2 ^ 53" by simp
  finally obtain k where k: "k \<le> e" "short_digits 18 (int e) (of_nat n) = (n div 10 ^ k, int k)"
    "10 ^ k dvd n" "k < e \<longrightarrow> \<not> 10 ^ Suc k dvd n"
    using short_digits_nat [OF assms(1), of e 17] e15 by auto
  define d where "d = n div 10 ^ k"
  have n: "n = d * 10 ^ k" using k(3) by (simp add: d_def)
  have d0: "0 < d" using n assms(1) by (cases d) auto
  have "d mod 10 \<noteq> 0"
  proof (cases "k < e")
    case True
    with k(4) show ?thesis unfolding n by (metis dvd_eq_mod_eq_0 mult_dvd_mono dvd_refl power_Suc)
  next
    case False
    then have "d < 10" using w k(1) by (simp add: d_def less_mult_imp_div_less)
    with d0 show ?thesis by simp
  qed
  then have st: "strip_tens 20 (short_digits 18 (int e) (of_nat n)) = (d, int k)"
    using k(2) by (simp add: strip_tens_none d_def)
  have lt: "(of_nat n :: rat) < 10 ^ 15" using assms(2) by (metis of_nat_less_iff of_nat_numeral of_nat_power)
  have big: "\<not> pow10 21 \<le> (of_nat n :: rat)"
    using lt by (simp add: pow10_def) 
  have small: "\<not> (of_nat n :: rat) < pow10 (- 6)"
  proof -
    have "(1 :: rat) \<le> of_nat n" using assms(1) by simp
    then show ?thesis by (simp add: pow10_def power_int_minus field_simps)
  qed
  have de: "dec_exp (of_nat n) - 1 = int e"
    using assms(1) l by (simp add: dec_exp_def)
  show ?thesis
    unfolding show_pos_float_def de st using big small
    by (simp add: n show_nat_times_ten [OF d0])
qed

theorem canon_num_show_nat: "n < 10 ^ 15 \<Longrightarrow> canon_num (show_nat n) = Some (show_nat n)"
proof -
  assume n: "n < 10 ^ 15"
  have neg: "hd (show_nat n) \<noteq> CHR ''-''"
    using hd_digit_show_nat [of n] by (auto simp: is_digit_nonspecial)
  have "to_float64 (of_nat n) = Some (of_nat n)" by (rule to_float64_nat) (use n in simp)
  moreover have "show_nat 0 = ''0''" by (simp add: show_nat.simps [of 0] digit_char_def)
  moreover from this have "num_val ''0'' = 0" using num_val_show_nat [of 0] by simp
  ultimately show ?thesis
    using show_pos_float_nat [of n] n neg by (cases "n = 0") (simp_all add: canon_num_def Let_def)
qed

lemma json_normal_nat: "n < 10 ^ 15 \<Longrightarrow> json_normal (JNum (show_nat n))"
  using canon_num_show_nat [of n] valid_num_show_int [of "int n"] num_char_show_int [of "int n"]
  by (simp add: show_int_def)

end
