(* ===== verification/Handshake.thy ===== *)
theory Handshake
  imports ServerFacts JsonNumbers
begin

text \<open>
  The beginning and the end of a connection: the greeting of the server and the HELLO of the client
  (\<open>startConnection\<close> of \<open>server/server.go\<close>, \<open>clientDataFromHello\<close> of \<open>server/workers.go\<close>, \<open>dial\<close> of
  \<open>client/client.go\<close>), and the goroutine around them that serves a connection.  SHA-256 is an argument
  \<open>sha\<close>, a function from bytes to bytes.  The other end of a connection is a function from the greeting to
  all bytes it will send.  Timeouts and TLS are not modelled.
\<close>

section \<open>The password hash\<close>

fun hash_loop :: "(string \<Rightarrow> string) \<Rightarrow> nat \<Rightarrow> string \<Rightarrow> string" where
  "hash_loop sha 0 h = h"
| "hash_loop sha (Suc n) h = hash_loop sha n (sha h)"

text \<open>\<open>fmt.Sprintf("%x", hash)\<close>.\<close>

definition hex_text :: "string \<Rightarrow> string" where
  "hex_text bs = concat (map (\<lambda>c. [hex_char (of_char c div 16), hex_char (of_char c mod 16)]) bs)"

definition hash :: "(string \<Rightarrow> string) \<Rightarrow> string \<Rightarrow> string \<Rightarrow> int \<Rightarrow> string" where
  "hash sha pwd salt iterations =
     (let h = sha (pwd @ salt);
          h = (if 1 < iterations then hash_loop sha (nat (iterations - 1)) h else h)
      in hex_text h)"

text \<open>The copy in the client.\<close>

definition client_hash :: "(string \<Rightarrow> string) \<Rightarrow> string \<Rightarrow> string \<Rightarrow> int \<Rightarrow> string" where
  "client_hash sha pwd salt iterations =
     (let h = sha (pwd @ salt);
          h = (if 1 < iterations then hash_loop sha (nat (iterations - 1)) h else h)
      in hex_text h)"

section \<open>HELLO in the server\<close>

text \<open>
  Decoding a \<open>uint8\<close>, and a \<open>time.Time\<close> from its RFC 3339 text (\<open>StartedAt\<close> is an exported field, so a
  client may send it).
\<close>

definition dec_uint8 :: "json \<Rightarrow> int \<Rightarrow> int gores" where
  "dec_uint8 v old =
     (case v of
        JNull \<Rightarrow> Ok old
      | JNum n \<Rightarrow>
          (case atoi n of
             Ok i \<Rightarrow> if hd n \<noteq> CHR ''-'' \<and> 0 \<le> i \<and> i < 256 then Ok i else type_err ''uint8'' v
           | _ \<Rightarrow> type_err ''uint8'' v)
      | _ \<Rightarrow> type_err ''uint8'' v)"

definition dec_time :: "json \<Rightarrow> time \<Rightarrow> time gores" where
  "dec_time v old =
     (case v of JNull \<Rightarrow> Ok old | JStr s \<Rightarrow> ParseTime s | _ \<Rightarrow> type_err ''time.Time'' v)"

definition hello_fields :: "ClientData fields" where
  "hello_fields =
     [(''hostname'', fld dec_str Hostname (\<lambda>a r. r\<lparr>Hostname := a\<rparr>)),
      (''wid'', fld dec_str cWid (\<lambda>a r. r\<lparr>cWid := a\<rparr>)),
      (''pid'', fld dec_int Pid (\<lambda>a r. r\<lparr>Pid := a\<rparr>)),
      (''rss_kb'', fld dec_int RssKb (\<lambda>a r. r\<lparr>RssKb := a\<rparr>)),
      (''labels'', fld (dec_slice dec_str [] ''[]string'') Labels (\<lambda>a r. r\<lparr>Labels := a\<rparr>)),
      (''pwdhash'', fld dec_str PasswordHash (\<lambda>a r. r\<lparr>PasswordHash := a\<rparr>)),
      (''v'', fld dec_uint8 cVersion (\<lambda>a r. r\<lparr>cVersion := a\<rparr>)),
      (''StartedAt'', fld dec_time StartedAt (\<lambda>a r. r\<lparr>StartedAt := a\<rparr>))]"

definition clientDataFromHello :: "string \<Rightarrow> ClientData gores" where
  "clientDataFromHello data = unmarshal ''server.ClientData'' hello_fields data zero_client"

section \<open>The server's side\<close>

definition net_write :: "nat \<Rightarrow> string \<Rightarrow> ('s server, unit) gofun" where
  "net_write no bytes = modS (\<lambda>st. st\<lparr>sent := (sent st)(no := sent st no @ bytes)\<rparr>)"

definition net_close :: "nat \<Rightarrow> ('s server, unit) gofun" where
  "net_close no = modS (\<lambda>st. st\<lparr>conn_closed := no # conn_closed st\<rparr>)"

text \<open>\<open>strconv.FormatInt(n, 16)\<close>.\<close>

fun show_hex :: "nat \<Rightarrow> string" where
  "show_hex n = (if n < 16 then [hex_char n] else show_hex (n div 16) @ [hex_char (n mod 16)])"

declare show_hex.simps [simp del]

definition greeting :: "string \<Rightarrow> nat \<Rightarrow> string \<Rightarrow> string" where
  "greeting pwd iter salt =
     ''+HI {'' @ [CHR 0x22] @ ''v'' @ [CHR 0x22] @ '':2''
     @ (if pwd \<noteq> []
        then '','' @ [CHR 0x22] @ ''i'' @ [CHR 0x22] @ '':'' @ show_nat iter
             @ '','' @ quoted_field ''s'' salt @ ''}''
        else ''}'')
     @ crlf"

text \<open>\<open>setupHeartbeat\<close> reads the clock only for a worker that is not known.\<close>

definition setup_conn :: "nat \<Rightarrow> nat \<Rightarrow> ('s server, unit) gofun" where
  "setup_conn a no =
     bindS (getS (\<lambda>st. setup_check a (wk st))) (\<lambda>known.
       case known of
         Some _ \<Rightarrow> retS ()
       | None \<Rightarrow>
           bindS Now (\<lambda>now1.
           bindS Now (\<lambda>now2.
           modS (\<lambda>st. st\<lparr>wk := snd (setupHeartbeat now1 now2 a no (wk st))\<rparr>))))"

definition bad_password :: string where
  "bad_password = ''-ERR Invalid password'' @ crlf"

text \<open>The result is the connection with the bytes that follow the HELLO, or nothing (\<open>nil\<close>).\<close>

definition startConnection :: "(string \<Rightarrow> string) \<Rightarrow> string \<Rightarrow> nat \<Rightarrow> (string \<Rightarrow> string) \<Rightarrow>
    ('s server, (Connection \<times> string) option) gofun" where
  "startConnection sha pwd no peer =
     bindS (Intn 4096) (\<lambda>r.
     let iter = r + 4000 in
     bindS (if pwd \<noteq> [] then bindS (Intn (2 ^ 63)) (\<lambda>n. retS (show_hex n)) else retS []) (\<lambda>salt.
     bindS (net_write no (greeting pwd iter salt)) (\<lambda>_.
     case read_line (peer (greeting pwd iter salt)) of
       None \<Rightarrow> bindS (net_close no) (\<lambda>_. retS None)
     | Some (line, rest) \<Rightarrow>
         if \<not> has_prefix line ''HELLO {'' then bindS (net_close no) (\<lambda>_. retS None)
         else
           (case clientDataFromHello (drop 5 line) of
              Ok cl \<Rightarrow>
                if pwd \<noteq> [] \<and> PasswordHash cl \<noteq> hash sha pwd salt (if cVersion cl < 2 then 1 else int iter)
                then
                  bindS (net_write no bad_password) (\<lambda>_.
                  bindS (net_close no) (\<lambda>_. retS None))
                else
                  bindS (getS (\<lambda>st. fst (new_object cl (wk st)))) (\<lambda>a.
                  bindS (modS (\<lambda>st. st\<lparr>wk := snd (new_object cl (wk st))\<rparr>)) (\<lambda>_.
                  bindS (if cWid cl = [] then retS () else setup_conn a no) (\<lambda>_.
                  bindS (net_write no conn_Ok) (\<lambda>_.
                  retS (Some (\<lparr>client_at = a, conn_no = no\<rparr>, rest))))))
            | Err e \<Rightarrow> bindS (net_close no) (\<lambda>_. retS None)
            | Panic p \<Rightarrow> panicS p))))"

definition cleanupConnection :: "Connection \<Rightarrow> ('s server, unit) gofun" where
  "cleanupConnection c = modS (\<lambda>st. st\<lparr>wk := RemoveConnection (client_at c) (conn_no c) (wk st)\<rparr>)"

text \<open>The goroutine of a connection; the deferred clean-up runs after a panic, too.\<close>

definition serve :: "nat \<Rightarrow> 's env \<Rightarrow> (string \<Rightarrow> string) \<Rightarrow> string \<Rightarrow> nat \<Rightarrow> (string \<Rightarrow> string) \<Rightarrow>
    ('s server, unit) gofun" where
  "serve fuel ev sha pwd no peer =
     bindS (startConnection sha pwd no peer) (\<lambda>r.
       case r of
         None \<Rightarrow> retS ()
       | Some (c, rest) \<Rightarrow>
           bindS (tryS (processLines fuel ev c rest)) (\<lambda>x.
           bindS (cleanupConnection c) (\<lambda>_. liftR x)))"

section \<open>The client's side\<close>

record HelloData =
  hd_Hostname :: string
  hd_Wid :: string
  hd_Pid :: int
  hd_Labels :: "string list option"
  hd_PasswordHash :: string
  hd_Version :: int

definition encode_hello :: "HelloData \<Rightarrow> json" where
  "encode_hello d = JObj
     [(''hostname'', JStr (hd_Hostname d)), (''wid'', JStr (hd_Wid d)), (''pid'', json_int (hd_Pid d)),
      (''labels'', case hd_Labels d of None \<Rightarrow> JNull | Some ls \<Rightarrow> JArr (map JStr ls)),
      (''pwdhash'', JStr (hd_PasswordHash d)), (''v'', json_int (hd_Version d))]"

definition hello_line :: "HelloData \<Rightarrow> string" where
  "hello_line d = writeLine ''HELLO'' (Some (show_json (encode_hello d)))"

text \<open>The host, process and labels are those of the process; the version of the protocol is 2.\<close>

definition emptyClientData :: "string \<Rightarrow> int \<Rightarrow> string \<Rightarrow> string list option \<Rightarrow> HelloData" where
  "emptyClientData hs pid wid labels =
     \<lparr>hd_Hostname = hs, hd_Wid = wid, hd_Pid = pid, hd_Labels = labels, hd_PasswordHash = [], hd_Version = 2\<rparr>"

definition unmarshal_map :: "string \<Rightarrow> (string \<times> json) list option gores" where
  "unmarshal_map s = (case parse_json s of None \<Rightarrow> Err syntax_err | Some v \<Rightarrow> dec_map v None)"

text \<open>\<open>int(x.(float64))\<close>.\<close>

definition any_int :: "json \<Rightarrow> int gores" where
  "any_int v =
     (case v of
        JNum n \<Rightarrow> (case to_float64 (num_val n) of Some x \<Rightarrow> Ok (trunc_f x) | None \<Rightarrow> Ok 0)
      | _ \<Rightarrow> Panic ''interface conversion: interface {} is not float64'')"

text \<open>What \<open>dial\<close> does with the greeting: the data for the HELLO, or an error.\<close>

definition hello_for :: "(string \<Rightarrow> string) \<Rightarrow> string \<Rightarrow> HelloData \<Rightarrow> (string \<times> json) list \<Rightarrow> HelloData gores" where
  "hello_for sha password d hi =
     (case map_of hi ''s'' of
        Some (JStr salt) \<Rightarrow>
          (case (case map_of hi ''i'' of None \<Rightarrow> Ok 1 | Some v \<Rightarrow> any_int v) of
             Ok iter \<Rightarrow> Ok (d\<lparr>hd_PasswordHash := client_hash sha password salt iter\<rparr>)
           | Err e \<Rightarrow> Err e
           | Panic p \<Rightarrow> Panic p)
      | _ \<Rightarrow> Ok d)"

definition dial_hello :: "(string \<Rightarrow> string) \<Rightarrow> string \<Rightarrow> HelloData \<Rightarrow> string \<Rightarrow> HelloData gores \<times> string" where
  "dial_hello sha password d input =
     (case readString input of
        (RData (Some line), r) \<Rightarrow>
          (if \<not> has_prefix line ''HI '' then (Err (GErr (''Expecting HI but got: '' @ line)), r)
           else
             (case slice_from 3 (trim_space line) of
                Ok str \<Rightarrow>
                  (case unmarshal_map str of
                     Ok m \<Rightarrow> (hello_for sha password d (case m of None \<Rightarrow> [] | Some kvs \<Rightarrow> kvs), r)
                   | Err e \<Rightarrow> (Err e, r)
                   | Panic p \<Rightarrow> (Panic p, r))
              | Err e \<Rightarrow> (Err e, r)
              | Panic p \<Rightarrow> (Panic p, r)))
      | (RData None, r) \<Rightarrow> (Err (GErr ''Expecting HI but got: ''), r)
      | (RProtocolError m, r) \<Rightarrow> (Err (GErr m), r)
      | (RFail m, r) \<Rightarrow> (Err (GErr m), r)
      | (RPanic p, r) \<Rightarrow> (Panic p, r))"

text \<open>
  \<open>dial\<close> as the other end of a connection: it answers the greeting with its HELLO and sends \<open>more_bytes\<close>
  afterwards; \<open>dial_result\<close> is what it makes of all the bytes it gets, \<open>None\<close> for success.
\<close>

definition dial_peer :: "(string \<Rightarrow> string) \<Rightarrow> string \<Rightarrow> HelloData \<Rightarrow> string \<Rightarrow> string \<Rightarrow> string" where
  "dial_peer sha password d more_bytes input =
     (case fst (dial_hello sha password d input) of Ok d' \<Rightarrow> hello_line d' @ more_bytes | _ \<Rightarrow> [])"

definition dial_result :: "(string \<Rightarrow> string) \<Rightarrow> string \<Rightarrow> HelloData \<Rightarrow> string \<Rightarrow> read_result option" where
  "dial_result sha password d input =
     (case dial_hello sha password d input of
        (Ok _, r) \<Rightarrow> fst (client_ok r)
      | (Err e, r) \<Rightarrow> Some (RFail (err_text e))
      | (Panic p, r) \<Rightarrow> Some (RPanic p))"

section \<open>What the two ends read\<close>

lemma client_hash_eq: "client_hash = hash"
  by (intro ext) (simp add: client_hash_def hash_def)

lemma parse_json_spaces:
  assumes "json_ok v" "list_all json_space a" "list_all json_space b"
  shows "parse_json (a @ show_json v @ b) = Some v"
proof -
  have "b = [] \<or> \<not> num_char (hd b)"
    using assms(3) by (cases b) (auto simp: json_space_def num_char_def is_digit_def)
  then have "parse_value (2 * length (a @ show_json v @ b) + 2) (show_json v @ b) = Some (v, b)"
    by (intro parse_show_fuel [THEN conjunct1, rule_format])
       (use assms(1) json_size_le_show [OF assms(1)] in auto)
  moreover have "skip_ws (a @ show_json v @ b) = show_json v @ b" "skip_ws b = []"
    using assms by (simp_all add: list_all_iff dropWhile_append2)
  ultimately show ?thesis by (simp add: parse_json_def)
qed

text \<open>A client's data is its own up to the fields the server adds.\<close>

definition hello_client :: "HelloData \<Rightarrow> ClientData" where
  "hello_client d = zero_client\<lparr>Hostname := hd_Hostname d, cWid := hd_Wid d, Pid := hd_Pid d, Labels := hd_Labels d,
     PasswordHash := hd_PasswordHash d, cVersion := hd_Version d\<rparr>"

definition hello_ok :: "HelloData \<Rightarrow> bool" where
  "hello_ok d \<longleftrightarrow> int64_ok (hd_Pid d) \<and> 0 \<le> hd_Version d \<and> hd_Version d < 256"

lemma json_ok_hello: "json_ok (encode_hello d)"
  by (auto simp: encode_hello_def list_all_iff split: option.split)

lemma dec_uint8_int [simp]: "0 \<le> i \<Longrightarrow> i < 256 \<Longrightarrow> dec_uint8 (json_int i) old = Ok i"
  using hd_digit_show_nat [of "nat i"] atoi_show_int [of i]
  by (auto simp: dec_uint8_def json_int_def show_int_def is_digit_nonspecial)

lemma dec_labels: "dec_slice dec_str [] t (case ls of None \<Rightarrow> JNull | Some l \<Rightarrow> JArr (map JStr l)) old = Ok ls"
proof (cases ls)
  case (Some l)
  have "dec_elems dec_str [] (map JStr l) o' = Ok (map (\<lambda>v. case v of JStr s \<Rightarrow> s | _ \<Rightarrow> []) (map JStr l))" for o'
    by (rule dec_elems_total) auto
  with Some show ?thesis by (simp add: dec_slice_def comp_def)
qed (simp add: dec_slice_def)

lemma decode_hello:
  assumes "hello_ok d"
  shows "dec_struct t hello_fields (encode_hello d) zero_client = Ok (hello_client d)"
  using assms
  by (simp add: hello_ok_def dec_struct_def encode_hello_def zero_client_def dec_one hello_fields_def
      hello_client_def dec_labels del: dec_members.simps(2))

lemma hello_line_read:
  assumes "hello_ok d"
  shows "read_line (hello_line d @ s) = Some (hello_line d, s)" "has_prefix (hello_line d) ''HELLO {''"
    "clientDataFromHello (drop 5 (hello_line d)) = Ok (hello_client d)"
proof -
  have "CHR 0x0A \<notin> set (''HELLO'' @ '' '' @ show_json (encode_hello d))"
    using show_json_line [OF json_ok_hello, of d] by simp
  from client_line(1) [OF this, of s] show "read_line (hello_line d @ s) = Some (hello_line d, s)"
    by (simp add: hello_line_def)
  show "has_prefix (hello_line d) ''HELLO {''"
    by (simp add: hello_line_def writeLine_def encode_hello_def)
  have "parse_json ('' '' @ show_json (encode_hello d) @ crlf) = Some (encode_hello d)"
    by (rule parse_json_spaces [OF json_ok_hello]) (simp_all add: json_space_def crlf_def)
  then show "clientDataFromHello (drop 5 (hello_line d)) = Ok (hello_client d)"
    using decode_hello [OF assms]
    by (simp add: clientDataFromHello_def unmarshal_def hello_line_def writeLine_def)
qed

section \<open>The greeting\<close>

lemma hex_char_plain: "k < 16 \<Longrightarrow> plain_char (hex_char k) \<and> hex_char k \<noteq> CHR 0x0A"
  by (drule less_sixteen_cases) (elim disjE; simp add: hex_char_def plain_char_def quote_char_def)

lemma show_hex_plain: "list_all plain_char (show_hex n) \<and> CHR 0x0A \<notin> set (show_hex n)"
proof (induction n rule: show_hex.induct)
  case (1 n)
  have "n mod 16 < 16" by simp
  with 1 show ?case
    using hex_char_plain [of n] hex_char_plain [of "n mod 16"] by (subst (1 2) show_hex.simps) auto
qed

definition hi_json :: "string \<Rightarrow> nat \<Rightarrow> string \<Rightarrow> json" where
  "hi_json pwd iter salt = JObj ((''v'', JNum ''2'') #
     (if pwd \<noteq> [] then [(''i'', JNum (show_nat iter)), (''s'', JStr salt)] else []))"

lemma show_nat_2: "show_nat 2 = ''2''"
  by (simp add: show_nat.simps digit_char_def)

lemma json_ok_nat: "json_ok (JNum (show_nat n))"
  using json_ok_int [of "int n"] by (simp add: json_int_def show_int_def)

lemma json_ok_hi: "json_ok (hi_json pwd iter salt)"
  using json_ok_nat [of iter] json_ok_nat [of 2] by (simp add: hi_json_def show_nat_2)

lemma greeting_json:
  assumes "list_all plain_char salt"
  shows "greeting pwd iter salt = ''+HI '' @ show_json (hi_json pwd iter salt) @ crlf"
proof -
  have q: "quote_json ''v'' = [CHR 0x22] @ ''v'' @ [CHR 0x22]" "quote_json ''i'' = [CHR 0x22] @ ''i'' @ [CHR 0x22]"
    "quote_json ''s'' = [CHR 0x22] @ ''s'' @ [CHR 0x22]"
    by (simp_all add: quote_json_def quote_char_def)
  have "quote_json salt = [CHR 0x22] @ salt @ [CHR 0x22]"
    using assms by (simp add: quote_json_def quote_bytes_plain)
  with q show ?thesis
    by (simp add: greeting_def hi_json_def quoted_field_def)
qed

lemma any_int_nat: "n < 10 ^ 15 \<Longrightarrow> any_int (JNum (show_nat n)) = Ok (int n)"
  using to_float64_nat [of n] by (simp add: any_int_def trunc_f_nonneg)

lemma unmarshal_hi:
  assumes "iter < 10 ^ 15"
  shows "unmarshal_map (show_json (hi_json pwd iter salt)) = Ok (Some
    (if pwd = [] then [(''v'', JNum ''2'')] else [(''i'', JNum (show_nat iter)), (''s'', JStr salt), (''v'', JNum ''2'')]))"
proof -
  have "canon_num ''2'' = Some ''2''" using canon_num_show_nat [of 2] by (simp add: show_nat_2)
  then show ?thesis
    using canon_num_show_nat [OF assms]
    by (simp add: unmarshal_map_def parse_show_json [OF json_ok_hi]) (simp add: hi_json_def dec_map_def)
qed

lemma trim_space_hi: "trim_space (''HI '' @ show_json (hi_json pwd iter salt)) = ''HI '' @ show_json (hi_json pwd iter salt)"
proof -
  obtain u where u: "show_json (hi_json pwd iter salt) = u @ ''}''"
    by (simp add: hi_json_def)
  show ?thesis unfolding u by (simp add: trim_space_def is_space_def)
qed

lemma dial_hello_greeting:
  assumes "list_all plain_char salt" "CHR 0x0A \<notin> set salt" "iter < 10 ^ 15"
  shows "dial_hello sha password d (greeting pwd iter salt @ s) =
    (Ok (if pwd = [] then d else d\<lparr>hd_PasswordHash := hash sha password salt (int iter)\<rparr>), s)"
proof -
  let ?l = "''HI '' @ show_json (hi_json pwd iter salt)"
  have "CHR 0x0A \<notin> set ?l" using show_json_line [OF json_ok_hi, of pwd iter salt] by simp
  from readResponse_line [OF this, of "CHR ''+''" s]
  have "readString (greeting pwd iter salt @ s) = (RData (Some ?l), s)"
    by (simp add: readString_def greeting_json [OF assms(1)])
  moreover have "has_prefix ?l ''HI ''" by simp
  moreover have "slice_from 3 (trim_space ?l) = Ok (show_json (hi_json pwd iter salt))"
    unfolding trim_space_hi by (simp add: slice_from_def)
  ultimately show ?thesis
    using unmarshal_hi [OF assms(3), of pwd salt] any_int_nat [OF assms(3)]
    by (simp add: dial_hello_def hello_for_def client_hash_eq)
qed

section \<open>The server's decision\<close>

text \<open>The salt and the number of iterations of the next greeting.\<close>

definition next_iter :: "('s, 'm) store_scheme \<Rightarrow> nat" where
  "next_iter st = rands st (tick st) mod 4096 + 4000"

definition next_salt :: "string \<Rightarrow> ('s, 'm) store_scheme \<Rightarrow> string" where
  "next_salt pwd st = (if pwd = [] then [] else show_hex (rands st (tick st + 1) mod 2 ^ 63))"

definition next_greeting :: "string \<Rightarrow> ('s, 'm) store_scheme \<Rightarrow> string" where
  "next_greeting pwd st = greeting pwd (next_iter st) (next_salt pwd st)"

definition greeted :: "string \<Rightarrow> nat \<Rightarrow> 's server \<Rightarrow> 's server" where
  "greeted pwd no st = st\<lparr>tick := tick st + (if pwd = [] then 1 else 2),
     sent := (sent st)(no := sent st no @ next_greeting pwd st)\<rparr>"

lemma salt_plain: "list_all plain_char (next_salt pwd st) \<and> CHR 0x0A \<notin> set (next_salt pwd st)"
  using show_hex_plain by (simp add: next_salt_def)

lemma iter_small: "next_iter st < 10 ^ 15"
proof -
  have "rands st (tick st) mod 4096 < 4096" by simp
  then show ?thesis unfolding next_iter_def by simp
qed

text \<open>What the server knows when it has read the line of the client.\<close>

definition right_hash :: "(string \<Rightarrow> string) \<Rightarrow> string \<Rightarrow> 's server \<Rightarrow> ClientData \<Rightarrow> bool" where
  "right_hash sha pwd st cl \<longleftrightarrow> pwd = [] \<or>
     PasswordHash cl = hash sha pwd (next_salt pwd st) (if cVersion cl < 2 then 1 else int (next_iter st))"

definition accepted :: "nat \<Rightarrow> ClientData \<Rightarrow> 's server \<Rightarrow> 's server" where
  "accepted no cl st =
     (let st = st\<lparr>wk := snd (new_object cl (wk st))\<rparr>;
          a = length (objects (wk st)) - 1;
          st = (if cWid cl = [] \<or> cWid cl \<in> fst ` set (heartbeats (wk st)) then st
                else st\<lparr>tick := tick st + 2,
                  wk := snd (setupHeartbeat (clock st (tick st)) (clock st (tick st + 1)) a no (wk st))\<rparr>)
      in st\<lparr>sent := (sent st)(no := sent st no @ conn_Ok)\<rparr>)"

lemma setup_conn_run:
  "setup_conn a no st = (Ok (),
     if cWid (objects (wk st) ! a) \<in> fst ` set (heartbeats (wk st)) then st
     else st\<lparr>tick := tick st + 2,
       wk := snd (setupHeartbeat (clock st (tick st)) (clock st (tick st + 1)) a no (wk st))\<rparr>)"
  using map_of_eq_None_iff [of "heartbeats (wk st)" "cWid (objects (wk st) ! a)"]
  by (auto simp: setup_conn_def setup_check_def gosimps split: option.split)

lemma startConnection_line:
  assumes "read_line (peer (next_greeting pwd st)) = Some (line, rest)" "has_prefix line ''HELLO {''"
    and "clientDataFromHello (drop 5 line) = Ok cl"
  shows "startConnection sha pwd no peer st =
    (if right_hash sha pwd st cl
     then (Ok (Some (\<lparr>client_at = length (objects (wk st)), conn_no = no\<rparr>, rest)), accepted no cl (greeted pwd no st))
     else (Ok None, (greeted pwd no st)\<lparr>sent := (sent (greeted pwd no st))(no := sent (greeted pwd no st) no @
             bad_password), conn_closed := no # conn_closed st\<rparr>))"
  using assms
  by (cases "pwd = []")
     (auto simp: startConnection_def gosimps Let_def next_greeting_def next_iter_def next_salt_def greeted_def
       right_hash_def accepted_def net_write_def net_close_def new_object_def setup_conn_run nth_append)

section \<open>Client and server\<close>

definition dial_data :: "(string \<Rightarrow> string) \<Rightarrow> string \<Rightarrow> string \<Rightarrow> HelloData \<Rightarrow> 's server \<Rightarrow> HelloData" where
  "dial_data sha pwd password d st =
     (if pwd = [] then d
      else d\<lparr>hd_PasswordHash := hash sha password (next_salt pwd st) (int (next_iter st))\<rparr>)"

lemma dial_hello_next:
  "dial_hello sha password d (next_greeting pwd st @ s) = (Ok (dial_data sha pwd password d st), s)"
  unfolding next_greeting_def dial_data_def
  by (rule dial_hello_greeting) (use salt_plain [of pwd st] iter_small [of st] in simp_all)

lemma dial_peer_next:
  "dial_peer sha password d rest (next_greeting pwd st) = hello_line (dial_data sha pwd password d st) @ rest"
  using dial_hello_next [of sha password d pwd st "[]"] by (simp add: dial_peer_def)

lemma dial_result_next: "dial_result sha password d (next_greeting pwd st @ s) = fst (client_ok s)" for st :: "'s server"
  by (simp add: dial_result_def dial_hello_next)

lemma client_ok_line:
  "client_ok conn_Ok = (None, [])"
  "client_ok bad_password = (Some (RProtocolError ''ERR Invalid password''), [])"
  using read_write_response [of ROk "[]"] readResponse_line [of "''ERR Invalid password''" "CHR ''-''" "[]"]
  by (simp_all add: client_ok_def bad_password_def)

lemma accepted_client:
  assumes "wstate cl = Running"
  shows "cWid (objects (wk (accepted no cl st)) ! length (objects (wk st))) = cWid cl
    \<and> Hostname (objects (wk (accepted no cl st)) ! length (objects (wk st))) = Hostname cl
    \<and> wstate (objects (wk (accepted no cl st)) ! length (objects (wk st))) = Running
    \<and> (cWid cl \<noteq> [] \<longrightarrow> cWid cl \<in> fst ` set (heartbeats (wk (accepted no cl st))))"
proof -
  have "map_of (heartbeats (wk st)) (cWid cl) = None" if "cWid cl \<notin> fst ` set (heartbeats (wk st))"
    using that by (simp add: map_of_eq_None_iff)
  then show ?thesis
    using assms
    by (auto simp: accepted_def Let_def new_object_def setupHeartbeat_def setup_check_def setup_insert_def
        setup_init_def add_conn_def upd_object_def nth_append update_new_entry split: option.split)
qed

text \<open>
  C16: a client and a server come together exactly when they should.  The client answers the greeting of the
  server with the hash of its password for the salt and the number of iterations it finds there.  If the
  server has no password, or the two hashes agree, as they do for equal passwords, the server makes a
  connection for the client, in state running and registered under its worker id if it has one, answers OK,
  and reads the commands that follow the HELLO; \<open>dial\<close> reports success.  Otherwise the server closes the
  connection, its table of workers is untouched, and \<open>dial\<close> reports the server's error.
\<close>

theorem handshake_decides:
  assumes "hello_ok d" "2 \<le> hd_Version d"
    and "(result, st1) = startConnection sha pwd no (dial_peer sha password d rest) st"
    and "same \<longleftrightarrow> pwd = [] \<or> hash sha password (next_salt pwd st) (int (next_iter st)) =
                          hash sha pwd (next_salt pwd st) (int (next_iter st))"
  shows "(pwd = password \<longrightarrow> same)
    \<and> (same \<longrightarrow> (\<exists>c. result = Ok (Some (c, rest)) \<and> conn_no c = no
          \<and> cWid (objects (wk st1) ! client_at c) = hd_Wid d
          \<and> Hostname (objects (wk st1) ! client_at c) = hd_Hostname d
          \<and> wstate (objects (wk st1) ! client_at c) = Running
          \<and> (hd_Wid d \<noteq> [] \<longrightarrow> hd_Wid d \<in> fst ` set (heartbeats (wk st1))))
        \<and> sent st1 no = sent st no @ next_greeting pwd st @ conn_Ok
        \<and> dial_result sha password d (next_greeting pwd st @ conn_Ok) = None)
    \<and> (\<not> same \<longrightarrow> result = Ok None \<and> wk st1 = wk st \<and> no \<in> set (conn_closed st1)
        \<and> sent st1 no = sent st no @ next_greeting pwd st @ bad_password
        \<and> dial_result sha password d (next_greeting pwd st @ bad_password) =
            Some (RProtocolError ''ERR Invalid password''))"
proof -
  let ?d = "dial_data sha pwd password d st"
  let ?cl = "hello_client ?d"
  have ok: "hello_ok ?d" using assms(1) by (simp add: dial_data_def hello_ok_def)
  have rh: "right_hash sha pwd st ?cl \<longleftrightarrow> same"
    using assms(2,4) by (auto simp: right_hash_def hello_client_def dial_data_def)
  have cl: "wstate ?cl = Running" "cWid ?cl = hd_Wid d" "Hostname ?cl = hd_Hostname d"
    by (simp_all add: hello_client_def dial_data_def zero_client_def)
  note hl = hello_line_read [OF ok]
  have run: "startConnection sha pwd no (dial_peer sha password d rest) st =
    (if same
     then (Ok (Some (\<lparr>client_at = length (objects (wk st)), conn_no = no\<rparr>, rest)), accepted no ?cl (greeted pwd no st))
     else (Ok None, (greeted pwd no st)\<lparr>sent := (sent (greeted pwd no st))(no := sent (greeted pwd no st) no @
             bad_password), conn_closed := no # conn_closed st\<rparr>))"
    using startConnection_line [of "dial_peer sha password d rest" pwd st "hello_line ?d" rest ?cl sha no]
      hl dial_peer_next [of sha password d rest pwd st] rh by simp
  have sent_ok: "sent (accepted no ?cl (greeted pwd no st)) no = sent st no @ next_greeting pwd st @ conn_Ok"
    by (simp add: accepted_def Let_def greeted_def)
  have wk_eq: "wk (greeted pwd no st) = wk st" by (simp add: greeted_def)
  show ?thesis
  proof (cases same)
    case True
    with run assms(3) show ?thesis
      using accepted_client [OF cl(1), of no "greeted pwd no st"] cl sent_ok
      by (simp add: wk_eq dial_result_next client_ok_line)
  next
    case False
    then have "pwd \<noteq> password" using assms(4) by auto
    with False run assms(3) show ?thesis
      by (simp add: wk_eq dial_result_next client_ok_line greeted_def)
  qed
qed

text \<open>
  C15: nobody gets in without the hash: with a password set, whatever the other end sends, the server keeps the
  connection only if the first line is a HELLO whose hash is that of the password with the salt of this very
  greeting, iterated as often as the greeting says (once for clients of the old protocol); otherwise no worker
  is registered, and the connection is closed unless the goroutine panics.
\<close>

theorem no_entry_without_hash:
  assumes "pwd \<noteq> []" "(result, st1) = startConnection sha pwd no peer st"
  shows "(\<exists>c rest line cl. result = Ok (Some (c, rest)) \<and> read_line (peer (next_greeting pwd st)) = Some (line, rest)
        \<and> has_prefix line ''HELLO {'' \<and> clientDataFromHello (drop 5 line) = Ok cl
        \<and> PasswordHash cl = hash sha pwd (next_salt pwd st) (if cVersion cl < 2 then 1 else int (next_iter st)))
    \<or> (wk st1 = wk st \<and> (result = Ok None \<and> no \<in> set (conn_closed st1) \<or> (\<exists>p. result = Panic p)))"
proof (cases "\<exists>line rest cl. read_line (peer (next_greeting pwd st)) = Some (line, rest) \<and> has_prefix line ''HELLO {''
    \<and> clientDataFromHello (drop 5 line) = Ok cl")
  case True
  then obtain line rest cl where l: "read_line (peer (next_greeting pwd st)) = Some (line, rest)"
    "has_prefix line ''HELLO {''" "clientDataFromHello (drop 5 line) = Ok cl" by blast
  show ?thesis
    using startConnection_line [where peer = peer and pwd = pwd and st = st, OF l, of sha no] assms l
    by (auto simp: right_hash_def greeted_def split: if_splits)
next
  case False
  then show ?thesis
    using assms
    by (auto simp: startConnection_def gosimps Let_def next_greeting_def next_iter_def next_salt_def net_write_def
        net_close_def split: option.splits gores.splits if_splits)
qed

definition sample_hello :: HelloData where
  "sample_hello = emptyClientData ''host'' 1 ''w1'' (Some [''golang''])"

theorem handshake_decides_witness:
  "\<exists>c. fst (startConnection rev ''pw'' 1 (dial_peer rev ''pw'' sample_hello []) (server_of empty_mgr newWorkers)) =
     Ok (Some (c, []))"
proof -
  let ?r = "startConnection rev ''pw'' 1 (dial_peer rev ''pw'' sample_hello []) (server_of empty_mgr newWorkers)"
  have "hello_ok sample_hello" "2 \<le> hd_Version sample_hello"
    by (simp_all add: sample_hello_def emptyClientData_def hello_ok_def int64_ok_def)
  from handshake_decides [OF this, of "fst ?r" "snd ?r" rev "''pw''" 1 "''pw''" "[]", OF _ refl]
  show ?thesis by auto
qed

theorem no_entry_without_hash_witness:
  "wk (snd (startConnection rev ''pw'' 1 (\<lambda>_. ''GET /'' @ crlf) (server_of empty_mgr newWorkers))) = newWorkers"
proof -
  let ?r = "startConnection rev ''pw'' 1 (\<lambda>_. ''GET /'' @ crlf) (server_of empty_mgr newWorkers)"
  have "read_line (''GET /'' @ crlf) = Some (''GET /'' @ crlf, [])"
    using read_line_crlf [of "''GET /''" "[]"] by simp
  then have "\<not> (\<exists>line rest. read_line (''GET /'' @ crlf) = Some (line, rest) \<and> has_prefix line ''HELLO {'')"
    by simp
  with no_entry_without_hash [of "''pw''" "fst ?r" "snd ?r" rev 1 "\<lambda>_. ''GET /'' @ crlf"
      "server_of empty_mgr newWorkers"] show ?thesis
    by auto
qed

end
