(* ===== verification/Session.thy ===== *)
theory Session
  imports Handshake
begin

text \<open>
  A whole connection: a worker process connects, pushes a job, fetches it, acknowledges it and closes the
  connection, and the goroutine of the server serves it from the greeting to the clean-up.
\<close>

section \<open>ACK and END\<close>

definition client_Close :: string where
  "client_Close = writeLine ''END'' None"

lemma plain_no_lf: "list_all plain_char s \<Longrightarrow> CHR 0x0A \<notin> set s"
proof -
  have "\<not> plain_char CHR 0x0A" by (simp add: plain_char_def quote_char_def)
  then show "list_all plain_char s \<Longrightarrow> CHR 0x0A \<notin> set s" by (auto simp: list_all_iff)
qed

lemma ack_json:
  assumes "plain_jid jid"
  shows "''{'' @ quoted_field ''jid'' jid @ ''}'' = show_json (JObj [(''jid'', JStr jid)])"
proof -
  have "quote_json jid = [CHR 0x22] @ jid @ [CHR 0x22]" "quote_json ''jid'' = [CHR 0x22] @ ''jid'' @ [CHR 0x22]"
    using assms by (simp_all add: plain_jid_def quote_json_def quote_bytes_plain quote_char_def)
  then show ?thesis by (simp add: quoted_field_def)
qed

lemma unmarshal_ack: "plain_jid jid \<Longrightarrow> unmarshal_str_map (''{'' @ quoted_field ''jid'' jid @ ''}'') = Ok [(''jid'', jid)]"
  unfolding ack_json unmarshal_str_map_def by (subst parse_show_json) simp_all

lemma held_counted [simp]: "held (counted st) jid res p t = held st jid res p t"
  by (simp add: held_def counted_def zset_of_def)

text \<open>Each request is one line for the server.\<close>

lemma push_read: "job_ok j \<Longrightarrow> read_line (client_Push j @ rest) = Some (client_Push j, rest)"
  using client_line(1) [of "''PUSH''" "marshal_job j" rest, folded client_Push_def] marshal_job_line by simp

lemma fetch_read: "queue_key q \<Longrightarrow> read_line (client_Fetch [q] @ rest) = Some (client_Fetch [q], rest)"
  using client_line(1) [OF fetch_line(1) [of "[q]"], of rest, folded client_Fetch_def] by simp

lemma ack_line: "plain_jid jid \<Longrightarrow> CHR 0x0A \<notin> set (''ACK'' @ '' '' @ ''{'' @ quoted_field ''jid'' jid @ ''}'')"
  using plain_no_lf [of jid] by (simp add: plain_jid_def quoted_field_def)

lemma ack_read: "plain_jid jid \<Longrightarrow> read_line (client_Ack jid @ rest) = Some (client_Ack jid, rest)"
  using client_line(1) [OF ack_line, of jid rest, folded client_Ack_def] by simp

lemma ack_line_run:
  assumes "redis_server rd view healthy" "healthy (rs st)" "store_ok (sview view st)"
    and "e_redis ev = rd" "e_chains ev = no_chains" "\<not> srv_closed st"
    and "plain_jid jid" "held (sview view st) jid res p t"
  shows "\<exists>st1 d. processLine ev c (client_Ack jid) st = (Ok True, st1) \<and> healthy (rs st1)
    \<and> framed (released jid p (counted (sview view st))) d \<and> sview view st1 = replied c conn_Ok d"
proof -
  let ?data = "''{'' @ quoted_field ''jid'' jid @ ''}''"
  note cl = client_line [OF ack_line [OF assms(7)], folded client_Ack_def]
  have ok: "store_ok (sview view (counted st))" using assms(3) by (simp add: sview_reply fetched_counted)
  have h: "held (sview view (counted st)) jid res p t" using assms(8) by (simp add: sview_reply)
  obtain d where d: "Acknowledge db_redis no_chains jid (sview view (counted st)) = (Ok (res_Job res), d)"
    "framed (released jid p (sview view (counted st))) d"
    using Acknowledge_held [OF h ok] by blast
  with simD [OF redis_server.Acknowledge_sim [OF assms(1) chains_sim_none], of "counted st" jid] assms(2)
  obtain s2 where s2: "Acknowledge rd no_chains jid (counted st) = (Ok (res_Job res), s2)" "sview view s2 = d" "healthy (rs s2)"
    by (cases "Acknowledge rd no_chains jid (counted st)") auto
  have "cmd_ack ev c (''ACK'' @ '' '' @ ?data) (counted st) = (Ok (), replied c conn_Ok s2)"
    using s2(1) assms(4,5) unmarshal_ack [OF assms(7)]
    by (simp add: cmd_ack_def slice_from_def answer_def gosimps conn_write_run)
  then have "processLine ev c (client_Ack jid) st = (Ok True, replied c conn_Ok s2)"
    using processLine_run [OF assms(6) cl(2)] verb_of_prefix [of "''ACK''" ?data]
    by (simp add: CommandSet_def)
  with s2 d(2) show "\<exists>st1 d. processLine ev c (client_Ack jid) st = (Ok True, st1) \<and> healthy (rs st1)
    \<and> framed (released jid p (counted (sview view st))) d \<and> sview view st1 = replied c conn_Ok d"
    by (intro exI [of _ "replied c conn_Ok s2"] exI [of _ d]) (simp add: sview_reply)
qed

definition hung_up :: "Connection \<Rightarrow> 's server \<Rightarrow> 's server" where
  "hung_up c st = (counted st)\<lparr>conn_closed := conn_no c # conn_closed st\<rparr>"

lemma end_line_run:
  assumes "\<not> srv_closed st"
  shows "processLine ev c client_Close st = (Ok False, hung_up c st)"
    and "read_line (client_Close @ rest) = Some (client_Close, rest)"
proof -
  have cl: "command_of_line client_Close = ''END''" "read_line (client_Close @ rest) = Some (client_Close, rest)"
    using command_of_writeLine [of "''END''"] by (simp_all add: client_Close_def writeLine_def)
  show "read_line (client_Close @ rest) = Some (client_Close, rest)" by (rule cl(2))
  show "processLine ev c client_Close st = (Ok False, hung_up c st)"
    using assms cl(1) verb_of_plain [of "''END''"]
    by (simp add: processLine_def gosimps Let_def CommandSet_def conn_Close_def hung_up_def counted_def)
qed

lemma lines_loop_step:
  "read_line (l @ rest) = Some (l, rest) \<Longrightarrow> processLine ev c l st = (Ok True, st1) \<Longrightarrow>
   lines_loop (Suc f) ev c (l @ rest) st = lines_loop f ev c rest st1"
  by (simp add: gosimps)

lemma lines_loop_end:
  "read_line (l @ rest) = Some (l, rest) \<Longrightarrow> processLine ev c l st = (Ok False, st1) \<Longrightarrow>
   lines_loop (Suc f) ev c (l @ rest) st = (Ok (), st1)"
  by (simp add: bindS_def retS_def)

section \<open>What the commands leave alone\<close>

lemma replied_facts [simp]:
  "wk (replied c b st) = wk st" "paused (replied c b st) = paused st" "workingMap (replied c b st) = workingMap st"
  "srv_closed (replied c b st) = srv_closed st" "clock (replied c b st) = clock st" "tick (replied c b st) = tick st"
  "sent (replied c b st) = (sent st)(conn_no c := sent st (conn_no c) @ b)"
  by (simp_all add: replied_def)

lemma replied_store [simp]:
  "queue_of k (replied c b st) = queue_of k st" "zset_of n (replied c b st) = zset_of n st"
  "store_ok (replied c b st) = store_ok st"
  by (simp_all add: replied_def queue_of_def zset_of_def store_ok_def)

lemma counted_more [simp]:
  "srv_closed (counted st) = srv_closed st" "sent (counted st) = sent st" "workingMap (counted st) = workingMap st"
  by (simp_all add: counted_def)

declare fetched_counted [simp]

lemma hung_up_facts [simp]:
  "sview v (hung_up c st) = hung_up c (sview v st)" "workingMap (hung_up c st) = workingMap st"
  "wk (hung_up c st) = wk st" "sent (hung_up c st) = sent st" "conn_closed (hung_up c st) = conn_no c # conn_closed st"
  by (cases st; simp add: hung_up_def counted_def sview_def)+

lemma hung_up_store [simp]:
  "queue_of k (hung_up c st) = queue_of k st" "zset_of n (hung_up c st) = zset_of n st"
  "store_ok (hung_up c st) = store_ok st"
  by (simp_all add: hung_up_def counted_def queue_of_def zset_of_def store_ok_def)

lemma same_env_server:
  "same_env st st' \<Longrightarrow> wk st' = wk st \<and> sent st' = sent st \<and> srv_closed st' = srv_closed st \<and> paused st' = paused st
     \<and> workingMap st' = workingMap st"
  for st st' :: "('s, 'm) server_scheme"
  by (cases st; cases st') (simp add: same_env_def)

lemma fetched_server:
  "wk (fetched wid k st) = wk st \<and> sent (fetched wid k st) = sent st \<and> srv_closed (fetched wid k st) = srv_closed st
     \<and> clock (fetched wid k st) = clock st"
  by (simp add: fetched_def Let_def put_sorted_def put_queue_def)

lemma fetched_jobs:
  assumes "queue_key k" "store_ok st"
  shows "queue_key i \<Longrightarrow> queue_of i (fetched wid k st) = (if i = k then tl (queue_of k st) else queue_of i st)"
    "n \<in> set sset_names \<Longrightarrow> n \<noteq> ''working'' \<Longrightarrow> zset_of n (fetched wid k st) = zset_of n st"
    "store_ok (fetched wid k st)"
  using assms by (simp_all add: fetched_def Let_def zset_of_ok)

lemma zrem_zset_put: "p \<notin> fst ` set z \<Longrightarrow> zrem_m p (zset_put p x z) = z"
proof -
  have "zrem_m p (zins p x z) = zrem_m p z" by (induction p x z rule: zins.induct) (auto simp: zrem_m_def)
  then show "p \<notin> fst ` set z \<Longrightarrow> zrem_m p (zset_put p x z) = z"
    by (simp add: zset_put_def zrem_m_absent)
qed

text \<open>The same jobs in all queues and sets.\<close>

definition same_jobs :: "(db, 'm) store_scheme \<Rightarrow> (db, 'm) store_scheme \<Rightarrow> bool" where
  "same_jobs d d' \<longleftrightarrow> store_ok d' \<and> (\<forall>n \<in> set sset_names. zset_of n d' = zset_of n d)
     \<and> (\<forall>k. queue_key k \<longrightarrow> queue_of k d' = queue_of k d)"

section \<open>A job through one connection\<close>

text \<open>The job as it is stored and fetched.\<close>

definition session_job :: "('s, 'm) store_scheme \<Rightarrow> Job \<Rightarrow> Job" where
  "session_job st j =
     (push_job st (norm_job j))\<lparr>EnqueuedAt := Thens (clock st (tick (push_state (norm_job j) st)))\<rparr>"

lemma norm_failure_twice: "map_option norm_failure (map_option norm_failure f) = map_option norm_failure f"
  by (cases f) (simp_all add: norm_failure_def nil_empty_def)

lemma session_job_facts:
  "norm_job (session_job st j) = session_job st j"
  "Jid (session_job st j) = Jid j" "reserve_timeout (session_job st j) = reserve_timeout j"
  "JobType (session_job st j) = JobType j" "Args (session_job st j) = Args (norm_job j)"
  "session_job (counted st) j = session_job st j" "session_job (sview v st) j = session_job st j"
  by (cases j; simp add: session_job_def push_job_def norm_job_def norm_failure_twice nil_empty_def
      reserve_timeout_def push_state_def counted_def)+

lemma session_job_ok: "job_ok j \<Longrightarrow> job_ok (session_job st j)"
  by (auto simp: session_job_def push_job_def norm_job_def job_ok_def norm_failure_def nil_empty_def failure_ok_def
      split: option.splits list.splits)

lemma push_session:
  assumes "store_ok d" "At j = []" "q = Queue (push_job d (norm_job j))" "queue_key q" "queue_of q d = []"
    and "e = pushed (norm_job j) (counted d)"
  shows "store_ok e" "queue_of q e = [marshal_job (session_job d j)]" "\<And>n. n \<in> set sset_names \<Longrightarrow> zset_of n e = zset_of n d"
    "\<And>k. queue_key k \<Longrightarrow> k \<noteq> q \<Longrightarrow> queue_of k e = queue_of k d" "wk e = wk d" "sent e = sent d"
    "srv_closed e = srv_closed d" "paused e = paused d" "clock e = clock d" "workingMap e = workingMap d"
proof -
  let ?nj = "norm_job j" and ?d = "push_state (norm_job j) (counted d)"
  have at: "At ?nj = []" "push_job (counted d) ?nj = push_job d ?nj"
    using assms(2) by (simp_all add: norm_job_def push_job_def)
  have e: "e = enqueued (push_job d ?nj) ?d"
    using at assms(6) by (simp add: pushed_def)
  have qk: "queue_key (Queue (push_job d ?nj))" using assms(3,4) by simp
  have more: "wk ?d = wk d" "sent ?d = sent d" "srv_closed ?d = srv_closed d" "paused ?d = paused d" "clock ?d = clock d"
    "workingMap ?d = workingMap d" "tick ?d = tick (push_state ?nj d)"
    by (simp_all add: push_state_def counted_def)
  have "same_env ?d e" unfolding e using qk by simp
  from same_env_server [OF this] show "wk e = wk d" "sent e = sent d" "srv_closed e = srv_closed d" "paused e = paused d"
    "workingMap e = workingMap d" using more by simp_all
  show "clock e = clock d" unfolding e using qk more by simp
  show "store_ok e" "\<And>n. n \<in> set sset_names \<Longrightarrow> zset_of n e = zset_of n d"
    "\<And>k. queue_key k \<Longrightarrow> k \<noteq> q \<Longrightarrow> queue_of k e = queue_of k d"
    unfolding e using qk assms(1,3) by simp_all
  show "queue_of q e = [marshal_job (session_job d j)]"
    unfolding e using qk assms(3,5) more by (simp add: session_job_def)
qed

text \<open>What a client must see to: the job is one the server takes, and its worker gets it.\<close>

definition workable :: "('s \<Rightarrow> db) \<Rightarrow> 's server \<Rightarrow> Job \<Rightarrow> string \<Rightarrow> bool" where
  "workable view st j q \<longleftrightarrow> store_ok (sview view st) \<and> job_ok j \<and> push_ready j \<and> At j = [] \<and> plain_jid (Jid j)
     \<and> q = Queue (push_job st (norm_job j)) \<and> queue_key q \<and> q \<notin> set (paused st) \<and> queue_of q (sview view st) = []
     \<and> (\<forall>i. time_ok (clock st i + reserve_timeout j * second))
     \<and> (\<forall>e \<in> fst ` set (zset_of ''working'' (sview view st)). \<not> 0 < str_index e (Jid j))"

lemma push_in_session:
  assumes "redis_server rd view healthy" "healthy (rs st)" "workable view st j q"
    and "e_redis ev = rd" "e_chains ev = no_chains" "\<not> srv_closed st" "x = session_job st j"
  shows "\<exists>st1. processLine ev c (client_Push j) st = (Ok True, st1) \<and> healthy (rs st1) \<and> store_ok (sview view st1)
    \<and> wk st1 = wk st \<and> srv_closed st1 = srv_closed st \<and> paused st1 = paused st \<and> clock st1 = clock st
    \<and> sent st1 = (sent st)(conn_no c := sent st (conn_no c) @ conn_Ok)
    \<and> (\<forall>n \<in> set sset_names. zset_of n (sview view st1) = zset_of n (sview view st))
    \<and> queue_of q (sview view st1) = [marshal_job x]
    \<and> (\<forall>k. queue_key k \<longrightarrow> k \<noteq> q \<longrightarrow> queue_of k (sview view st1) = queue_of k (sview view st))"
proof -
  let ?d = "sview view st"
  have w: "store_ok ?d" "job_ok j" "push_ready j" "At j = []" "q = Queue (push_job ?d (norm_job j))"
    "queue_key q" "queue_of q ?d = []"
    using assms(3) by (auto simp: workable_def)
  obtain st1 where p1: "processLine ev c (client_Push j) st = (Ok True, st1)" "healthy (rs st1)"
    "sview view st1 = replied c conn_Ok (pushed (norm_job j) (counted ?d))"
    using push_line_run(1) [OF assms(1,2) w(1) assms(4-6) w(2,3), of c] w(5,6) by auto
  define e where "e = pushed (norm_job j) (counted ?d)"
  note ps = push_session [OF w(1,4-7) e_def]
  have v1: "sview view st1 = replied c conn_Ok e" using p1(3) by (simp add: e_def)
  have "session_job ?d j = x" using assms(7) by (simp add: session_job_facts)
  moreover have "wk st1 = wk st" "srv_closed st1 = srv_closed st" "paused st1 = paused st" "clock st1 = clock st"
    "sent st1 = (sent st)(conn_no c := sent st (conn_no c) @ conn_Ok)"
    using arg_cong [OF v1, of wk] arg_cong [OF v1, of srv_closed] arg_cong [OF v1, of paused]
      arg_cong [OF v1, of clock] arg_cong [OF v1, of sent] ps(5-9) by simp_all
  ultimately show ?thesis
    using p1(1,2) ps(1-4) v1 by simp
qed

text \<open>What FETCH takes out, ACK takes off the working set.\<close>

lemma fetch_in_session:
  assumes "redis_server rd view healthy" "healthy (rs st)" "store_ok (sview view st)"
    and "e_redis ev = rd" "e_chains ev = no_chains" "e_fuel ev = Suc f" "\<not> srv_closed st"
    and "wstate (objects (wk st) ! client_at c) = Running"
    and "queue_key q" "q \<notin> set (paused st)" "queue_of q (sview view st) = marshal_job x # ys"
    and "unmarshal_job (marshal_job x) = Ok x" "plain_jid (Jid x)" "time_ok (clock st (tick st) + reserve_timeout x * second)"
    and "\<forall>e \<in> fst ` set (zset_of ''working'' (sview view st)). \<not> 0 < str_index e (Jid x)"
  shows "\<exists>st2 res p t. processLine ev c (client_Fetch [q]) st = (Ok True, st2) \<and> healthy (rs st2) \<and> store_ok (sview view st2)
    \<and> wk st2 = wk st \<and> srv_closed st2 = srv_closed st
    \<and> sent st2 = (sent st)(conn_no c := sent st (conn_no c) @ conn_Result (Some (marshal_job x)))
    \<and> held (sview view st2) (Jid x) res p t
    \<and> (\<forall>n \<in> set sset_names. zset_of n (released (Jid x) p (sview view st2)) = zset_of n (sview view st))
    \<and> (\<forall>k. queue_key k \<longrightarrow> queue_of k (sview view st2) = (if k = q then ys else queue_of k (sview view st)))"
proof -
  let ?d = "counted (sview view st)" and ?wid = "cWid (objects (wk st) ! client_at c)"
  have "first_ready (filter (\<lambda>q. q \<notin> set (paused st)) [q]) (sview view st) = Some q"
    using assms(10,11) by (simp add: first_ready_def)
  then obtain st2 where p2: "processLine ev c (client_Fetch [q]) st = (Ok True, st2)" "healthy (rs st2)"
    "sview view st2 = replied c (conn_Result (Some (marshal_job x))) (fetched ?wid q ?d)"
    using fetch_line_run(1) [OF assms(1-8), of "[q]" q x] assms(9,11,12,14) by auto
  define g where "g = fetched ?wid q ?d"
  have v: "sview view st2 = replied c (conn_Result (Some (marshal_job x))) g" using p2(3) by (simp add: g_def)
  let ?ex = "clock ?d (tick ?d) + reserve_timeout x * second"
  have noj: "\<forall>e \<in> set (at_score (time_f ?ex) (zset_of ''working'' ?d)). \<not> 0 < str_index e (Jid x)"
    using assms(15) by (auto simp: set_at_score)
  have jx: "x = job_of (hd (queue_of q ?d))" "time_ok ?ex" using assms(11,12,14) by (simp_all add: job_of_def)
  obtain res p where h: "held g (Jid x) res p ?ex" "0 < str_index p (Jid x)"
    "zset_of ''working'' g = zset_put p (time_f ?ex) (zset_of ''working'' ?d)"
    using fetched_reservation [of ?d, OF _ assms(9) jx(1) assms(13) refl jx(2) noj, of ?wid] assms(3)
    unfolding g_def by auto
  have "p \<notin> fst ` set (zset_of ''working'' (sview view st))" using assms(15) h(2) by auto
  then have "zrem_m p (zset_of ''working'' g) = zset_of ''working'' (sview view st)"
    using h(3) by (simp add: zrem_zset_put)
  then have jobs: "\<forall>n \<in> set sset_names. zset_of n (released (Jid x) p (sview view st2)) = zset_of n (sview view st)"
    "\<forall>k. queue_key k \<longrightarrow> queue_of k (sview view st2) = (if k = q then ys else queue_of k (sview view st))"
    "store_ok (sview view st2)" "held (sview view st2) (Jid x) res p ?ex"
    using fetched_jobs [OF assms(9), where st = ?d and wid = ?wid] assms(3,11) h(1) by (auto simp: v g_def held_def)
  have "wk g = wk st" "sent g = sent st" "srv_closed g = srv_closed st"
    using fetched_server [of ?wid q ?d] by (simp_all add: g_def)
  then have "wk st2 = wk st" "srv_closed st2 = srv_closed st"
    "sent st2 = (sent st)(conn_no c := sent st (conn_no c) @ conn_Result (Some (marshal_job x)))"
    using arg_cong [OF v, of wk] arg_cong [OF v, of srv_closed] arg_cong [OF v, of sent] by simp_all
  with p2(1,2) jobs show ?thesis by blast
qed

lemma push_fetch:
  assumes "redis_server rd view healthy" "healthy (rs st)" "workable view st j q"
    and "e_redis ev = rd" "e_chains ev = no_chains" "e_fuel ev = Suc f" "\<not> srv_closed st"
    and "wstate (objects (wk st) ! client_at c) = Running" "x = session_job st j"
  shows "\<exists>st1 st2 res p t. processLine ev c (client_Push j) st = (Ok True, st1)
    \<and> processLine ev c (client_Fetch [q]) st1 = (Ok True, st2) \<and> healthy (rs st2) \<and> \<not> srv_closed st2
    \<and> held (sview view st2) (Jid j) res p t \<and> store_ok (sview view st2) \<and> wk st2 = wk st
    \<and> sent st2 = (sent st)(conn_no c := sent st (conn_no c) @ conn_Ok @ conn_Result (Some (marshal_job x)))
    \<and> same_jobs (sview view st) (released (Jid j) p (sview view st2))"
proof -
  have w: "job_ok j" "plain_jid (Jid j)" "queue_key q" "q \<notin> set (paused st)" "queue_of q (sview view st) = []"
    "time_ok (clock st i + reserve_timeout j * second)"
    "\<forall>e \<in> fst ` set (zset_of ''working'' (sview view st)). \<not> 0 < str_index e (Jid j)" for i
    using assms(3) by (auto simp: workable_def)
  have x: "reserve_timeout x = reserve_timeout j" "Jid x = Jid j" "unmarshal_job (marshal_job x) = Ok x"
    using unmarshal_marshal [OF session_job_ok [OF w(1), of st]] assms(9) by (simp_all add: session_job_facts)
  obtain st1 where p1: "processLine ev c (client_Push j) st = (Ok True, st1)" "healthy (rs st1)" "store_ok (sview view st1)"
    "wk st1 = wk st" "srv_closed st1 = srv_closed st" "paused st1 = paused st" "clock st1 = clock st"
    "sent st1 = (sent st)(conn_no c := sent st (conn_no c) @ conn_Ok)"
    "\<forall>n \<in> set sset_names. zset_of n (sview view st1) = zset_of n (sview view st)"
    "queue_of q (sview view st1) = [marshal_job x]"
    "\<forall>k. queue_key k \<longrightarrow> k \<noteq> q \<longrightarrow> queue_of k (sview view st1) = queue_of k (sview view st)"
    using push_in_session [OF assms(1-5,7,9), of c] by blast
  obtain st2 res p t where p2: "processLine ev c (client_Fetch [q]) st1 = (Ok True, st2)" "healthy (rs st2)"
    "store_ok (sview view st2)" "wk st2 = wk st1" "srv_closed st2 = srv_closed st1"
    "sent st2 = (sent st1)(conn_no c := sent st1 (conn_no c) @ conn_Result (Some (marshal_job x)))"
    "held (sview view st2) (Jid x) res p t"
    "\<forall>n \<in> set sset_names. zset_of n (released (Jid x) p (sview view st2)) = zset_of n (sview view st1)"
    "\<forall>k. queue_key k \<longrightarrow> queue_of k (sview view st2) = (if k = q then [] else queue_of k (sview view st1))"
    using fetch_in_session [OF assms(1) p1(2,3) assms(4-6) _ _ w(3) _ p1(10) x(3), of c] assms(7,8) p1 w x
    by (auto simp: sset_names_def)
  have "same_jobs (sview view st) (released (Jid j) p (sview view st2))"
    using p1(9,11) p2(3,8,9) w(5) x(2) by (auto simp: same_jobs_def)
  then show ?thesis
    using p1 p2 assms(7) x(2) by (intro exI [of _ st1] exI [of _ st2] exI [of _ res] exI [of _ p] exI [of _ t]) simp
qed

lemma work_session:
  assumes "redis_server rd view healthy" "healthy (rs st)" "workable view st j q"
    and "e_redis ev = rd" "e_chains ev = no_chains" "e_fuel ev = Suc f" "\<not> srv_closed st"
    and "wstate (objects (wk st) ! client_at c) = Running" "x = session_job st j"
  shows "\<exists>st3. lines_loop (Suc (Suc (Suc (Suc n)))) ev c
      (client_Push j @ client_Fetch [q] @ client_Ack (Jid j) @ client_Close @ rest) st = (Ok (), st3)
    \<and> same_jobs (sview view st) (sview view st3) \<and> map_of (workingMap st3) (Jid j) = None \<and> wk st3 = wk st
    \<and> conn_no c \<in> set (conn_closed st3)
    \<and> sent st3 (conn_no c) = sent st (conn_no c) @ conn_Ok @ conn_Result (Some (marshal_job x)) @ conn_Ok"
proof -
  obtain st1 st2 res p t where r: "processLine ev c (client_Push j) st = (Ok True, st1)"
    "processLine ev c (client_Fetch [q]) st1 = (Ok True, st2)" "healthy (rs st2)" "\<not> srv_closed st2"
    "held (sview view st2) (Jid j) res p t" "store_ok (sview view st2)" "wk st2 = wk st"
    "sent st2 = (sent st)(conn_no c := sent st (conn_no c) @ conn_Ok @ conn_Result (Some (marshal_job x)))"
    "same_jobs (sview view st) (released (Jid j) p (sview view st2))"
    using push_fetch [OF assms] by blast
  have w: "plain_jid (Jid j)" "job_ok j" "queue_key q" using assms(3) by (auto simp: workable_def)
  obtain st3 d where a: "processLine ev c (client_Ack (Jid j)) st2 = (Ok True, st3)"
    "framed (released (Jid j) p (counted (sview view st2))) d" "sview view st3 = replied c conn_Ok d"
    using ack_line_run [OF assms(1) r(3,6) assms(4,5) r(4) w(1) r(5)] by blast
  have e: "wk d = wk st" "sent d = sent st2" "\<not> srv_closed d" "workingMap d = AList.delete (Jid j) (workingMap st2)"
    using same_env_server [of "released (Jid j) p (counted (sview view st2))" d] a(2) r(4,7)
    by (auto simp: framed_def released_def put_sorted_def)
  have s3: "wk st3 = wk st" "\<not> srv_closed st3" "map_of (workingMap st3) (Jid j) = None"
    "sent st3 (conn_no c) = sent st (conn_no c) @ conn_Ok @ conn_Result (Some (marshal_job x)) @ conn_Ok"
    using arg_cong [OF a(3), of wk] arg_cong [OF a(3), of srv_closed] arg_cong [OF a(3), of workingMap]
      arg_cong [OF a(3), of sent] e r(8) by (simp_all add: delete_conv')
  have "same_jobs (sview view st) (sview view st3)"
    using r(9) a(2) w(3) unfolding a(3) by (auto simp: same_jobs_def framed_def)
  moreover have "lines_loop (Suc (Suc (Suc (Suc n)))) ev c
      (client_Push j @ client_Fetch [q] @ client_Ack (Jid j) @ client_Close @ rest) st = (Ok (), hung_up c st3)"
    using lines_loop_step [OF push_read r(1)] lines_loop_step [OF fetch_read r(2)] lines_loop_step [OF ack_read a(1)]
      lines_loop_end [OF end_line_run(2,1) [OF s3(2)]] w by simp
  ultimately show ?thesis
    using s3 by (intro exI [of _ "hung_up c st3"]) (simp add: same_jobs_def del: lines_loop.simps)
qed

section \<open>The whole connection\<close>

text \<open>What the handshake and the counter of connections change is not what the commands depend on.\<close>

definition shifted :: "nat \<Rightarrow> workers \<Rightarrow> (nat \<Rightarrow> string) \<Rightarrow> int \<Rightarrow> 's server \<Rightarrow> 's server" where
  "shifted i w b n st = st\<lparr>tick := i, wk := w, sent := b, stat_Connections := n\<rparr>"

lemma shifted_facts [simp]:
  "sview v (shifted i w b n st) = shifted i w b n (sview v st)" "rs (shifted i w b n st) = rs st"
  "workingMap (shifted i w b n st) = workingMap st" "paused (shifted i w b n st) = paused st"
  "clock (shifted i w b n st) = clock st" "srv_closed (shifted i w b n st) = srv_closed st"
  "wk (shifted i w b n st) = w" "sent (shifted i w b n st) = b" "conn_closed (shifted i w b n st) = conn_closed st"
  by (cases st; simp add: shifted_def sview_def)+

lemma shifted_store [simp]:
  "queue_of k (shifted i w b n st) = queue_of k st" "zset_of m (shifted i w b n st) = zset_of m st"
  "store_ok (shifted i w b n st) = store_ok st"
  by (simp_all add: shifted_def queue_of_def zset_of_def store_ok_def)

lemma shifted_jobs [simp]:
  "workable v (shifted i w b n st) j q = workable v st j q"
  "same_jobs (shifted i w b n e) d = same_jobs e d" "same_jobs d (shifted i w b n e) = same_jobs d e"
  by (simp_all add: workable_def same_jobs_def push_job_def)

lemma accepted_shifted:
  "\<exists>i. accepted no cl (greeted pwd no st) = shifted i (wk (accepted no cl (greeted pwd no st)))
     ((sent st)(no := sent st no @ next_greeting pwd st @ conn_Ok)) (stat_Connections st) st"
  by (cases st) (auto simp: accepted_def greeted_def shifted_def Let_def)

text \<open>A worker that was not known and disconnects is not known.\<close>

lemma hello_inserts:
  assumes "cWid cl \<notin> fst ` set (heartbeats w)"
  shows "\<exists>x. snd (setupHeartbeat now1 now2 (length (objects w)) no (snd (new_object cl w))) =
      \<lparr>objects = objects w @ [x], heartbeats = heartbeats w @ [(cWid cl, length (objects w))]\<rparr>
    \<and> cWid x = cWid cl \<and> connections x = Some [no]"
  using assms
  by (intro exI [of _ "add_conn no (setup_init now1 now2 cl)"], cases w)
     (simp add: setupHeartbeat_def setup_check_def setup_insert_def new_object_def upd_object_def setup_init_def
       add_conn_def map_of_eq_None_iff [THEN iffD2] update_new_entry)

lemma hello_removed:
  assumes "cWid cl \<notin> fst ` set (heartbeats (wk st))"
  shows "heartbeats (RemoveConnection (length (objects (wk st))) no (wk (accepted no cl st))) = heartbeats (wk st)"
proof (cases "cWid cl = []")
  case True
  with assms show ?thesis
    by (simp add: accepted_def new_object_def RemoveConnection_def map_of_eq_None_iff [THEN iffD2])
next
  case False
  let ?n = "length (objects (wk st))"
  obtain x where x: "wk (accepted no cl st) = \<lparr>objects = objects (wk st) @ [x],
      heartbeats = heartbeats (wk st) @ [(cWid cl, ?n)]\<rparr>" "cWid x = cWid cl" "connections x = Some [no]"
    using hello_inserts [OF assms, of "clock st (tick st)" "clock st (tick st + 1)" no] False assms
    by (auto simp: accepted_def Let_def) (auto simp: new_object_def)
  have "map_of (heartbeats (wk st)) (cWid cl) = None" using assms by (simp add: map_of_eq_None_iff)
  moreover have "AList.delete k (xs @ [(k, n)]) = xs" if "k \<notin> fst ` set xs" for k n and xs :: "(string \<times> nat) list"
    using that by (induction xs) auto
  ultimately show ?thesis
    using assms x(2,3) unfolding x(1)
    by (simp add: RemoveConnection_def Let_def upd_object_def del_conn_def map_add_def)
qed

lemma dial_accepted:
  assumes "hello_ok d" "2 \<le> hd_Version d" "hd_Wid d \<notin> fst ` set (heartbeats (wk st))"
  shows "\<exists>a i. startConnection sha pwd no (dial_peer sha pwd d req) st =
      (Ok (Some (\<lparr>client_at = length (objects (wk st)), conn_no = no\<rparr>, req)), a)
    \<and> a\<lparr>stat_Connections := u64 (stat_Connections a + 1)\<rparr> = shifted i (wk a)
        ((sent st)(no := sent st no @ next_greeting pwd st @ conn_Ok)) (u64 (stat_Connections st + 1)) st
    \<and> wstate (objects (wk a) ! length (objects (wk st))) = Running
    \<and> heartbeats (RemoveConnection (length (objects (wk st))) no (wk a)) = heartbeats (wk st)"
proof -
  let ?cl = "hello_client (dial_data sha pwd pwd d st)" and ?g = "greeted pwd no st"
  have ok: "hello_ok (dial_data sha pwd pwd d st)" using assms(1) by (simp add: dial_data_def hello_ok_def)
  have cl: "wstate ?cl = Running" "cWid ?cl = hd_Wid d" "right_hash sha pwd st ?cl"
    using assms(2) by (auto simp: hello_client_def dial_data_def zero_client_def right_hash_def)
  have start: "startConnection sha pwd no (dial_peer sha pwd d req) st =
      (Ok (Some (\<lparr>client_at = length (objects (wk st)), conn_no = no\<rparr>, req)), accepted no ?cl ?g)"
    using startConnection_line [of "dial_peer sha pwd d req" pwd st _ req ?cl sha no] hello_line_read [OF ok]
      dial_peer_next [of sha pwd d req pwd st] cl(3) by simp
  define a where "a = accepted no ?cl ?g"
  obtain i where a: "a = shifted i (wk a) ((sent st)(no := sent st no @ next_greeting pwd st @ conn_Ok))
      (stat_Connections st) st"
    using accepted_shifted unfolding a_def by blast
  have "a\<lparr>stat_Connections := u64 (stat_Connections a + 1)\<rparr> = shifted i (wk a)
      ((sent st)(no := sent st no @ next_greeting pwd st @ conn_Ok)) (u64 (stat_Connections st + 1)) st"
    by (subst (1 2) a) (simp add: shifted_def)
  with start show ?thesis
    using accepted_client [OF cl(1), of no ?g] hello_removed [of ?cl ?g no] assms(3) cl(2)
    unfolding a_def by (auto simp: greeted_def)
qed

lemma serve_accepted:
  assumes "startConnection sha pwd no peer st = (Ok (Some (c, req)), a)"
    and "lines_loop fuel ev c req (a\<lparr>stat_Connections := u64 (stat_Connections a + 1)\<rparr>) = (Ok (), s)"
  shows "serve fuel ev sha pwd no peer st = (Ok (), shifted (tick s) (RemoveConnection (client_at c) (conn_no c) (wk s))
    (sent s) (u64 (stat_Connections s - 1)) s)"
  using assms
  by (cases s) (simp add: serve_def processLines_def cleanupConnection_def gosimps shifted_def del: lines_loop.simps)


definition still_mgr :: "db mgr" where
  "still_mgr = empty_mgr\<lparr>clock := (\<lambda>_. sample_clock 0)\<rparr>"

lemma still_workable: "workable (\<lambda>d. d) (server_of still_mgr newWorkers) sample_job ''default''"
proof -
  have t: "time_ok (sample_clock 0 + reserve_timeout sample_job * second)"
    by (simp add: time_ok_def sample_clock_def reserve_timeout_def DefaultTimeout_def Let_def sample_job_def SetCustom_def
        zero_job_def)
  have "store_ok still_mgr" "zset_of n still_mgr = []" "queue_of k still_mgr = []" "paused still_mgr = []"
    "clock still_mgr = (\<lambda>_. sample_clock 0)" for n k
    using empty_mgr_ok empty_mgr_of by (simp_all add: still_mgr_def store_ok_def zset_of_def queue_of_def empty_mgr_def)
  with t show ?thesis
    using sample_job_ok sample_facts(3) queue_key_default
    by (simp add: workable_def)
       (simp add: sample_job_def SetCustom_def zero_job_def push_ready_def push_job_def norm_job_def)
qed


end
