(* ===== verification/PauseFacts.thy ===== *)
theory PauseFacts
  imports ManagerFacts
begin

text \<open>
  Pausing and resuming queues (\<open>Pause\<close>, \<open>Resume\<close> of \<open>manager/fetch.go\<close>): the manager's list of paused
  queues and the set in Redis stay the same set, and a paused queue is not fetched from.
\<close>

section \<open>An abstract machine of paused queues\<close>

datatype pause_op = PauseOp string | ResumeOp string

fun op_queue :: "pause_op \<Rightarrow> string" where
  "op_queue (PauseOp q) = q"
| "op_queue (ResumeOp q) = q"

text \<open>What an administrator expects of an operation.\<close>

fun pause_spec :: "pause_op \<Rightarrow> string set \<Rightarrow> string set" where
  "pause_spec (PauseOp q) s = insert q s"
| "pause_spec (ResumeOp q) s = s - {q}"

fun pause_run :: "'s redis \<Rightarrow> pause_op \<Rightarrow> (('s, 'm) mgr_scheme, unit) gofun" where
  "pause_run rd (PauseOp q) = mgr_Pause rd q"
| "pause_run rd (ResumeOp q) = mgr_Resume rd q"

fun pause_seq :: "'s redis \<Rightarrow> pause_op list \<Rightarrow> (('s, 'm) mgr_scheme, unit) gofun" where
  "pause_seq rd [] = retS ()"
| "pause_seq rd (a # as) = bindS (pause_run rd a) (\<lambda>_. pause_seq rd as)"

text \<open>The list in memory has no duplicates and is the set in Redis.\<close>

definition pause_sync :: "(db, 'm) mgr_scheme \<Rightarrow> bool" where
  "pause_sync w \<longleftrightarrow> distinct (paused w) \<and> get_set ''paused'' (rs w) = Ok (set (paused w))"

section \<open>Refinement\<close>

lemma get_set_add_queue:
  "get_set ''paused'' (rs (add_queue k st)) = get_set ''paused'' (rs st)"
  by (simp add: add_queue_def)

lemma paused_add_queue [simp]: "paused (add_queue k st) = paused st"
  by (simp add: add_queue_def)

lemma store_ok_paused:
  assumes "store_ok st"
  shows "store_ok (st\<lparr>rs := put_set ''paused'' s (rs st), paused := p\<rparr>)"
proof -
  have "is_ok (get_list j (put_set ''paused'' s (rs st)))" if "queue_key j" for j
  proof -
    have "j \<noteq> ''paused''" using that by auto
    with assms that show ?thesis by (simp add: store_ok_def db_typed_def)
  qed
  moreover have "is_ok (get_zset n (put_set ''paused'' s (rs st)))" if "n \<in> set sset_names" for n
    using assms that sset_not_special [OF that] by (simp add: store_ok_def db_typed_def)
  ultimately show ?thesis
    using assms by (auto simp: store_ok_def db_typed_def queue_names_def)
qed

lemma pause_step:
  assumes "store_ok st" "pause_sync st" "queue_key (op_queue a)"
  shows "\<exists>st'. pause_run db_redis a st = (Ok (), st') \<and> store_ok st' \<and> pause_sync st'
    \<and> set (paused st') = pause_spec a (set (paused st)) \<and> mgr.more st' = mgr.more st"
proof -
  obtain q where q: "qname q = op_queue a" "GetQueue db_redis (op_queue a) st = (Ok q, add_queue (op_queue a) st)"
    using GetQueue_ok [OF assms(1,3)] by blast
  have s: "get_set ''paused'' (rs (add_queue (op_queue a) st)) = Ok (set (paused st))"
    using assms(2) by (simp add: get_set_add_queue pause_sync_def)
  have ok: "store_ok (add_queue (op_queue a) st)" using assms(1,3) by simp
  show ?thesis
    using q s assms(2) store_ok_paused [OF ok]
    by (cases a) (auto simp: mgr_Pause_def mgr_Resume_def queue_Pause_def queue_Resume_def gosimps void_def
        filter_queues_eq pause_sync_def add_queue_def)
qed

lemma pause_seq_run:
  "store_ok st \<Longrightarrow> pause_sync st \<Longrightarrow> \<forall>a \<in> set as. queue_key (op_queue a) \<Longrightarrow>
   \<exists>st'. pause_seq db_redis as st = (Ok (), st') \<and> store_ok st' \<and> pause_sync st'
     \<and> set (paused st') = fold pause_spec as (set (paused st)) \<and> mgr.more st' = mgr.more st"
proof (induction as arbitrary: st)
  case (Cons a as)
  then obtain s1 where s1: "pause_run db_redis a st = (Ok (), s1)" "store_ok s1" "pause_sync s1"
    "set (paused s1) = pause_spec a (set (paused st))" "mgr.more s1 = mgr.more st"
    using pause_step [of st a] by auto
  then obtain s2 where "pause_seq db_redis as s1 = (Ok (), s2)" "store_ok s2" "pause_sync s2"
    "set (paused s2) = fold pause_spec as (set (paused s1))" "mgr.more s2 = mgr.more s1"
    using Cons.IH [of s1] Cons.prems(3) by auto
  with s1 show ?case by (simp add: bindS_def)
qed (simp add: retS_def)

context redis_server
begin

lemma pause_seq_sim: "simS (pause_seq rd as) (pause_seq db_redis as)"
proof (induction as)
  case (Cons a as)
  have "simS (pause_run rd a) (pause_run db_redis a)"
    by (cases a) (simp_all add: pause_sims)
  with Cons show ?case by (auto intro: sims)
qed (simp add: sims)

end

text \<open>
  C21: pausing and resuming refine an abstract set: after any sequence of operations the list in the
  manager's memory and the set in Redis are both the set one gets by inserting the paused names and
  removing the resumed ones, and no operation fails.
\<close>

theorem pause_refines_set:
  assumes "redis_server rd view healthy" "healthy (rs st)" "store_ok (sview view st)" "pause_sync (sview view st)"
    and "\<forall>a \<in> set as. queue_key (op_queue a)" "st1 = snd (pause_seq rd as st)"
  shows "fst (pause_seq rd as st) = Ok () \<and> pause_sync (sview view st1)
    \<and> set (paused st1) = fold pause_spec as (set (paused st))"
proof -
  obtain s where s: "pause_seq db_redis as (sview view st) = (Ok (), s)" "pause_sync s"
    "set (paused s) = fold pause_spec as (set (paused st))"
    using pause_seq_run [OF assms(3-5)] by auto
  have v: "fst (pause_seq rd as st) = Ok ()" "sview view st1 = s"
    using simD [OF redis_server.pause_seq_sim [OF assms(1)] assms(2), of as] s(1) assms(6) by simp_all
  have "paused s = paused st1" using v(2) by (metis sview_mgr(2))
  with v s show ?thesis by simp
qed

lemma queue_key_x: "queue_key ''x''"
  by (simp add: queue_key_def reserved_key_def sset_names_def valid_queue_name_def queue_char_def Let_def is_digit_def)

theorem pause_refines_set_witness:
  "fst (pause_seq db_redis [PauseOp ''default'', PauseOp ''x'', ResumeOp ''default''] empty_mgr) = Ok ()
   \<and> set (paused (snd (pause_seq db_redis [PauseOp ''default'', PauseOp ''x'', ResumeOp ''default''] empty_mgr))) = {''x''}"
proof -
  have "pause_sync empty_mgr"
    by (simp add: pause_sync_def empty_mgr_def get_set_def)
  moreover have p: "paused empty_mgr = []" by (simp add: empty_mgr_def)
  ultimately show ?thesis
    using pause_refines_set [OF dbr.redis_server_axioms, of empty_mgr
        "[PauseOp ''default'', PauseOp ''x'', ResumeOp ''default'']", OF _ _ _ _ refl]
      empty_mgr_ok queue_key_default queue_key_x p
    by (simp add: insert_Diff_if del: pause_seq.simps)
qed

text \<open>
  While all the queues a worker asks for are paused, \<open>Fetch\<close> gives no job and touches nothing: it does
  not even ask Redis.
\<close>

theorem paused_queues_not_fetched:
  assumes "queues \<noteq> []" "set queues \<subseteq> set (paused st)"
  shows "Fetch (Suc f) rd ch wid queues st = (Ok None, st)"
proof -
  have "filter_queues (paused st) queues = []"
    using assms(2) by (auto simp: filter_queues_eq filter_empty_conv)
  with assms(1) show ?thesis by (simp add: gosimps)
qed

theorem paused_queues_not_fetched_witness:
  "Fetch 1 db_redis no_chains ''w1'' [''default''] (empty_mgr\<lparr>paused := [''x'', ''default'']\<rparr>) =
     (Ok None, empty_mgr\<lparr>paused := [''x'', ''default'']\<rparr>)"
  using paused_queues_not_fetched [of "[''default'']" "empty_mgr\<lparr>paused := [''x'', ''default'']\<rparr>" 0 db_redis no_chains "''w1''"]
  by simp

end
