(* ===== verification/ClientCalls.thy ===== *)
theory ClientCalls
  imports Session RetryFacts PauseFacts
begin

text \<open>
  The other requests of \<open>client/client.go\<close> and those of \<open>client/mutate.go\<close>, and what the server makes of
  them.  \<open>json.Marshal\<close> writes the entries of a map in the order of their keys.
\<close>

section \<open>Requests\<close>

text \<open>The backtrace is the text of \<open>debug.Stack\<close>, whose first three lines are cut off without looking.\<close>

definition fail_json :: "string \<Rightarrow> string \<Rightarrow> string option \<Rightarrow> json gores" where
  "fail_json jid msg backtrace =
     (let fields = [(''errtype'', JStr ''unknown''), (''jid'', JStr jid), (''message'', JStr msg)] in
      case backtrace of
        None \<Rightarrow> Ok (JObj fields)
      | Some str \<Rightarrow>
          (let bt = split_on CHR 0x0A str in
           if 3 \<le> length bt then Ok (JObj ((''backtrace'', JArr (map JStr (drop 3 bt))) # fields))
           else Panic ''runtime error: slice bounds out of range''))"

definition client_Fail :: "string \<Rightarrow> string \<Rightarrow> string option \<Rightarrow> string gores" where
  "client_Fail jid msg backtrace =
     (case fail_json jid msg backtrace of
        Ok v \<Rightarrow> Ok (writeLine ''FAIL'' (Some (show_json v))) | Err e \<Rightarrow> Err e | Panic p \<Rightarrow> Panic p)"

definition client_Flush :: string where
  "client_Flush = writeLine ''FLUSH'' None"

definition PauseQueues :: "string list \<Rightarrow> string" where
  "PauseQueues names = writeLine ''QUEUE PAUSE'' (Some (join_with '' '' names))"

definition ResumeQueues :: "string list \<Rightarrow> string" where
  "ResumeQueues names = writeLine ''QUEUE RESUME'' (Some (join_with '' '' names))"

definition client_Info :: string where
  "client_Info = writeLine ''INFO'' None"

definition info_response :: "string \<Rightarrow> (string \<times> json) list option gores \<times> string" where
  "info_response s =
     (case readResponse s of
        (RData (Some (c # cs)), r) \<Rightarrow> (unmarshal_map (c # cs), r)
      | (RData _, r) \<Rightarrow> (Ok None, r)
      | (RProtocolError m, r) \<Rightarrow> (Err (GErr m), r)
      | (RFail m, r) \<Rightarrow> (Err (GErr m), r)
      | (RPanic p, r) \<Rightarrow> (Panic p, r))"

text \<open>A request and the text of its answer.\<close>

definition Generic :: "string \<Rightarrow> string" where
  "Generic cmdline = writeLine cmdline None"

definition generic_response :: "string \<Rightarrow> string gores \<times> string" where
  "generic_response s =
     (case readString s of
        (RData v, r) \<Rightarrow> (Ok (case v of None \<Rightarrow> [] | Some x \<Rightarrow> x), r)
      | (RProtocolError m, r) \<Rightarrow> (Err (GErr m), r)
      | (RFail m, r) \<Rightarrow> (Err (GErr m), r)
      | (RPanic p, r) \<Rightarrow> (Panic p, r))"

definition beat_json :: "string \<Rightarrow> int \<Rightarrow> string \<Rightarrow> json" where
  "beat_json wid rss state = JObj (opt_str ''current_state'' state @ [(''rss_kb'', json_int rss), (''wid'', JStr wid)])"

definition client_Beat :: "string \<Rightarrow> int \<Rightarrow> string \<Rightarrow> string" where
  "client_Beat wid rss state = Generic (''BEAT '' @ show_json (beat_json wid rss state))"

definition beat_response :: "string \<Rightarrow> string gores \<times> string" where
  "beat_response s =
     (case generic_response s of
        (Ok val, r) \<Rightarrow> (if val = ''OK'' then (Ok [], r) else (Ok val, r))
      | x \<Rightarrow> x)"

section \<open>Operations on the sorted sets\<close>

definition WithJids :: "string list \<Rightarrow> JobFilter \<Rightarrow> JobFilter" where
  "WithJids jids jf = jf\<lparr>Jids := Some jids\<rparr>"

definition Matching :: "string \<Rightarrow> JobFilter \<Rightarrow> JobFilter" where
  "Matching pattern jf = jf\<lparr>Regexp := pattern\<rparr>"

definition OfType :: "string \<Rightarrow> JobFilter \<Rightarrow> JobFilter" where
  "OfType jobtype jf = jf\<lparr>Jobtype := jobtype\<rparr>"

definition encode_filter :: "JobFilter \<Rightarrow> json" where
  "encode_filter jf = JObj
     ((case Jids jf of Some (j # js) \<Rightarrow> [(''jids'', JArr (map JStr (j # js)))] | _ \<Rightarrow> [])
      @ opt_str ''regexp'' (Regexp jf) @ opt_str ''jobtype'' (Jobtype jf))"

definition encode_operation :: "Operation \<Rightarrow> json" where
  "encode_operation op = JObj
     ([(''cmd'', JStr (op_Cmd op)), (''target'', JStr (op_Target op))]
      @ (case op_Filter op of None \<Rightarrow> [] | Some jf \<Rightarrow> [(''filter'', encode_filter jf)]))"

definition client_mutate :: "Operation \<Rightarrow> string" where
  "client_mutate op = writeLine ''MUTATE'' (Some (show_json (encode_operation op)))"

definition Kill :: "string \<Rightarrow> JobFilter \<Rightarrow> string" where
  "Kill name jf = client_mutate \<lparr>op_Cmd = ''kill'', op_Target = name, op_Filter = Some jf\<rparr>"

definition Requeue :: "string \<Rightarrow> JobFilter \<Rightarrow> string" where
  "Requeue name jf = client_mutate \<lparr>op_Cmd = ''requeue'', op_Target = name, op_Filter = Some jf\<rparr>"

definition client_Discard :: "string \<Rightarrow> JobFilter \<Rightarrow> string" where
  "client_Discard name jf = client_mutate \<lparr>op_Cmd = ''discard'', op_Target = name, op_Filter = Some jf\<rparr>"

definition client_Clear :: "string \<Rightarrow> string" where
  "client_Clear name = client_mutate \<lparr>op_Cmd = ''clear'', op_Target = name, op_Filter = None\<rparr>"

section \<open>JSON of the requests\<close>

text \<open>The payload the server gets.\<close>

definition fail_payload :: "string \<Rightarrow> string \<Rightarrow> string option \<Rightarrow> FailPayload" where
  "fail_payload jid msg backtrace = \<lparr>fail_Jid = jid, fail_message = msg, fail_type = ''unknown'',
     fail_backtrace = map_option (\<lambda>str. drop 3 (split_on CHR 0x0A str)) backtrace\<rparr>"

lemma dec_strings: "dec_slice dec_str [] t (JArr (map JStr l)) old = Ok (Some l)"
  using dec_labels [of t "Some l" old] by simp

lemma decode_fail:
  assumes "fail_json jid msg bt = Ok v"
  shows "json_ok v" "dec_struct t fail_fields v zero_fail = Ok (fail_payload jid msg bt)"
  using assms
  by (auto simp: fail_json_def Let_def dec_struct_def zero_fail_def dec_one fail_fields_def fail_payload_def dec_strings
      list_all_iff simp del: dec_members.simps(2) split: option.splits if_splits)

definition beat_of :: "string \<Rightarrow> int \<Rightarrow> string \<Rightarrow> ClientBeat" where
  "beat_of wid rss state = \<lparr>CurrentState = state, beat_Wid = wid, beat_RssKb = rss\<rparr>"

lemma decode_beat:
  "json_ok (beat_json wid rss state)"
  "int64_ok rss \<Longrightarrow> dec_struct t beat_fields (beat_json wid rss state) zero_beat = Ok (beat_of wid rss state)"
  by (auto simp: beat_json_def dec_struct_def zero_beat_def dec_one dec_opt beat_fields_def beat_of_def opt_str_def list_all_iff
      simp del: dec_members.simps(2))

text \<open>An empty list of ids is not sent.\<close>

definition norm_filter :: "JobFilter \<Rightarrow> JobFilter" where
  "norm_filter jf = jf\<lparr>Jids := nil_empty (Jids jf)\<rparr>"

definition norm_operation :: "Operation \<Rightarrow> Operation" where
  "norm_operation op = op\<lparr>op_Filter := map_option norm_filter (op_Filter op)\<rparr>"

lemma decode_filter: "dec_struct t filter_fields (encode_filter jf) zero_filter = Ok (norm_filter jf)"
  by (cases jf)
     (auto simp: dec_struct_def encode_filter_def zero_filter_def dec_one dec_opt filter_fields_def norm_filter_def
       nil_empty_def dec_strings simp del: dec_members.simps(2) list.map split: option.split list.split)

lemma json_ok_filter: "json_ok (encode_filter jf)"
proof -
  have "list_all (\<lambda>(k, v). json_ok v)
      (case Jids jf of Some (j # js) \<Rightarrow> [(''jids'', JArr (map JStr (j # js)))] | _ \<Rightarrow> [])"
    by (auto simp: list_all_iff split: option.split list.split)
  then show ?thesis by (simp add: encode_filter_def)
qed

lemma decode_operation:
  "json_ok (encode_operation op)" "unmarshal_operation (show_json (encode_operation op)) = Ok (norm_operation op)"
proof -
  show ok: "json_ok (encode_operation op)"
    using json_ok_filter by (simp add: encode_operation_def split: option.split)
  have "dec_ptr t filter_fields zero_filter (encode_filter jf) None = Ok (Some (norm_filter jf))" for t jf
    using decode_filter [of t jf] by (simp add: dec_ptr_def encode_filter_def)
  then have "dec_struct t operation_fields (encode_operation op) zero_operation = Ok (norm_operation op)" for t
    by (cases op)
       (simp add: dec_struct_def encode_operation_def zero_operation_def dec_one operation_fields_def norm_operation_def
         del: dec_members.simps(2) split: option.split)
  then show "unmarshal_operation (show_json (encode_operation op)) = Ok (norm_operation op)"
    by (simp only: unmarshal_operation_def unmarshal_def parse_show_json [OF ok] option.case)
qed

section \<open>The requests in the server\<close>

lemma request_line: "json_ok v \<Longrightarrow> CHR 0x0A \<notin> set op \<Longrightarrow> CHR 0x0A \<notin> set (op @ '' '' @ show_json v)"
  using show_json_line [of v] by simp

lemma request_read:
  "json_ok v \<Longrightarrow> CHR 0x0A \<notin> set op \<Longrightarrow>
   read_line (writeLine op (Some (show_json v)) @ rest) = Some (writeLine op (Some (show_json v)), rest)"
  by (rule client_line(1)) (rule request_line)

lemma bindS_getS: "bindS (getS f) k st = k (f st) st"
  by (simp add: bindS_def getS_def)

lemma bindS_modS: "bindS (bindS (modS f) (\<lambda>_. m)) k st = bindS m k (f st)"
  by (simp add: bindS_def modS_def)

lemma request_run:
  assumes "\<not> srv_closed st" "json_ok v" "CHR '' '' \<notin> set op" "CHR 0x0A \<notin> set op" "op \<noteq> ''END''"
    and "map_of (CommandSet ev c) op = Some proc"
  shows "processLine ev c (writeLine op (Some (show_json v))) st =
    bindS (proc (op @ '' '' @ show_json v)) (\<lambda>_. retS True) (counted st)"
proof -
  have l: "command_of_line (writeLine op (Some (show_json v))) = op @ '' '' @ show_json v"
    by (rule client_line(2) [OF request_line [OF assms(2,4)]])
  have "verb_of (op @ '' '' @ show_json v) = op" by (rule verb_of_prefix [OF assms(3)])
  with assms(1,5,6) show ?thesis
    unfolding processLine_def l by (simp add: Let_def bindS_getS bindS_modS counted_def)
qed

lemma Fail_held:
  assumes "held st (fail_Jid f) res p t" "store_ok st" "clock_ok st" "fail_Jid f \<noteq> []" "res_Job res = Some j" "few_retries j"
  shows "\<exists>now w'. mgr_Fail db_redis no_chains (Some f) st = (Ok (), w')
    \<and> settled (snd (failed_job (cleanse f) now j)) (fst (failed_job (cleanse f) now j)) (released (fail_Jid f) p st) w'"
  using processFailure_held [OF assms(1-3,5,6), of "cleanse f"] assms(4) by (auto simp: mgr_Fail_def)

text \<open>
  C18: a failure that a worker reports arrives: the bytes \<open>Fail\<close> of the client writes are one line for the
  server, the manager gets the job's id, the message and the backtrace without its first three lines, and the
  job the worker holds is settled with them: its reservation goes, and the job with the record of the failure
  goes to the retries, to the dead set or, if it must not be retried, nowhere.  The answer goes to that
  connection, and the client reads it as success.
\<close>

theorem fail_over_the_wire:
  assumes "redis_server rd view healthy" "healthy (rs st)" "store_ok (sview view st)"
    and "e_redis ev = rd" "e_chains ev = no_chains" "\<not> srv_closed st"
    and "held (sview view st) jid res p t" "jid \<noteq> []" "res_Job res = Some j" "few_retries j" "clock_ok st"
    and "client_Fail jid msg bt = Ok line" "f = cleanse (fail_payload jid msg bt)"
    and "(result, st1) = processLine ev c line st"
  shows "read_line (line @ rest) = Some (line, rest) \<and> result = Ok True
    \<and> (\<exists>now w. settled (snd (failed_job f now j)) (fst (failed_job f now j)) (released jid p (counted (sview view st))) w
         \<and> sview view st1 = replied c conn_Ok w)
    \<and> client_ok conn_Ok = (None, [])"
proof -
  obtain v where v: "fail_json jid msg bt = Ok v" "line = writeLine ''FAIL'' (Some (show_json v))"
    using assms(12) by (auto simp: client_Fail_def split: gores.splits)
  note d = decode_fail [OF v(1)]
  let ?f = "fail_payload jid msg bt"
  have jid: "fail_Jid ?f = jid" by (simp add: fail_payload_def)
  obtain now w where w: "mgr_Fail db_redis no_chains (Some ?f) (sview view (counted st)) = (Ok (), w)"
    "settled (snd (failed_job f now j)) (fst (failed_job f now j)) (released jid p (counted (sview view st))) w"
    using Fail_held [of "sview view (counted st)" ?f res p t j] assms(3,7-11,13)
    by (auto simp: sview_reply jid clock_ok_def)
  with simD [OF redis_server.mgr_Fail_sim [OF assms(1) chains_sim_none], of "counted st" "Some ?f"] assms(2)
  obtain s2 where s2: "mgr_Fail rd no_chains (Some ?f) (counted st) = (Ok (), s2)" "sview view s2 = w"
    by (cases "mgr_Fail rd no_chains (Some ?f) (counted st)") auto
  have "cmd_fail ev c (''FAIL'' @ '' '' @ show_json v) (counted st) = (Ok (), replied c conn_Ok s2)"
    using s2(1) assms(4,5) d(2)
    by (simp add: cmd_fail_def slice_from_def unmarshal_def parse_show_json [OF d(1)] answer_def gosimps conn_write_run)
  then have "processLine ev c line st = (Ok True, replied c conn_Ok s2)"
    unfolding v(2) using request_run [OF assms(6) d(1), of "''FAIL''" ev c] by (simp add: CommandSet_def gosimps)
  moreover have "read_line (line @ rest) = Some (line, rest)"
    unfolding v(2) by (rule request_read [OF d(1)]) simp
  ultimately show ?thesis using w(2) s2(2) assms(14)
    by (auto simp: sview_reply client_ok_line)
qed

section \<open>BEAT\<close>

definition beat_reply :: "WorkerState \<Rightarrow> string" where
  "beat_reply state = (if state = Running then conn_Ok
     else conn_Result (Some (''{'' @ quoted_field ''state'' (stateString state) @ ''}'')))"

lemma beat_reply_read:
  "beat_response (beat_reply s) =
     (Ok (if s = Running then [] else ''{'' @ quoted_field ''state'' (stateString s) @ ''}''), [])"
  "CHR 0x0A \<notin> set wid \<Longrightarrow>
     beat_response (conn_Error (GErr (''Unknown worker '' @ wid))) = (Err (GErr (''ERR Unknown worker '' @ wid)), [])"
proof -
  let ?m = "''{'' @ quoted_field ''state'' (stateString s) @ ''}''"
  have "length (stateString s) \<le> 9" by (cases s) (simp_all add: stateString_def)
  then have "length ?m < 2 ^ 63" by (simp add: quoted_field_def)
  from readResponse_bulk [OF this, of "[]"]
  have "readResponse (conn_Result (Some ?m)) = (RData (Some ?m), [])" by simp
  moreover have "readResponse conn_Ok = (RData (Some ''OK''), [])"
    using read_write_response [of ROk "[]"] by simp
  ultimately show "beat_response (beat_reply s) = (Ok (if s = Running then [] else ?m), [])"
    by (simp add: beat_response_def generic_response_def readString_def beat_reply_def quoted_field_def)
  show "CHR 0x0A \<notin> set wid \<Longrightarrow>
     beat_response (conn_Error (GErr (''Unknown worker '' @ wid))) = (Err (GErr (''ERR Unknown worker '' @ wid)), [])"
    using readResponse_line [of "''ERR Unknown worker '' @ wid" "CHR ''-''" "[]"]
    by (simp add: beat_response_def generic_response_def readString_def conn_Error_def)
qed

text \<open>
  The heartbeat of a worker: BEAT changes the table of workers as \<open>heartbeat\<close> of \<open>server/workers.go\<close> does
  and nothing else but the clock, and \<open>Beat\<close> of the client returns the empty string while the worker should
  run, the JSON object with its new state when it should be quiet or terminate, and an error if the server
  does not know the worker.
\<close>

theorem beat_over_the_wire:
  assumes "\<not> srv_closed st" "int64_ok rss" "(result, st1) = processLine ev c (client_Beat wid rss state) st"
    and "reply = (case map_of (heartbeats (wk st)) wid of
        None \<Rightarrow> conn_Error (GErr (''Unknown worker '' @ wid))
      | Some a \<Rightarrow> beat_reply (wstate (objects (wk st1) ! a)))"
  shows "result = Ok True \<and> sent st1 = (sent st)(conn_no c := sent st (conn_no c) @ reply)
    \<and> wk st1 = snd (workers_heartbeat (clock st (tick st)) (beat_of wid rss state) (wk st))
    \<and> (case map_of (heartbeats (wk st)) wid of
        None \<Rightarrow> CHR 0x0A \<notin> set wid \<longrightarrow> beat_response reply = (Err (GErr (''ERR Unknown worker '' @ wid)), [])
      | Some a \<Rightarrow> beat_response reply = (Ok (if wstate (objects (wk st1) ! a) = Running then []
            else ''{'' @ quoted_field ''state'' (stateString (wstate (objects (wk st1) ! a))) @ ''}''), []))"
proof -
  let ?v = "beat_json wid rss state" and ?w = "wk st"
  note d = decode_beat(1) [of wid rss state] decode_beat(2) [OF assms(2), of _ wid state]
  have line: "client_Beat wid rss state = writeLine ''BEAT'' (Some (show_json ?v))"
    by (simp add: client_Beat_def Generic_def writeLine_def)
  have cmd: "cmd_heartbeat c (''BEAT'' @ '' '' @ show_json ?v) (counted st) = (Ok (),
      case map_of (heartbeats ?w) wid of
        None \<Rightarrow> replied c (conn_Error (GErr (''Unknown worker '' @ wid))) (counted st)
      | Some a \<Rightarrow>
          (let w' = snd (workers_heartbeat (clock st (tick st)) (beat_of wid rss state) ?w) in
           replied c (beat_reply (wstate (objects w' ! a))) ((counted st)\<lparr>tick := tick st + 1, wk := w'\<rparr>)))"
    using d(2) by (auto simp: cmd_heartbeat_def slice_from_def unmarshal_def parse_show_json [OF d(1)] gosimps conn_write_run
      beat_of_def beat_reply_def Let_def split: option.split)
  have "processLine ev c (client_Beat wid rss state) st = (Ok True,
      case map_of (heartbeats ?w) wid of
        None \<Rightarrow> replied c (conn_Error (GErr (''Unknown worker '' @ wid))) (counted st)
      | Some a \<Rightarrow>
          (let w' = snd (workers_heartbeat (clock st (tick st)) (beat_of wid rss state) ?w) in
           replied c (beat_reply (wstate (objects w' ! a))) ((counted st)\<lparr>tick := tick st + 1, wk := w'\<rparr>)))"
    unfolding line using cmd request_run [OF assms(1) d(1), of "''BEAT''" ev c] by (simp add: CommandSet_def gosimps)
  with assms(3,4) show ?thesis
    using beat_reply_read(2) [of wid]
    by (cases "map_of (heartbeats ?w) wid") (simp_all add: workers_heartbeat_def beat_of_def beat_reply_read(1) Let_def)
qed

section \<open>MUTATE\<close>

lemma split_on_two: "split_on d s = [w] \<longleftrightarrow> w = s \<and> d \<notin> set s"
proof
  assume h: "split_on d s = [w]"
  then have "d \<notin> set s"
    by (metis in_set_conv_decomp_first list.distinct(1) list.inject split_on_append_sep split_on_ne)
  with h show "w = s \<and> d \<notin> set s" by simp
qed simp

text \<open>
  C27: a request to change a sorted set is carried out exactly when its JSON has no space.  Then the server runs
  the operation of the client, where an empty list of ids is none; a pattern, a job type or an id with a
  space in it, as in \<open>Matching("*two words*")\<close>, is refused as an invalid format, although it is valid JSON and
  was sent by the client of the same repository.
\<close>

theorem mutate_over_the_wire:
  assumes "\<not> srv_closed st" "(result, st1) = processLine ev c (client_mutate op) st"
  shows "read_line (client_mutate op @ rest) = Some (client_mutate op, rest)
    \<and> (CHR '' '' \<notin> set (show_json (encode_operation op)) \<longrightarrow>
        (result, st1) = bindS (answer c (run_operation (e_fuel ev) (e_zscan ev) (e_redis ev) (norm_operation op)))
          (\<lambda>_. retS True) (counted st))
    \<and> (CHR '' '' \<in> set (show_json (encode_operation op)) \<longrightarrow>
        result = Ok True \<and> st1 = replied c (conn_Error (GErr ''Invalid format'')) (counted st)
        \<and> client_ok (conn_Error (GErr ''Invalid format'')) = (Some (RProtocolError ''ERR Invalid format''), []))"
proof -
  let ?v = "encode_operation op" and ?run = "answer c (run_operation (e_fuel ev) (e_zscan ev) (e_redis ev) (norm_operation op))"
  note d = decode_operation [of op]
  have sp: "split_on CHR '' '' (''MUTATE'' @ CHR '' '' # show_json ?v) = ''MUTATE'' # split_on CHR '' '' (show_json ?v)"
    by (rule split_on_append_sep) simp
  have "processLine ev c (client_mutate op) st =
      bindS (cmd_mutate ev c (''MUTATE'' @ '' '' @ show_json ?v)) (\<lambda>_. retS True) (counted st)"
    unfolding client_mutate_def by (rule request_run [OF assms(1) d(1)]) (simp_all add: CommandSet_def)
  moreover have "cmd_mutate ev c (''MUTATE'' @ '' '' @ show_json ?v) =
      (if CHR '' '' \<in> set (show_json ?v) then conn_write c (conn_Error (GErr ''Invalid format'')) else ?run)"
    using d(2) sp by (auto simp: cmd_mutate_def split_on_two split: list.split)
  moreover have "client_ok (conn_Error (GErr ''Invalid format'')) = (Some (RProtocolError ''ERR Invalid format''), [])"
    using readResponse_line [of "''ERR Invalid format''" "CHR ''-''" "[]"] by (simp add: client_ok_def conn_Error_def)
  moreover have "read_line (client_mutate op @ rest) = Some (client_mutate op, rest)"
    unfolding client_mutate_def by (rule request_read [OF d(1)]) simp
  ultimately show ?thesis
    using assms(2) by (auto simp: bindS_ok conn_write_run retS_def)
qed

section \<open>QUEUE\<close>

lemma for_idx_pause:
  "pause_seq (e_redis ev) (map PauseOp names) st = (Ok (), st') \<Longrightarrow>
   for_idx (\<lambda>_. queue_op ev ''PAUSE'') i names st = (Ok (), st')"
proof (induction names arbitrary: i st)
  case (Cons n names)
  obtain r s1 where s1: "mgr_Pause (e_redis ev) n st = (r, s1)" by fastforce
  with Cons.prems have "r = Ok ()" "pause_seq (e_redis ev) (map PauseOp names) s1 = (Ok (), st')"
    by (cases r; simp add: gosimps)+
  with Cons.IH [of s1] s1 show ?case by (simp add: queue_op_def ignore_def bindS_def)
qed simp

lemma server_more: "mgr.more st' = mgr.more st \<Longrightarrow> wk st' = wk st \<and> sent st' = sent st \<and> srv_closed st' = srv_closed st"
  for st st' :: "'s server"
  by (cases st; cases st') (simp add: mgr.defs)

lemma pause_line:
  assumes "names \<noteq> []" "\<forall>k \<in> set names. queue_key k"
  shows "CHR 0x0A \<notin> set (''QUEUE PAUSE'' @ '' '' @ join_with '' '' names)"
    "split_on CHR '' '' (''QUEUE PAUSE'' @ '' '' @ join_with '' '' names) = ''QUEUE'' # ''PAUSE'' # names"
    "verb_of (''QUEUE PAUSE'' @ '' '' @ join_with '' '' names) = ''QUEUE''"
proof -
  have q: "\<forall>k \<in> set names. CHR '' '' \<notin> set k" "\<forall>k \<in> set names. CHR 0x0A \<notin> set k"
    using assms(2) queue_key_chars by blast+
  show "CHR 0x0A \<notin> set (''QUEUE PAUSE'' @ '' '' @ join_with '' '' names)"
    using join_with_line [OF q(2), of "'' ''"] by simp
  have "split_on CHR '' '' (''QUEUE'' @ CHR '' '' # ''PAUSE'' @ CHR '' '' # join_with '' '' names) =
      ''QUEUE'' # ''PAUSE'' # split_on CHR '' '' (join_with '' '' names)"
    by (subst split_on_append_sep, simp, subst split_on_append_sep) simp_all
  moreover have "split_on CHR '' '' (join_with '' '' names) = names"
    using split_on_join [of names "CHR '' ''"] q(1) assms(1) by auto
  ultimately show "split_on CHR '' '' (''QUEUE PAUSE'' @ '' '' @ join_with '' '' names) = ''QUEUE'' # ''PAUSE'' # names"
    by simp
  show "verb_of (''QUEUE PAUSE'' @ '' '' @ join_with '' '' names) = ''QUEUE''"
    using verb_of_prefix [of "''QUEUE''" "''PAUSE'' @ '' '' @ join_with '' '' names"] by simp
qed

lemma pause_line_run:
  assumes "redis_server rd view healthy" "healthy (rs st)" "store_ok (sview view st)" "pause_sync (sview view st)"
    and "e_redis ev = rd" "\<not> srv_closed st" "names \<noteq> []" "\<forall>k \<in> set names. queue_key k"
  shows "\<exists>s. processLine ev c (PauseQueues names) st = (Ok True, replied c conn_Ok s)
    \<and> pause_sync (sview view s) \<and> set (paused s) = set (paused st) \<union> set names \<and> \<not> srv_closed s \<and> sent s = sent st"
proof -
  let ?as = "map PauseOp names" and ?cmd = "''QUEUE PAUSE'' @ '' '' @ join_with '' '' names" and ?d = "sview view (counted st)"
  note l = pause_line [OF assms(7,8)]
  have "store_ok ?d" "pause_sync ?d" "\<forall>a \<in> set ?as. queue_key (op_queue a)"
    using assms(3,4,8) by (auto simp: sview_reply pause_sync_def)
  from pause_seq_run [OF this] obtain d where d: "pause_seq db_redis ?as ?d = (Ok (), d)" "pause_sync d"
    "set (paused d) = fold pause_spec ?as (set (paused st))" "mgr.more d = mgr.more ?d"
    by (auto simp: sview_reply)
  obtain s where s: "pause_seq rd ?as (counted st) = (Ok (), s)" "sview view s = d"
    using simD [OF redis_server.pause_seq_sim [OF assms(1)], of "counted st" ?as] assms(2) d(1)
    by (cases "pause_seq rd ?as (counted st)") auto
  have f: "fold pause_spec ?as A = A \<union> set names" for A by (induction names arbitrary: A) auto
  have n: "hd names \<noteq> ''*''"
    using assms(7,8) by (cases names) (auto simp: queue_key_def valid_queue_name_def queue_char_def Let_def is_digit_def)
  have "cmd_queue ev c ?cmd (counted st) = (Ok (), replied c conn_Ok s)"
    using for_idx_pause [of ev names "counted st" s 0] s(1) assms(5) n l(2) assms(7)
    by (cases names) (simp_all add: cmd_queue_def gosimps conn_write_run del: for_idx.simps)
  then have "processLine ev c (PauseQueues names) st = (Ok True, replied c conn_Ok s)"
    using processLine_run [OF assms(6) client_line(2) [OF l(1)], of ev c "cmd_queue ev c"] l(3)
    by (simp add: PauseQueues_def CommandSet_def)
  moreover have "sent s = sent st" "\<not> srv_closed s" "paused s = paused d"
    using server_more [OF d(4)] arg_cong [OF s(2), of sent] arg_cong [OF s(2), of srv_closed] arg_cong [OF s(2), of paused] assms(6)
    by (simp_all add: sview_reply)
  ultimately show ?thesis using d(2,3) s(2) f by auto
qed

text \<open>
  C22: pausing works from the client's request to the worker's: after \<open>PauseQueues\<close> the list in memory and the
  set in Redis both have the paused queues besides those that were paused before, and a worker that fetches
  from these queues gets no job and changes nothing, whatever the queues hold.
\<close>

theorem pause_stops_fetch:
  assumes "redis_server rd view healthy" "healthy (rs st)" "store_ok (sview view st)" "pause_sync (sview view st)"
    and "e_redis ev = rd" "e_fuel ev = Suc f" "\<not> srv_closed st" "names \<noteq> []" "\<forall>k \<in> set names. queue_key k"
    and "(result, st1) = processLine ev c (PauseQueues names) st"
  shows "result = Ok True \<and> sent st1 = (sent st)(conn_no c := sent st (conn_no c) @ conn_Ok)
    \<and> pause_sync (sview view st1) \<and> set (paused st1) = set (paused st) \<union> set names
    \<and> processLine ev c' (client_Fetch names) st1 = (Ok True, replied c' (conn_Result None) (counted st1))
    \<and> fetch_response (conn_Result None @ rest) = (Ok None, rest)"
proof -
  obtain s where s: "processLine ev c (PauseQueues names) st = (Ok True, replied c conn_Ok s)"
    "pause_sync (sview view s)" "set (paused s) = set (paused st) \<union> set names" "\<not> srv_closed s" "sent s = sent st"
    using pause_line_run [OF assms(1-5,7-9), of c] by blast
  have st1: "result = Ok True" "st1 = replied c conn_Ok s" using s(1) assms(10) by simp_all
  let ?cmd = "''FETCH'' @ '' '' @ join_with '' '' names"
  note line = fetch_line [OF assms(8,9)]
  have "filter_queues (paused st1) names = []"
    using s(3) by (auto simp: st1(2) filter_queues_eq filter_empty_conv)
  then have "Fetch (Suc f) rd ch w names (counted st1) = (Ok None, counted st1)" for ch w
    using assms(8) by (simp add: gosimps)
  then have "cmd_fetch ev c' ?cmd (counted st1) = (Ok (), replied c' (conn_Result None) (counted st1))"
    using assms(5,6) line(2) by (simp add: cmd_fetch_def gosimps conn_write_run del: Fetch.simps)
  then have "processLine ev c' (client_Fetch names) st1 = (Ok True, replied c' (conn_Result None) (counted st1))"
    using processLine_run [OF _ client_line(2) [OF line(1)], of st1 ev c' "cmd_fetch ev c'"] s(4) st1(2)
      verb_of_prefix [of "''FETCH''" "join_with '' '' names"]
    by (simp add: client_Fetch_def CommandSet_def)
  moreover have "fetch_response (conn_Result None @ rest) = (Ok None, rest)"
    by (simp add: fetch_response_def readResponse_nil)
  moreover have "pause_sync (sview view st1)" using s(2) by (simp add: st1(2) sview_reply pause_sync_def)
  ultimately show ?thesis
    using st1 s(3,5) by simp
qed

theorem pause_stops_fetch_witness:
  "\<exists>st1. processLine sample_env sample_conn (PauseQueues [''default'']) (server_of ready_mgr one_worker) = (Ok True, st1)
     \<and> set (paused st1) = {''default''}
     \<and> processLine sample_env sample_conn (client_Fetch [''default'']) st1 =
         (Ok True, replied sample_conn (conn_Result None) (counted st1))"
proof -
  let ?s = "server_of ready_mgr one_worker"
  let ?r = "processLine sample_env sample_conn (PauseQueues [''default'']) ?s"
  have "pause_sync ?s"
    using ready_mgr_facts(4) by (simp add: pause_sync_def ready_mgr_def put_queue_def empty_mgr_def get_set_def put_list_def)
  then show ?thesis
    using pause_stops_fetch [OF dbr.redis_server_axioms, of ?s sample_env 0 "[''default'']" "fst ?r" "snd ?r" sample_conn sample_conn]
      ready_mgr_facts queue_key_default
    by (intro exI [of _ "snd ?r"]) (simp add: sample_env_def prod_eq_iff)
qed

section \<open>Examples\<close>

theorem fail_over_the_wire_witness:
  "\<exists>(st :: db server) line p now. client_Fail (Jid sample_job) ''boom'' None = Ok line
     \<and> fst (processLine sample_env sample_conn line st) = Ok True
     \<and> settled (snd (failed_job (cleanse (fail_payload (Jid sample_job) ''boom'' None)) now sample_job))
         (fst (failed_job (cleanse (fail_payload (Jid sample_job) ''boom'' None)) now sample_job))
         (released (Jid sample_job) p (counted st))
         ((snd (processLine sample_env sample_conn line st))\<lparr>sent := sent st\<rparr>)"
proof -
  let ?m = "fetched ''w1'' ''default'' ready_mgr"
  let ?s = "server_of ?m one_worker" and ?f = "cleanse (fail_payload (Jid sample_job) ''boom'' None)"
  obtain res p where h: "res_Job res = Some sample_job" "held ?m (Jid sample_job) res p sample_expiry"
    using sample_held(2) by blast
  have "held ?s (Jid sample_job) res p sample_expiry" using h(2) by (simp add: held_def server_of_def mgr.extend_def zset_of_def)
  moreover have j: "few_retries sample_job" "Jid sample_job \<noteq> []"
    by (simp_all add: few_retries_def sample_job_def SetCustom_def zero_job_def)
  moreover have "clock_ok ?s" using sample_clock_ok by (simp add: clock_ok_def)
  moreover obtain line where l: "client_Fail (Jid sample_job) ''boom'' None = Ok line"
    by (simp add: client_Fail_def fail_json_def)
  ultimately obtain now w where w: "fst (processLine sample_env sample_conn line ?s) = Ok True"
    "settled (snd (failed_job ?f now sample_job)) (fst (failed_job ?f now sample_job)) (released (Jid sample_job) p (counted ?s)) w"
    "snd (processLine sample_env sample_conn line ?s) = replied sample_conn conn_Ok w"
    using fail_over_the_wire [OF dbr.redis_server_axioms, of ?s sample_env "Jid sample_job" res p sample_expiry sample_job
        "''boom''" None line ?f "fst (processLine sample_env sample_conn line ?s)" "snd (processLine sample_env sample_conn line ?s)"
        sample_conn "[]"] h(1) sample_held(1)
    by (auto simp: sample_env_def)
  have "sent w = sent ?s"
    using w(2) same_env_server [of "released (Jid sample_job) p (counted ?s)" w] by (simp add: settled_def released_def put_sorted_def)
  then have "(snd (processLine sample_env sample_conn line ?s))\<lparr>sent := sent ?s\<rparr> = w"
    unfolding w(3) by (simp add: replied_def)
  with l w(1,2) show ?thesis by metis
qed

theorem beat_over_the_wire_witness:
  "\<exists>st1. processLine sample_env sample_conn (client_Beat ''w1'' 100 ''quiet'') (server_of empty_mgr one_worker) = (Ok True, st1)
     \<and> wstate (objects (wk st1) ! 0) = Quiet
     \<and> beat_response (sent st1 1) = (Ok (''{'' @ quoted_field ''state'' ''quiet'' @ ''}''), [])"
proof -
  let ?s = "server_of empty_mgr one_worker"
  let ?r = "processLine sample_env sample_conn (client_Beat ''w1'' 100 ''quiet'') ?s"
  have o: "map_of (heartbeats one_worker) ''w1'' = Some 0" by (simp add: one_worker_def)
  have w: "wstate (objects (snd (workers_heartbeat t (beat_of ''w1'' 100 ''quiet'') one_worker)) ! 0) = Quiet" for t
    by (simp add: workers_heartbeat_def one_worker_def beat_of_def upd_object_def beat_object_def stateFromString_def Signal_def
        sample_client_def zero_client_def Let_def)
  show ?thesis
    using beat_over_the_wire [of ?s 100 "fst ?r" "snd ?r" sample_env sample_conn "''w1''" "''quiet''", OF _ _ _ refl] o w
    by (intro exI [of _ "snd ?r"]) (auto simp: int64_ok_def sample_conn_def stateString_def prod_eq_iff)
qed

theorem mutate_over_the_wire_witness:
  "processLine sample_env sample_conn (client_Discard ''retries'' (Matching ''*a b*'' zero_filter))
       (server_of empty_mgr one_worker) =
     (Ok True, replied sample_conn (conn_Error (GErr ''Invalid format'')) (counted (server_of empty_mgr one_worker)))"
proof -
  let ?s = "server_of empty_mgr one_worker" and ?o = "\<lparr>op_Cmd = ''discard'', op_Target = ''retries'',
    op_Filter = Some (Matching ''*a b*'' zero_filter)\<rparr>"
  let ?r = "processLine sample_env sample_conn (client_mutate ?o) ?s"
  have "CHR '' '' \<in> set (show_json (encode_operation ?o))"
    by (simp add: encode_operation_def encode_filter_def Matching_def zero_filter_def opt_str_def quote_json_def quote_char_def)
  then show ?thesis
    using mutate_over_the_wire [of ?s "fst ?r" "snd ?r" sample_env sample_conn ?o "[]"]
    by (simp add: client_Discard_def prod_eq_iff)
qed

end
