(* ===== verification/Batch.thy ===== *)
theory Batch
  imports ClientCalls
begin

text \<open>
  Batches and tracking of the client (\<open>client/batch.go\<close>, \<open>client/tracking.go\<close>).  The two commands are served by
  the commercial server only; this server refuses them.
\<close>

section \<open>Conversations\<close>

text \<open>A client as the bytes it has written and the bytes it will read.\<close>

record dialog =
  wtr :: string
  rdr :: string

definition send :: "string \<Rightarrow> ('m dialog_scheme, unit) gofun" where
  "send bytes = modS (\<lambda>d. d\<lparr>wtr := wtr d @ bytes\<rparr>)"

definition read_error :: "read_result \<Rightarrow> 'a gores" where
  "read_error e =
     (case e of RProtocolError m \<Rightarrow> Err (GErr m) | RFail m \<Rightarrow> Err (GErr m) | RPanic p \<Rightarrow> Panic p | RData v \<Rightarrow> Err (GErr []))"

definition read_ok :: "('m dialog_scheme, unit) gofun" where
  "read_ok d =
     (case client_ok (rdr d) of
        (None, r) \<Rightarrow> (Ok (), d\<lparr>rdr := r\<rparr>)
      | (Some e, r) \<Rightarrow> (read_error e, d\<lparr>rdr := r\<rparr>))"

definition read_string :: "('m dialog_scheme, string) gofun" where
  "read_string d = (case generic_response (rdr d) of (x, r) \<Rightarrow> (x, d\<lparr>rdr := r\<rparr>))"

definition read_data :: "('m dialog_scheme, string) gofun" where
  "read_data d =
     (case readResponse (rdr d) of
        (RData v, r) \<Rightarrow> (Ok (case v of None \<Rightarrow> [] | Some x \<Rightarrow> x), d\<lparr>rdr := r\<rparr>)
      | (e, r) \<Rightarrow> (read_error e, d\<lparr>rdr := r\<rparr>))"

definition dialog_Push :: "Job \<Rightarrow> ('m dialog_scheme, unit) gofun" where
  "dialog_Push job = bindS (send (client_Push job)) (\<lambda>_. read_ok)"

section \<open>Batches\<close>

text \<open>\<open>b_faktory\<close> says whether the batch has a client.\<close>

record Batch =
  b_Bid :: string
  b_ParentBid :: string
  b_Description :: string
  b_Success :: "Job option"
  b_Complete :: "Job option"
  b_faktory :: bool
  b_committed :: bool
  b_new :: bool

record batch_dialog = dialog +
  bt :: Batch

definition NewBatch :: Batch where
  "NewBatch = \<lparr>b_Bid = [], b_ParentBid = [], b_Description = [], b_Success = None, b_Complete = None,
     b_faktory = True, b_committed = False, b_new = True\<rparr>"

definition BatchAlreadyCommitted :: gerror where
  "BatchAlreadyCommitted = GErr ''Batch has already been committed, must reopen''"

definition BatchNotOpen :: gerror where
  "BatchNotOpen = GErr ''Batch must be opened before it can be used''"

definition encode_batch :: "Batch \<Rightarrow> json" where
  "encode_batch b = JObj
     ([(''bid'', JStr (b_Bid b))] @ opt_str ''parent_bid'' (b_ParentBid b) @ opt_str ''description'' (b_Description b)
      @ (case b_Success b of None \<Rightarrow> [] | Some j \<Rightarrow> [(''success'', encode_job j)])
      @ (case b_Complete b of None \<Rightarrow> [] | Some j \<Rightarrow> [(''complete'', encode_job j)]))"

definition BatchCommit :: "string \<Rightarrow> ('m dialog_scheme, unit) gofun" where
  "BatchCommit bid = bindS (send (writeLine ''BATCH COMMIT'' (Some bid))) (\<lambda>_. read_ok)"

definition BatchNew :: "('m batch_dialog_scheme, unit) gofun" where
  "BatchNew =
     bindS (getS bt) (\<lambda>def.
     if b_Bid def \<noteq> [] then errS (GErr ''BID must be blank when creating a new Batch, cannot specify it'')
     else
       bindS (send (writeLine ''BATCH NEW'' (Some (show_json (encode_batch def))))) (\<lambda>_.
       bindS read_string (\<lambda>bid.
       modS (\<lambda>s. s\<lparr>bt := (bt s)\<lparr>b_Bid := bid, b_new := False, b_faktory := True\<rparr>\<rparr>))))"

definition BatchOpen :: "string \<Rightarrow> ('m dialog_scheme, Batch) gofun" where
  "BatchOpen bid =
     bindS (send (writeLine ''BATCH OPEN'' (Some bid))) (\<lambda>_.
     bindS read_string (\<lambda>bbid. retS (NewBatch\<lparr>b_Bid := bbid, b_new := False\<rparr>)))"

record BatchStatus =
  st_Bid :: string
  st_ParentBid :: string
  st_Description :: string
  st_CreatedAt :: string
  st_Total :: int
  st_Pending :: int
  st_Failed :: int
  st_CompleteState :: string
  st_SuccessState :: string

definition zero_status :: BatchStatus where
  "zero_status = \<lparr>st_Bid = [], st_ParentBid = [], st_Description = [], st_CreatedAt = [], st_Total = 0, st_Pending = 0,
     st_Failed = 0, st_CompleteState = [], st_SuccessState = []\<rparr>"

definition status_fields :: "BatchStatus fields" where
  "status_fields =
     [(''bid'', fld dec_str st_Bid (\<lambda>a r. r\<lparr>st_Bid := a\<rparr>)),
      (''parent_bid'', fld dec_str st_ParentBid (\<lambda>a r. r\<lparr>st_ParentBid := a\<rparr>)),
      (''description'', fld dec_str st_Description (\<lambda>a r. r\<lparr>st_Description := a\<rparr>)),
      (''created_at'', fld dec_str st_CreatedAt (\<lambda>a r. r\<lparr>st_CreatedAt := a\<rparr>)),
      (''total'', fld dec_int st_Total (\<lambda>a r. r\<lparr>st_Total := a\<rparr>)),
      (''pending'', fld dec_int st_Pending (\<lambda>a r. r\<lparr>st_Pending := a\<rparr>)),
      (''failed'', fld dec_int st_Failed (\<lambda>a r. r\<lparr>st_Failed := a\<rparr>)),
      (''complete_st'', fld dec_str st_CompleteState (\<lambda>a r. r\<lparr>st_CompleteState := a\<rparr>)),
      (''success_st'', fld dec_str st_SuccessState (\<lambda>a r. r\<lparr>st_SuccessState := a\<rparr>))]"

definition client_BatchStatus :: "string \<Rightarrow> ('m dialog_scheme, BatchStatus) gofun" where
  "client_BatchStatus bid =
     bindS (send (writeLine ''BATCH STATUS'' (Some bid))) (\<lambda>_.
     bindS read_data (\<lambda>data. liftR (unmarshal ''client.BatchStatus'' status_fields data zero_status)))"

definition Batch_Push :: "Job \<Rightarrow> ('m batch_dialog_scheme, unit) gofun" where
  "Batch_Push job =
     bindS (getS bt) (\<lambda>b.
     if b_new b then errS BatchNotOpen
     else if \<not> b_faktory b \<or> b_committed b then errS BatchAlreadyCommitted
     else dialog_Push (SetCustom ''bid'' (JStr (b_Bid b)) job))"

text \<open>\<open>q\<close> is the quoting of the verb \<open>%q\<close>, which occurs in the texts of errors only.\<close>

definition Batch_Commit :: "(string \<Rightarrow> string) \<Rightarrow> ('m batch_dialog_scheme, unit) gofun" where
  "Batch_Commit q =
     bindS (getS bt) (\<lambda>b.
     if b_new b then errS BatchNotOpen
     else if \<not> b_faktory b \<or> b_committed b then errS BatchAlreadyCommitted
     else
       bindS (wrap_err (\<lambda>e. GErr (''cannot commit '' @ q (b_Bid b) @ '' batch: '' @ err_text e)) (BatchCommit (b_Bid b))) (\<lambda>_.
       modS (\<lambda>s. s\<lparr>bt := (bt s)\<lparr>b_faktory := False, b_committed := True\<rparr>\<rparr>)))"

text \<open>\<open>BatchNew\<close> uses its client, which may be nil, only after it has looked at the bid.\<close>

definition Batch_Jobs :: "(string \<Rightarrow> string) \<Rightarrow> ('m batch_dialog_scheme, unit) gofun \<Rightarrow> ('m batch_dialog_scheme, unit) gofun" where
  "Batch_Jobs q fn =
     bindS (bindS (getS bt) (\<lambda>b.
       if b_new b then
         (if b_faktory b \<or> b_Bid b \<noteq> [] then wrap_err (\<lambda>e. GErr (''cannot create new batch: '' @ err_text e)) BatchNew
          else panicS nil_pointer)
       else retS ())) (\<lambda>_.
     bindS (getS bt) (\<lambda>b.
     if \<not> b_faktory b \<or> b_committed b then errS BatchNotOpen
     else
       bindS (wrap_err (\<lambda>e. GErr (''cannot push jobs in the '' @ q (b_Bid b) @ '' batch: '' @ err_text e)) fn) (\<lambda>_.
       Batch_Commit q)))"

section \<open>Tracking\<close>

record JobTrack =
  tr_Jid :: string
  tr_Percent :: int
  tr_Description :: string
  tr_State :: string
  tr_UpdatedAt :: string

definition zero_track :: JobTrack where
  "zero_track = \<lparr>tr_Jid = [], tr_Percent = 0, tr_Description = [], tr_State = [], tr_UpdatedAt = []\<rparr>"

definition track_fields :: "JobTrack fields" where
  "track_fields =
     [(''jid'', fld dec_str tr_Jid (\<lambda>a r. r\<lparr>tr_Jid := a\<rparr>)),
      (''percent'', fld dec_int tr_Percent (\<lambda>a r. r\<lparr>tr_Percent := a\<rparr>)),
      (''desc'', fld dec_str tr_Description (\<lambda>a r. r\<lparr>tr_Description := a\<rparr>)),
      (''state'', fld dec_str tr_State (\<lambda>a r. r\<lparr>tr_State := a\<rparr>)),
      (''updated_at'', fld dec_str tr_UpdatedAt (\<lambda>a r. r\<lparr>tr_UpdatedAt := a\<rparr>))]"

definition TrackGet :: "string \<Rightarrow> ('m dialog_scheme, JobTrack) gofun" where
  "TrackGet jid =
     bindS (send (writeLine ''TRACK GET'' (Some jid))) (\<lambda>_.
     bindS read_data (\<lambda>data. liftR (unmarshal ''client.JobTrack'' track_fields data zero_track)))"

text \<open>\<open>now\<close> is the time when \<open>TrackSet\<close> is called; a deadline that has passed is not sent.\<close>

definition track_json :: "time \<Rightarrow> string \<Rightarrow> int \<Rightarrow> string \<Rightarrow> time option \<Rightarrow> json" where
  "track_json now jid percent desc reserveUntil = JObj
     ([(''jid'', JStr jid)] @ opt_int ''percent'' percent @ opt_str ''desc'' desc
      @ (case reserveUntil of Some t \<Rightarrow> if now < t then opt_str ''reserve_until'' (Thens t) else [] | None \<Rightarrow> []))"

definition TrackSet :: "time \<Rightarrow> string \<Rightarrow> int \<Rightarrow> string \<Rightarrow> time option \<Rightarrow> ('m dialog_scheme, unit) gofun" where
  "TrackSet now jid percent desc reserveUntil =
     (if jid = [] then errS (GErr ''Job Track missing JID'')
      else
        bindS (send (writeLine ''TRACK SET'' (Some (show_json (track_json now jid percent desc reserveUntil))))) (\<lambda>_.
        read_ok))"

section \<open>The life of a batch\<close>

text \<open>
  After a successful commit the batch is over: every call fails without a byte being written or read and
  without running the jobs function.
\<close>

lemma committed_batch_is_over:
  assumes "Batch_Commit q s = (Ok (), s')"
  shows "Batch_Push job s' = (Err BatchAlreadyCommitted, s')" "Batch_Commit q' s' = (Err BatchAlreadyCommitted, s')"
    "Batch_Jobs q' fn s' = (Err BatchNotOpen, s')"
proof -
  have "b_committed (bt s') \<and> \<not> b_new (bt s')"
    using assms by (auto simp: Batch_Commit_def BatchCommit_def send_def read_ok_def bindS_def getS_def modS_def errS_def
        wrap_err_def split: if_splits prod.splits gores.splits option.splits)
  then show "Batch_Push job s' = (Err BatchAlreadyCommitted, s')" "Batch_Commit q' s' = (Err BatchAlreadyCommitted, s')"
    "Batch_Jobs q' fn s' = (Err BatchNotOpen, s')"
    by (simp_all add: Batch_Push_def Batch_Commit_def Batch_Jobs_def gosimps)
qed

text \<open>The jobs of a batch, pushed one after the other.\<close>

definition push_jobs :: "Job list \<Rightarrow> ('m batch_dialog_scheme, unit) gofun" where
  "push_jobs = for_idx (\<lambda>_. Batch_Push) 0"

lemma read_ok_Ok: "rdr s = conn_Ok @ r \<Longrightarrow> read_ok s = (Ok (), s\<lparr>rdr := r\<rparr>)"
  using readResponse_line [of "''OK''" "CHR ''+''" r] by (simp add: read_ok_def client_ok_def conn_Ok_def Let_def)

lemma push_jobs_run:
  "\<not> b_new (bt s) \<Longrightarrow> b_faktory (bt s) \<Longrightarrow> \<not> b_committed (bt s) \<Longrightarrow> rdr s = concat (replicate (length js) conn_Ok) @ r \<Longrightarrow>
   for_idx (\<lambda>_. Batch_Push) i js s = (Ok (), s\<lparr>rdr := r,
     wtr := wtr s @ concat (map (\<lambda>j. client_Push (SetCustom ''bid'' (JStr (b_Bid (bt s))) j)) js)\<rparr>)"
proof (induction js arbitrary: s i)
  case (Cons j js)
  let ?line = "client_Push (SetCustom ''bid'' (JStr (b_Bid (bt s))) j)" and ?r = "concat (replicate (length js) conn_Ok) @ r"
  let ?s = "s\<lparr>wtr := wtr s @ ?line, rdr := ?r\<rparr>"
  have "read_ok (s\<lparr>wtr := wtr s @ ?line\<rparr>) = (Ok (), ?s)"
    using Cons.prems(4) by (simp add: read_ok_Ok [where r = ?r])
  then have "Batch_Push j s = (Ok (), ?s)"
    using Cons.prems(1-3) by (simp add: Batch_Push_def dialog_Push_def send_def gosimps)
  with Cons.IH [of ?s "Suc i"] Cons.prems show ?case by (simp add: bindS_def)
qed (simp add: retS_def)

text \<open>
  C33: \<open>Jobs\<close> on a new batch, with a server that answers BATCH NEW with an id and everything else with OK,
  writes exactly the description of the batch, one PUSH for each job with the id of the batch in its custom
  data, in order, and the commit for that id; and then the batch is over: further calls to push, commit or
  add jobs fail without a byte being written.
\<close>

theorem batch_jobs_commits:
  assumes "b_new (bt s)" "b_faktory (bt s)" "\<not> b_committed (bt s)" "b_Bid (bt s) = []"
    and "generic_response (rdr s) = (Ok bid, concat (replicate (length js) conn_Ok) @ conn_Ok @ r)"
    and "(result, s') = Batch_Jobs q (push_jobs js) s"
  shows "result = Ok ()
    \<and> wtr s' = wtr s @ writeLine ''BATCH NEW'' (Some (show_json (encode_batch (bt s))))
        @ concat (map (\<lambda>j. client_Push (SetCustom ''bid'' (JStr bid) j)) js) @ writeLine ''BATCH COMMIT'' (Some bid)
    \<and> rdr s' = r
    \<and> Batch_Push job s' = (Err BatchAlreadyCommitted, s') \<and> Batch_Commit q s' = (Err BatchAlreadyCommitted, s')
    \<and> Batch_Jobs q fn s' = (Err BatchNotOpen, s')"
proof -
  let ?new = "writeLine ''BATCH NEW'' (Some (show_json (encode_batch (bt s))))"
  let ?jobs = "concat (map (\<lambda>j. client_Push (SetCustom ''bid'' (JStr bid) j)) js)"
  let ?s1 = "s\<lparr>wtr := wtr s @ ?new, rdr := concat (replicate (length js) conn_Ok) @ conn_Ok @ r,
    bt := (bt s)\<lparr>b_Bid := bid, b_new := False, b_faktory := True\<rparr>\<rparr>"
  let ?s2 = "?s1\<lparr>wtr := wtr s @ ?new @ ?jobs, rdr := conn_Ok @ r\<rparr>"
  let ?s3 = "?s2\<lparr>wtr := wtr s @ ?new @ ?jobs @ writeLine ''BATCH COMMIT'' (Some bid), rdr := r,
    bt := (bt ?s1)\<lparr>b_faktory := False, b_committed := True\<rparr>\<rparr>"
  have new: "BatchNew s = (Ok (), ?s1)"
    using assms(4,5) by (simp add: BatchNew_def send_def read_string_def gosimps)
  have jobs: "push_jobs js ?s1 = (Ok (), ?s2)"
    using push_jobs_run [of ?s1 js "conn_Ok @ r" 0] assms(3) by (simp add: push_jobs_def)
  have "read_ok (?s2\<lparr>wtr := wtr s @ ?new @ ?jobs @ writeLine ''BATCH COMMIT'' (Some bid)\<rparr>) =
      (Ok (), ?s2\<lparr>wtr := wtr s @ ?new @ ?jobs @ writeLine ''BATCH COMMIT'' (Some bid), rdr := r\<rparr>)"
    by (simp add: read_ok_Ok [where r = r])
  then have commit: "Batch_Commit q ?s2 = (Ok (), ?s3)"
    using assms(3) by (simp add: Batch_Commit_def BatchCommit_def send_def gosimps wrap_err_def)
  have "Batch_Jobs q (push_jobs js) s = (Ok (), ?s3)"
    using assms(1-3) new jobs commit by (simp add: Batch_Jobs_def wrap_err_def bindS_def getS_def)
  then have "result = Ok ()" "s' = ?s3" using assms(6) by simp_all
  with committed_batch_is_over [OF commit] show ?thesis by simp
qed

definition sample_batch :: Batch where
  "sample_batch = NewBatch\<lparr>b_Success := Some sample_job\<rparr>"

definition sample_dialog :: batch_dialog where
  "sample_dialog = \<lparr>wtr = [], rdr = ''+b1'' @ crlf @ conn_Ok @ conn_Ok, bt = sample_batch\<rparr>"

theorem batch_jobs_commits_witness:
  "\<exists>s'. Batch_Jobs quote_json (push_jobs [sample_job]) sample_dialog = (Ok (), s') \<and> rdr s' = []
     \<and> wtr s' = writeLine ''BATCH NEW'' (Some (show_json (encode_batch sample_batch)))
        @ client_Push (SetCustom ''bid'' (JStr ''b1'') sample_job) @ writeLine ''BATCH COMMIT'' (Some ''b1'')
     \<and> Batch_Commit quote_json s' = (Err BatchAlreadyCommitted, s')"
proof -
  obtain res s' where r: "(res, s') = Batch_Jobs quote_json (push_jobs [sample_job]) sample_dialog" by (metis prod.collapse)
  have "generic_response (rdr sample_dialog) = (Ok ''b1'', concat (replicate (length [sample_job]) conn_Ok) @ conn_Ok @ [])"
    using readResponse_line [of "''b1''" "CHR ''+''" "conn_Ok @ conn_Ok"]
    by (simp add: sample_dialog_def generic_response_def readString_def)
  from batch_jobs_commits [OF _ _ _ _ this r] show ?thesis
    unfolding r [symmetric] by (simp add: sample_dialog_def sample_batch_def NewBatch_def)
qed

section \<open>This server\<close>

lemma json_ok_batch:
  "pred_option job_ok (b_Success b) \<Longrightarrow> pred_option job_ok (b_Complete b) \<Longrightarrow> json_ok (encode_batch b)"
  using json_ok_job by (cases "b_Success b"; cases "b_Complete b") (simp_all add: encode_batch_def opt_str_def)

text \<open>A line whose verb is one of the two commands is answered with an error, whatever follows.\<close>

lemma refused_line:
  assumes "\<not> srv_closed st" "CHR 0x0A \<notin> set rest"
    and "op = ''BATCH'' \<and> msg = ''The Batch subsystem is only available in Faktory Enterprise''
      \<or> op = ''TRACK'' \<and> msg = ''The Tracking subsystem is only available in Faktory Enterprise''"
  shows "processLine ev c ((op @ '' '' @ rest) @ crlf) st = (Ok True, replied c (conn_Error (GErr msg)) (counted st))"
    "read_line ((op @ '' '' @ rest) @ crlf @ r) = Some ((op @ '' '' @ rest) @ crlf, r)"
proof -
  have l: "CHR 0x0A \<notin> set (op @ '' '' @ rest)" using assms(2,3) by auto
  show "read_line ((op @ '' '' @ rest) @ crlf @ r) = Some ((op @ '' '' @ rest) @ crlf, r)"
    by (rule command_of_writeLine(1) [OF l])
  have v: "verb_of (op @ '' '' @ rest) = op" using assms(3) by (intro verb_of_prefix) auto
  show "processLine ev c ((op @ '' '' @ rest) @ crlf) st = (Ok True, replied c (conn_Error (GErr msg)) (counted st))"
    using assms(3)
  proof
    assume o: "op = ''BATCH'' \<and> msg = ''The Batch subsystem is only available in Faktory Enterprise''"
    show ?thesis
      by (rule processLine_run [OF assms(1) command_of_writeLine(2) [OF l], where proc = "\<lambda>_. cmd_batch c"], unfold v)
         (simp_all add: o CommandSet_def cmd_batch_def conn_write_run)
  next
    assume o: "op = ''TRACK'' \<and> msg = ''The Tracking subsystem is only available in Faktory Enterprise''"
    show ?thesis
      by (rule processLine_run [OF assms(1) command_of_writeLine(2) [OF l], where proc = "\<lambda>_. cmd_track c"], unfold v)
         (simp_all add: o CommandSet_def cmd_track_def conn_write_run)
  qed
qed

lemma read_refusal:
  "CHR 0x0A \<notin> set msg \<Longrightarrow> generic_response (conn_Error (GErr msg) @ r) = (Err (GErr (''ERR '' @ msg)), r)"
  "CHR 0x0A \<notin> set msg \<Longrightarrow> client_ok (conn_Error (GErr msg) @ r) = (Some (RProtocolError (''ERR '' @ msg)), r)"
  using readResponse_line [of "''ERR '' @ msg" "CHR ''-''" r]
  by (simp_all add: generic_response_def readString_def client_ok_def conn_Error_def)

text \<open>
  This server has no batches: the bytes \<open>Jobs\<close> of the client writes for a new batch are one command of
  the server, which changes nothing but its counters and answers with an error; the client reads it, \<open>Jobs\<close>
  returns it without running the function that pushes the jobs, and the batch is still new.
\<close>

theorem batches_are_refused:
  assumes "\<not> srv_closed st" "b_new (bt s)" "b_faktory (bt s)" "b_Bid (bt s) = []"
    and "pred_option job_ok (b_Success (bt s))" "pred_option job_ok (b_Complete (bt s))"
    and "line = writeLine ''BATCH NEW'' (Some (show_json (encode_batch (bt s))))"
    and "reply = conn_Error (GErr ''The Batch subsystem is only available in Faktory Enterprise'')" "rdr s = reply @ rest"
  shows "processLine ev c line st = (Ok True, replied c reply (counted st))
    \<and> Batch_Jobs q fn s = (Err (GErr ''cannot create new batch: ERR The Batch subsystem is only available in Faktory Enterprise''),
        s\<lparr>wtr := wtr s @ line, rdr := rest\<rparr>)"
proof -
  have "CHR 0x0A \<notin> set (''NEW '' @ show_json (encode_batch (bt s)))"
    using show_json_line [OF json_ok_batch [OF assms(5,6)]] by simp
  from refused_line(1) [OF assms(1) this, of "''BATCH''" _ ev c]
  have "processLine ev c line st = (Ok True, replied c reply (counted st))"
    by (simp add: assms(7,8) writeLine_def)
  moreover have "BatchNew s = (Err (GErr ''ERR The Batch subsystem is only available in Faktory Enterprise''),
      s\<lparr>wtr := wtr s @ line, rdr := rest\<rparr>)"
    using assms(4) read_refusal(1) [of "''The Batch subsystem is only available in Faktory Enterprise''" rest]
    by (simp add: BatchNew_def send_def read_string_def gosimps assms(7-9))
  then have "Batch_Jobs q fn s = (Err (GErr ''cannot create new batch: ERR The Batch subsystem is only available in Faktory Enterprise''),
        s\<lparr>wtr := wtr s @ line, rdr := rest\<rparr>)"
    using assms(2,3) by (simp add: Batch_Jobs_def wrap_err_def bindS_def getS_def err_text_def)
  ultimately show ?thesis ..
qed

theorem batches_are_refused_witness:
  "let line = writeLine ''BATCH NEW'' (Some (show_json (encode_batch sample_batch)));
       s = sample_dialog\<lparr>rdr := conn_Error (GErr ''The Batch subsystem is only available in Faktory Enterprise'')\<rparr> in
   fst (processLine sample_env sample_conn line (server_of empty_mgr one_worker)) = Ok True
   \<and> bt (snd (Batch_Jobs quote_json (push_jobs [sample_job]) s)) = sample_batch"
  using batches_are_refused [of "server_of empty_mgr one_worker"
      "sample_dialog\<lparr>rdr := conn_Error (GErr ''The Batch subsystem is only available in Faktory Enterprise'')\<rparr>"
      "writeLine ''BATCH NEW'' (Some (show_json (encode_batch sample_batch)))" _ "[]" sample_env sample_conn quote_json
      "push_jobs [sample_job]", OF _ _ _ _ _ _ _ refl] sample_job_ok
  by (simp add: sample_dialog_def sample_batch_def NewBatch_def Let_def)

text \<open>Reports about the progress of a job are refused in the same way.\<close>

lemma tracking_is_refused:
  assumes "\<not> srv_closed st" "jid \<noteq> []" "line = writeLine ''TRACK SET'' (Some (show_json (track_json now jid percent desc t)))"
    and "reply = conn_Error (GErr ''The Tracking subsystem is only available in Faktory Enterprise'')" "rdr s = reply @ r"
  shows "processLine ev c line st = (Ok True, replied c reply (counted st))"
    "TrackSet now jid percent desc t s =
      (Err (GErr ''ERR The Tracking subsystem is only available in Faktory Enterprise''), s\<lparr>wtr := wtr s @ line, rdr := r\<rparr>)"
proof -
  have "json_ok (track_json now jid percent desc t)"
    by (auto simp: track_json_def opt_str_def opt_int_def split: option.split)
  from show_json_line [OF this] have "CHR 0x0A \<notin> set (''SET '' @ show_json (track_json now jid percent desc t))" by simp
  from refused_line(1) [OF assms(1) this, of "''TRACK''" _ ev c]
  show "processLine ev c line st = (Ok True, replied c reply (counted st))" by (simp add: assms(3,4) writeLine_def)
  show "TrackSet now jid percent desc t s =
      (Err (GErr ''ERR The Tracking subsystem is only available in Faktory Enterprise''), s\<lparr>wtr := wtr s @ line, rdr := r\<rparr>)"
    using assms(2) read_refusal(2) [of "''The Tracking subsystem is only available in Faktory Enterprise''" r]
    by (simp add: TrackSet_def send_def read_ok_def read_error_def gosimps assms(3-5))
qed

end
