(* ===== verification/Tasks.thy ===== *)
theory Tasks
  imports ServerFacts ReapFacts
begin

text \<open>
  The periodic tasks of the server (\<open>server/task_runner.go\<close>, \<open>server/scanner.go\<close>, \<open>server/tasks.go\<close>): once a
  second the runner executes the tasks whose period divides the current second.  The runner with its tasks
  and their counters is a value that a cycle returns updated; the jobs and workers are in the state of the
  server.  The ticker around \<open>cycle\<close>, and that a cycle longer than a second makes it skip seconds, are not
  modelled.
\<close>

section \<open>Tasks\<close>

text \<open>The methods of the manager that \<open>startTasks\<close> hands to scanners.\<close>

datatype scannerTask = EnqueueScheduledTask | RetryTask | PurgeTask

fun run_scannerTask :: "'s env \<Rightarrow> scannerTask \<Rightarrow> time \<Rightarrow> ('s server, int) gofun" where
  "run_scannerTask ev EnqueueScheduledTask t = EnqueueScheduledJobs (e_fuel ev) (e_redis ev) t"
| "run_scannerTask ev RetryTask t = RetryJobs (e_fuel ev) (e_redis ev) t"
| "run_scannerTask ev PurgeTask t = Purge (e_redis ev) t"

record scanner =
  sc_name :: string
  sc_task :: scannerTask
  sc_set :: string
  sc_jobs :: int
  sc_cycles :: int
  sc_walltime :: int

definition scanner_Execute :: "'s env \<Rightarrow> scanner \<Rightarrow> ('s server, scanner) gofun" where
  "scanner_Execute ev s =
     bindS Now (\<lambda>start.
     bindS (run_scannerTask ev (sc_task s) start) (\<lambda>count.
     bindS Now (\<lambda>fin.
     retS (s\<lparr>sc_cycles := sc_cycles s + 1, sc_jobs := sc_jobs s + count,
             sc_walltime := sc_walltime s + (fin - start)\<rparr>))))"

text \<open>The two reapers keep the number of what they reaped.\<close>

datatype Taskable = Scanner scanner | ReservationReaper int | BeatReaper int

definition reservationReaper_Execute :: "'s env \<Rightarrow> int \<Rightarrow> ('s server, int) gofun" where
  "reservationReaper_Execute ev n =
     bindS Now (\<lambda>now.
     bindS (ReapExpiredJobs (e_fuel ev) (e_redis ev) (e_chains ev) now) (\<lambda>count. retS (n + count)))"

definition beatReaper_Execute :: "int \<Rightarrow> ('s server, int) gofun" where
  "beatReaper_Execute n =
     bindS Now (\<lambda>now.
     bindS (getS (\<lambda>st. reapHeartbeats (now - 60 * second) (wk st))) (\<lambda>((count, closed), w).
     bindS (modS (\<lambda>st. st\<lparr>wk := w, conn_closed := closed @ conn_closed st\<rparr>)) (\<lambda>_.
     retS (n + int count))))"

fun Execute :: "'s env \<Rightarrow> Taskable \<Rightarrow> ('s server, Taskable) gofun" where
  "Execute ev (Scanner s) = bindS (scanner_Execute ev s) (\<lambda>s'. retS (Scanner s'))"
| "Execute ev (ReservationReaper n) = bindS (reservationReaper_Execute ev n) (\<lambda>n'. retS (ReservationReaper n'))"
| "Execute ev (BeatReaper n) = bindS (beatReaper_Execute n) (\<lambda>n'. retS (BeatReaper n'))"

section \<open>The runner\<close>

record task =
  runner :: Taskable
  every :: int
  runs :: int
  walltimeNs :: int

record taskRunner =
  tasks :: "task list"
  tr_walltimeNs :: int
  tr_cycles :: int
  tr_executions :: int

definition newTaskRunner :: taskRunner where
  "newTaskRunner = \<lparr>tasks = [], tr_walltimeNs = 0, tr_cycles = 0, tr_executions = 0\<rparr>"

definition AddTask :: "int \<Rightarrow> Taskable \<Rightarrow> taskRunner \<Rightarrow> taskRunner" where
  "AddTask sec thing ts = ts\<lparr>tasks := tasks ts @ [\<lparr>runner = thing, every = sec, runs = 0, walltimeNs = 0\<rparr>]\<rparr>"

text \<open>One task in a cycle: an error is logged, a panic ends the process.\<close>

definition run_task :: "'s env \<Rightarrow> task \<Rightarrow> ('s server, task) gofun" where
  "run_task ev t =
     bindS Now (\<lambda>tstart.
     bindS (tryS (Execute ev (runner t))) (\<lambda>r.
       case r of
         Panic p \<Rightarrow> panicS p
       | _ \<Rightarrow>
           bindS Now (\<lambda>tend.
           retS (t\<lparr>runner := (case r of Ok x \<Rightarrow> x | _ \<Rightarrow> runner t), runs := runs t + 1,
                   walltimeNs := walltimeNs t + (tend - tstart)\<rparr>))))"

fun cycle_loop :: "'s env \<Rightarrow> int \<Rightarrow> task list \<Rightarrow> ('s server, task list \<times> int) gofun" where
  "cycle_loop ev sec [] = retS ([], 0)"
| "cycle_loop ev sec (t # ts) =
     (if sec mod every t \<noteq> 0
      then bindS (cycle_loop ev sec ts) (\<lambda>(ts', count). retS (t # ts', count))
      else bindS (run_task ev t) (\<lambda>t'.
           bindS (cycle_loop ev sec ts) (\<lambda>(ts', count). retS (t' # ts', count + 1))))"

definition cycle :: "'s env \<Rightarrow> taskRunner \<Rightarrow> ('s server, taskRunner) gofun" where
  "cycle ev ts =
     bindS Now (\<lambda>start.
     bindS (cycle_loop ev (start div second) (tasks ts)) (\<lambda>(tasks', count).
     bindS Now (\<lambda>fin.
     retS (ts\<lparr>tasks := tasks', tr_cycles := tr_cycles ts + 1, tr_executions := tr_executions ts + count,
              tr_walltimeNs := tr_walltimeNs ts + (fin - start)\<rparr>))))"

definition new_scanner :: "string \<Rightarrow> string \<Rightarrow> scannerTask \<Rightarrow> Taskable" where
  "new_scanner name set_name f =
     Scanner \<lparr>sc_name = name, sc_task = f, sc_set = set_name, sc_jobs = 0, sc_cycles = 0, sc_walltime = 0\<rparr>"

definition startTasks :: taskRunner where
  "startTasks =
     AddTask 15 (BeatReaper 0)
       (AddTask 15 (ReservationReaper 0)
         (AddTask 60 (new_scanner ''Dead'' ''dead'' PurgeTask)
           (AddTask 5 (new_scanner ''Retries'' ''retries'' RetryTask)
             (AddTask 5 (new_scanner ''Scheduled'' ''scheduled'' EnqueueScheduledTask)
               newTaskRunner))))"

section \<open>Which tasks run\<close>

lemma run_task_counts:
  "run_task ev t st = (Ok t', st') \<Longrightarrow> runs t' = runs t + 1 \<and> every t' = every t"
  by (auto simp: run_task_def bindS_def retS_def panicS_def split: prod.splits gores.splits)

lemma cycle_loop_counts:
  "cycle_loop ev sec ts st = (Ok (ts', count), st') \<Longrightarrow>
   map every ts' = map every ts
   \<and> map runs ts' = map (\<lambda>t. if sec mod every t = 0 then runs t + 1 else runs t) ts
   \<and> count = int (length (filter (\<lambda>t. sec mod every t = 0) ts))"
proof (induction ts arbitrary: ts' count st)
  case (Cons t ts)
  then show ?case
    by (auto simp: bindS_def retS_def dest!: run_task_counts split: prod.splits gores.splits if_splits)
qed (simp add: retS_def)

section \<open>A scan moves what is due\<close>

text \<open>
  What a scanner of the scheduled set or of the retries does: entries that are due at \<open>t\<close> leave the set, all
  others stay, and each that left is in its queue, with a new \<open>enqueued_at\<close>.
\<close>

definition in_queue :: "string \<Rightarrow> (db, 'm) store_scheme \<Rightarrow> bool" where
  "in_queue p d \<longleftrightarrow> (\<exists>q. marshal_job ((job_of p)\<lparr>EnqueuedAt := q\<rparr>) \<in> set (queue_of (Queue (job_of p)) d))"

definition queues_grow :: "(db, 'm) store_scheme \<Rightarrow> (db, 'm) store_scheme \<Rightarrow> bool" where
  "queues_grow d d' \<longleftrightarrow> store_ok d' \<and> clock d' = clock d \<and> tick d \<le> tick d'
     \<and> (\<forall>k. queue_key k \<longrightarrow> (\<exists>new. queue_of k d' = queue_of k d @ new))"

definition scan_done :: "string \<Rightarrow> time \<Rightarrow> (db, 'm) store_scheme \<Rightarrow> (db, 'm) store_scheme \<Rightarrow> bool" where
  "scan_done n t d d' \<longleftrightarrow> queues_grow d d'
     \<and> zset_of n d' = filter (\<lambda>(m, x). time_f t < x) (zset_of n d)
     \<and> (\<forall>m \<in> set sset_names. m \<noteq> n \<longrightarrow> zset_of m d' = zset_of m d)
     \<and> (\<forall>(p, x) \<in> set (zset_of n d). x \<le> time_f t \<longrightarrow> in_queue p d')"

lemma queues_grow_refl [simp]: "store_ok d \<Longrightarrow> queues_grow d d"
  by (simp add: queues_grow_def)

lemma queues_grow_trans: "queues_grow a b \<Longrightarrow> queues_grow b c \<Longrightarrow> queues_grow a c"
  unfolding queues_grow_def by (metis append_assoc order_trans)

lemma queues_grow_enqueued:
  "store_ok d \<Longrightarrow> queue_key (Queue j) \<Longrightarrow> queues_grow d (enqueued j d)"
  by (simp add: queues_grow_def)

lemma in_queue_grow: "in_queue p d \<Longrightarrow> queues_grow d d' \<Longrightarrow> queue_key (Queue (job_of p)) \<Longrightarrow> in_queue p d'"
  unfolding in_queue_def queues_grow_def by (metis Un_iff set_append)

lemma queueable_job: "p \<in> queueable \<Longrightarrow> queue_key (Queue (job_of p))"
  by (auto simp: queueable_def job_of_def)

lemma fold_enqueue_grows:
  "store_ok d \<Longrightarrow> set due \<subseteq> queueable \<Longrightarrow>
   queues_grow d (fold enqueue_payload due d) \<and> (\<forall>p \<in> set due. in_queue p (fold enqueue_payload due d))
   \<and> (\<forall>m \<in> set sset_names. zset_of m (fold enqueue_payload due d) = zset_of m d)"
proof (induction due arbitrary: d)
  case (Cons p due)
  have qk: "queue_key (Queue (job_of p))" using Cons.prems by (simp add: queueable_job)
  let ?d = "enqueue_payload p d"
  have ok: "store_ok ?d" using Cons.prems(1) qk by simp
  have p: "in_queue p ?d" using qk by (auto simp: in_queue_def)
  from Cons.IH [OF ok] Cons.prems(2)
  have ih: "queues_grow ?d (fold enqueue_payload due ?d)" "\<forall>p \<in> set due. in_queue p (fold enqueue_payload due ?d)"
    "\<forall>m \<in> set sset_names. zset_of m (fold enqueue_payload due ?d) = zset_of m ?d"
    by simp_all
  show ?case
    using ih in_queue_grow [OF p ih(1) qk] queues_grow_trans [OF queues_grow_enqueued [OF Cons.prems(1) qk] ih(1)] qk
    by simp
qed simp

lemma put_sorted_grows:
  assumes "queues_grow d d'" "n \<in> set sset_names" "zset_ok z"
  shows "queues_grow d (put_sorted n z d')" "in_queue p d' \<Longrightarrow> queue_key (Queue (job_of p)) \<Longrightarrow> in_queue p (put_sorted n z d')"
proof -
  have q: "queue_of k (put_sorted n z d') = queue_of k d'" if "queue_key k" for k
    using that assms(2) by simp
  show "queues_grow d (put_sorted n z d')"
    using assms q by (simp add: queues_grow_def)
  show "in_queue p d' \<Longrightarrow> queue_key (Queue (job_of p)) \<Longrightarrow> in_queue p (put_sorted n z d')"
    using q by (simp add: in_queue_def)
qed

lemma scan_done_tick:
  "scan_done n t (d\<lparr>tick := i\<rparr>) d' \<Longrightarrow> tick d \<le> i \<Longrightarrow> scan_done n t d d'"
  "scan_done n t d d' \<Longrightarrow> tick d' \<le> j \<Longrightarrow> scan_done n t d (d'\<lparr>tick := j\<rparr>)"
  by (auto simp: scan_done_def queues_grow_def in_queue_def)

text \<open>What the scanners need of the state they start in.\<close>

definition scannable :: "('s \<Rightarrow> db) \<Rightarrow> ('s \<Rightarrow> bool) \<Rightarrow> nat \<Rightarrow> string \<Rightarrow> 's server \<Rightarrow> bool" where
  "scannable view healthy fuel n st \<longleftrightarrow>
     healthy (rs st) \<and> store_ok (sview view st) \<and> (\<forall>i. time_ok (clock st i))
     \<and> fst ` set (zset_of n (sview view st)) \<subseteq> queueable \<and> length (zset_of n (sview view st)) < 100 * fuel"

locale scanned_server = redis_server rd view healthy
  for rd :: "'s redis" and view :: "'s \<Rightarrow> db" and healthy :: "'s \<Rightarrow> bool" +
  fixes ev :: "'s env"
  assumes env_redis: "e_redis ev = rd"
begin

lemma scan_run:
  assumes "scannable view healthy (e_fuel ev) n st" "n \<in> {''scheduled'', ''retries''}" "t = clock st i"
  shows "\<exists>count st'. schedule (e_fuel ev) rd t n 0 st = (Ok count, st') \<and> healthy (rs st')
    \<and> scan_done n t (sview view st) (sview view st')"
proof -
  let ?d = "sview view st" and ?r = "schedule (e_fuel ev) rd t n 0 st"
  let ?z = "zset_of n ?d"
  define due where "due = map fst (filter (\<lambda>(m, x). x \<le> time_f t) ?z)"
  have n: "n \<in> set sset_names" using assms(2) by (auto simp: sset_names_def)
  have st: "healthy (rs st)" "store_ok ?d" "time_ok t" "fst ` set ?z \<subseteq> queueable" "length ?z < 100 * e_fuel ev"
    using assms(1,3) by (auto simp: scannable_def)
  have due: "set due \<subseteq> queueable" "length due < 100 * e_fuel ev"
    using st(4) le_less_trans [OF length_filter_le st(5)] by (auto simp: due_def)
  note run = schedule_run [OF redis_server_axioms st(1,2) assms(2) st(3) refl due_def due]
  note fe = fold_enqueue_grows [OF st(2) due(1)]
  let ?d' = "put_sorted n (filter (\<lambda>(m, x). time_f t < x) ?z) (fold enqueue_payload due ?d)"
  have zok: "zset_ok (filter (\<lambda>(m, x). time_f t < x) ?z)"
    using zset_of_ok [OF st(2), of n] by (auto simp: zset_ok_def sorted_wrt_filter distinct_map_filter)
  note grow = put_sorted_grows [OF conjunct1 [OF fe] n zok]
  have "in_queue p ?d'" if "(p, x) \<in> set ?z" "x \<le> time_f t" for p x
  proof -
    have "p \<in> set due" using that by (force simp: due_def)
    then show ?thesis using fe grow(2) due(1) by (meson queueable_job subsetD)
  qed
  then have "scan_done n t ?d ?d'"
    using grow(1) fe by (auto simp: scan_done_def)
  then show ?thesis
    using run by (cases ?r) auto
qed

lemma scanner_run:
  assumes "scannable view healthy (e_fuel ev) n st"
    and "(n, sc_task s) = (''scheduled'', EnqueueScheduledTask) \<or> (n, sc_task s) = (''retries'', RetryTask)"
  shows "\<exists>s' st'. scanner_Execute ev s st = (Ok s', st') \<and> sc_task s' = sc_task s \<and> healthy (rs st')
    \<and> scan_done n (clock st (tick st)) (sview view st) (sview view st')"
proof -
  let ?t = "clock st (tick st)" and ?st = "st\<lparr>tick := tick st + 1\<rparr>"
  have n: "n \<in> {''scheduled'', ''retries''}" using assms(2) by auto
  have "scannable view healthy (e_fuel ev) n ?st" using assms(1) by (simp add: scannable_def)
  from scan_run [OF this n, of ?t "tick st"] obtain count st1 where
    st1: "schedule (e_fuel ev) rd ?t n 0 ?st = (Ok count, st1)" "healthy (rs st1)"
      "scan_done n ?t ((sview view st)\<lparr>tick := tick st + 1\<rparr>) (sview view st1)"
    by auto
  let ?s = "st1\<lparr>tick := tick st1 + 1\<rparr>"
  have "run_scannerTask ev (sc_task s) ?t ?st = (Ok count, st1)"
    using st1(1) assms(2) env_redis by (auto simp: EnqueueScheduledJobs_def RetryJobs_def)
  then have "\<exists>s'. scanner_Execute ev s st = (Ok s', ?s) \<and> sc_task s' = sc_task s"
    by (simp add: scanner_Execute_def gosimps)
  moreover have "scan_done n ?t (sview view st) (sview view ?s)"
    using scan_done_tick(2) [OF scan_done_tick(1) [OF st1(3)], of "tick st1 + 1"] by simp
  ultimately show ?thesis using st1(2) by auto
qed

lemma scan_task_run:
  assumes "scannable view healthy (e_fuel ev) n st" "runner tk = Scanner s"
    and "(n, sc_task s) = (''scheduled'', EnqueueScheduledTask) \<or> (n, sc_task s) = (''retries'', RetryTask)"
  shows "\<exists>s' tk' st'. run_task ev tk st = (Ok tk', st') \<and> runner tk' = Scanner s' \<and> sc_task s' = sc_task s
    \<and> every tk' = every tk \<and> healthy (rs st')
    \<and> scan_done n (clock st (tick st + 1)) (sview view st) (sview view st')"
proof -
  let ?t = "clock st (tick st + 1)" and ?st = "st\<lparr>tick := tick st + 1\<rparr>"
  have "scannable view healthy (e_fuel ev) n ?st" using assms(1) by (simp add: scannable_def)
  from scanner_run [OF this assms(3)] obtain s' st1 where
    st1: "scanner_Execute ev s ?st = (Ok s', st1)" "sc_task s' = sc_task s" "healthy (rs st1)"
      "scan_done n ?t ((sview view st)\<lparr>tick := tick st + 1\<rparr>) (sview view st1)"
    by auto
  let ?s = "st1\<lparr>tick := tick st1 + 1\<rparr>"
  have "scan_done n ?t (sview view st) (sview view ?s)"
    using scan_done_tick(2) [OF scan_done_tick(1) [OF st1(4)], of "tick st1 + 1"] by simp
  with st1 show ?thesis
    using assms(2) by (simp add: run_task_def gosimps)
qed

end

text \<open>The tasks the server has, whatever their counters.\<close>

fun task_kind :: "Taskable \<Rightarrow> nat" where
  "task_kind (Scanner s) =
     (case sc_task s of EnqueueScheduledTask \<Rightarrow> 0 | RetryTask \<Rightarrow> 1 | PurgeTask \<Rightarrow> 2)"
| "task_kind (ReservationReaper n) = 3"
| "task_kind (BeatReaper n) = 4"

definition server_tasks :: "taskRunner \<Rightarrow> bool" where
  "server_tasks ts \<longleftrightarrow>
     map (\<lambda>t. (every t, task_kind (runner t))) (tasks ts) = [(5, 0), (5, 1), (60, 2), (15, 3), (15, 4)]"

lemma server_tasks_start: "server_tasks startTasks"
  by (simp add: server_tasks_def startTasks_def AddTask_def newTaskRunner_def new_scanner_def)

lemma task_kind_scanner:
  "task_kind r = 0 \<Longrightarrow> \<exists>s. r = Scanner s \<and> sc_task s = EnqueueScheduledTask"
  "task_kind r = 1 \<Longrightarrow> \<exists>s. r = Scanner s \<and> sc_task s = RetryTask"
  by (cases r; auto split: scannerTask.splits)+

lemma scan_done_fate:
  assumes "scan_done n t d d'" "(p, x) \<in> set (zset_of n d)"
  shows "x \<le> time_f t \<Longrightarrow> (p, x) \<notin> set (zset_of n d') \<and> in_queue p d'"
    "(p, x) \<in> set (zset_of n d') \<or> in_queue p d'"
  using assms by (auto simp: scan_done_def)

lemma scannable_after:
  assumes "scannable view healthy fuel n st" "scan_done m t (sview view st) (sview view st')" "healthy (rs st')"
    and "n \<in> set sset_names" "n \<noteq> m"
  shows "scannable view healthy fuel n st'"
proof -
  have "store_ok (sview view st')" "clock st' = clock st"
    using assms(2) by (auto simp: scan_done_def queues_grow_def)
  moreover have "zset_of n (sview view st') = zset_of n (sview view st)"
    using assms(2,4,5) by (simp add: scan_done_def)
  ultimately show ?thesis
    using assms(1,3) by (simp add: scannable_def)
qed

lemma time_f_later:
  "scannable view healthy fuel n st \<Longrightarrow> mono (clock st) \<Longrightarrow> i \<le> j \<Longrightarrow> time_f (clock st i) \<le> time_f (clock st j)"
  by (rule time_f_mono) (auto simp: scannable_def mono_def)

text \<open>The two scans of a cycle, one after the other.\<close>

lemma two_scans:
  assumes "redis_server rd view healthy" "e_redis ev = rd" "mono (clock st)"
    and "scannable view healthy (e_fuel ev) ''scheduled'' st" "scannable view healthy (e_fuel ev) ''retries'' st"
    and "task_kind (runner a) = 0" "task_kind (runner b) = 1"
  shows "\<exists>a' b' st1 st2 t1 t2. run_task ev a st = (Ok a', st1) \<and> run_task ev b st1 = (Ok b', st2)
    \<and> every a' = every a \<and> every b' = every b \<and> task_kind (runner a') = 0 \<and> task_kind (runner b') = 1
    \<and> scan_done ''scheduled'' t1 (sview view st) (sview view st1)
    \<and> scan_done ''retries'' t2 (sview view st1) (sview view st2)
    \<and> time_f (clock st (tick st)) \<le> time_f t1 \<and> time_f (clock st (tick st)) \<le> time_f t2"
proof -
  have sc: "scanned_server rd view healthy ev"
    using assms(1,2) by (simp add: scanned_server_def scanned_server_axioms_def)
  obtain s1 s2 where s: "runner a = Scanner s1" "sc_task s1 = EnqueueScheduledTask" "runner b = Scanner s2"
    "sc_task s2 = RetryTask"
    using task_kind_scanner assms(6,7) by meson
  obtain s1' a' st1 where r1: "run_task ev a st = (Ok a', st1)" "runner a' = Scanner s1'" "sc_task s1' = sc_task s1"
      "every a' = every a" "healthy (rs st1)"
      "scan_done ''scheduled'' (clock st (tick st + 1)) (sview view st) (sview view st1)"
    using scanned_server.scan_task_run [OF sc assms(4) s(1)] s(2) by auto
  have sc1: "scannable view healthy (e_fuel ev) ''retries'' st1"
    by (rule scannable_after [OF assms(5) r1(6,5)]) (simp_all add: sset_names_def)
  obtain s2' b' st2 where r2: "run_task ev b st1 = (Ok b', st2)" "runner b' = Scanner s2'" "sc_task s2' = sc_task s2"
      "every b' = every b" "scan_done ''retries'' (clock st1 (tick st1 + 1)) (sview view st1) (sview view st2)"
    using scanned_server.scan_task_run [OF sc sc1 s(3)] s(4) by auto
  have "clock st1 = clock st" "tick st \<le> tick st1"
    using r1(6) by (auto simp: scan_done_def queues_grow_def)
  then have "time_f (clock st (tick st)) \<le> time_f (clock st1 (tick st1 + 1))"
    "time_f (clock st (tick st)) \<le> time_f (clock st (tick st + 1))"
    using time_f_later [OF assms(4,3)] by simp_all
  with r1 r2 s show ?thesis by fastforce
qed

text \<open>
  C19: jobs start in time: at every fifth second at which no reaper runs, one cycle of the task runner returns
  and takes every job whose time has come out of the scheduled set and out of the retries and puts it into the
  queue it names; a job whose time has not come at the start of the cycle is still in its set, or has become
  due in the meantime and is in its queue; none is lost.  The runner has the same tasks afterwards.
\<close>

theorem cycle_starts_due_jobs:
  assumes "redis_server rd view healthy" "e_redis ev = rd" "mono (clock st)" "server_tasks ts"
    and "scannable view healthy (e_fuel ev) ''scheduled'' st" "scannable view healthy (e_fuel ev) ''retries'' st"
    and "now = clock st (tick st)" "(now div second) mod 5 = 0" "(now div second) mod 15 \<noteq> 0"
  shows "\<exists>ts' st'. cycle ev ts st = (Ok ts', st') \<and> server_tasks ts' \<and> store_ok (sview view st')
    \<and> (\<forall>n \<in> {''scheduled'', ''retries''}. \<forall>(p, x) \<in> set (zset_of n (sview view st)).
         (x \<le> time_f now \<longrightarrow> (p, x) \<notin> set (zset_of n (sview view st')) \<and> in_queue p (sview view st'))
         \<and> ((p, x) \<in> set (zset_of n (sview view st')) \<or> in_queue p (sview view st')))"
proof -
  obtain a b c d e where ts: "tasks ts = [a, b, c, d, e]" "every a = 5" "every b = 5" "every c = 60" "every d = 15"
    "every e = 15" "task_kind (runner a) = 0" "task_kind (runner b) = 1"
    "task_kind (runner c) = 2" "task_kind (runner d) = 3" "task_kind (runner e) = 4"
    using assms(4) by (auto simp: server_tasks_def map_eq_Cons_conv)
  let ?st = "st\<lparr>tick := tick st + 1\<rparr>" and ?d = "sview view st"
  have sc: "scannable view healthy (e_fuel ev) ''scheduled'' ?st" "scannable view healthy (e_fuel ev) ''retries'' ?st"
    using assms(5,6) by (simp_all add: scannable_def)
  obtain a' b' st1 st2 t1 t2 where r: "run_task ev a ?st = (Ok a', st1)" "run_task ev b st1 = (Ok b', st2)"
    "every a' = 5" "every b' = 5" "task_kind (runner a') = 0" "task_kind (runner b') = 1"
    "scan_done ''scheduled'' t1 (sview view ?st) (sview view st1)" "scan_done ''retries'' t2 (sview view st1) (sview view st2)"
    "time_f (clock st (tick st + 1)) \<le> time_f t1" "time_f (clock st (tick st + 1)) \<le> time_f t2"
    using two_scans [OF assms(1,2) _ sc ts(7,8)] assms(3) ts(2,3) by auto
  let ?s = "st2\<lparr>tick := tick st2 + 1\<rparr>"
  have "(now div second) mod 60 \<noteq> 0" using assms(9) dvd_trans [of "15 :: int" 60 "now div second"] by (auto simp: mod_eq_0_iff_dvd)
  then have run: "\<exists>ts'. cycle ev ts st = (Ok ts', ?s) \<and> server_tasks ts'"
    using assms(7-9) ts r(1-6) by (simp add: cycle_def gosimps server_tasks_def)
  have done1: "scan_done ''scheduled'' t1 ?d (sview view st1)" using scan_done_tick(1) [where d = ?d] r(7) by simp
  have done2: "scan_done ''retries'' t2 (sview view st1) (sview view ?s)" using scan_done_tick(2) [OF r(8)] by simp
  have now: "time_f now \<le> time_f t1" "time_f now \<le> time_f t2"
    using r(9,10) time_f_later [OF assms(5,3), of "tick st" "tick st + 1"] assms(7) by simp_all
  have z: "zset_of ''retries'' (sview view st1) = zset_of ''retries'' ?d"
    "zset_of ''scheduled'' (sview view ?s) = zset_of ''scheduled'' (sview view st1)"
    using done1 done2 by (simp_all add: scan_done_def sset_names_def)
  have grow: "queues_grow (sview view st1) (sview view ?s)" using done2 by (simp add: scan_done_def)
  have fate1: "(x \<le> time_f now \<longrightarrow> (p, x) \<notin> set (zset_of ''scheduled'' (sview view ?s)) \<and> in_queue p (sview view ?s))
       \<and> ((p, x) \<in> set (zset_of ''scheduled'' (sview view ?s)) \<or> in_queue p (sview view ?s))"
    if "(p, x) \<in> set (zset_of ''scheduled'' ?d)" for p x
  proof -
    have "queue_key (Queue (job_of p))"
      using assms(5) that by (force simp: scannable_def intro: queueable_job)
    then show ?thesis
      using scan_done_fate [OF done1 that] now(1) in_queue_grow [OF _ grow] z(2) by fastforce
  qed
  have fate2: "(x \<le> time_f now \<longrightarrow> (p, x) \<notin> set (zset_of ''retries'' (sview view ?s)) \<and> in_queue p (sview view ?s))
       \<and> ((p, x) \<in> set (zset_of ''retries'' (sview view ?s)) \<or> in_queue p (sview view ?s))"
    if "(p, x) \<in> set (zset_of ''retries'' ?d)" for p x
    using scan_done_fate [OF done2, of p x] that now(2) z(1) by fastforce
  have "store_ok (sview view ?s)" using grow by (simp add: queues_grow_def)
  moreover obtain ts' where "cycle ev ts st = (Ok ts', ?s)" "server_tasks ts'" using run by blast
  moreover have "(x \<le> time_f now \<longrightarrow> (p, x) \<notin> set (zset_of n (sview view ?s)) \<and> in_queue p (sview view ?s))
      \<and> ((p, x) \<in> set (zset_of n (sview view ?s)) \<or> in_queue p (sview view ?s))"
    if "n = ''scheduled'' \<or> n = ''retries''" "(p, x) \<in> set (zset_of n ?d)" for n p x
    using that fate1 [of p x] fate2 [of p x] by metis
  ultimately show ?thesis by blast
qed

interpretation sample_scan: scanned_server db_redis "\<lambda>d. d" "\<lambda>_. True" sample_env
  by unfold_locales (simp add: sample_env_def)

definition retry_server :: "db server" where
  "retry_server = put_sorted ''retries'' [(marshal_job sample_job, time_f sample_time)] (server_of empty_mgr newWorkers)"

lemma sample_clock_facts: "mono sample_clock" "time_ok (sample_clock i)"
proof -
  show "mono sample_clock" by (auto simp: mono_def sample_clock_def)
  have "modern_time (sample_clock i)" by (auto simp: modern_time_def sample_clock_def)
  then show "time_ok (sample_clock i)" by (rule modern_time_ok)
qed

theorem cycle_starts_due_jobs_witness:
  "\<exists>ts st. cycle sample_env startTasks retry_server = (Ok ts, st)
    \<and> (marshal_job sample_job, time_f sample_time) \<notin> set (zset_of ''retries'' st) \<and> in_queue (marshal_job sample_job) st"
proof -
  have st: "clock retry_server = sample_clock" "tick retry_server = 0" "store_ok retry_server"
    "zset_of ''retries'' retry_server = [(marshal_job sample_job, time_f sample_time)]"
    "zset_of ''scheduled'' retry_server = []"
    using empty_mgr_ok
    by (simp_all add: retry_server_def sset_names_def zset_ok_def) (simp_all add: empty_mgr_def)
  have sc: "scannable (\<lambda>d. d) (\<lambda>_. True) 1 n retry_server" if "n \<in> {''scheduled'', ''retries''}" for n
    using that st sample_clock_facts sample_queueable by (auto simp: scannable_def)
  have now: "sample_clock 0 = sample_time" "sample_clock 0 div second mod 5 = 0" "sample_clock 0 div second mod 15 \<noteq> 0"
    by (simp_all add: sample_clock_def sample_time_def)
  have ev: "e_redis sample_env = db_redis" "e_fuel sample_env = 1" by (simp_all add: sample_env_def)
  from cycle_starts_due_jobs [OF dbr.redis_server_axioms ev(1) _ server_tasks_start, of retry_server "sample_clock 0"]
  obtain ts st' where r: "cycle sample_env startTasks retry_server = (Ok ts, st')"
    "\<forall>n \<in> {''scheduled'', ''retries''}. \<forall>(p, x) \<in> set (zset_of n retry_server).
       x \<le> time_f sample_time \<longrightarrow> (p, x) \<notin> set (zset_of n st') \<and> in_queue p st'"
    using sc ev st sample_clock_facts(1) now by fastforce
  show ?thesis using r st by auto
qed

end
