(* ===== verification/MutateFacts.thy ===== *)
theory MutateFacts
  imports Mutate StoreProps
begin

text \<open>
  MUTATE on a Redis that keeps the documented guarantees of \<open>ZSCAN\<close>: a full iteration gives every element
  that is in the set from its start to its end, and no element that is not in the set when its page is
  read.  Elements may come twice, and pages may be empty.
\<close>

section \<open>The contract of ZSCAN\<close>

text \<open>
  The pages of an iteration with the states they were read in: \<open>scan_part\<close> of one that goes on,
  \<open>scan_full\<close> of one that has come to its end.
\<close>

fun scan_part :: "'s zscan \<Rightarrow> string \<Rightarrow> string \<Rightarrow> nat \<Rightarrow> ('s \<times> (string \<times> rat) list) list \<Rightarrow> bool" where
  "scan_part zs n pat c [] = True"
| "scan_part zs n pat c ((s, page) # tr) =
     (case fst (zs n c pat s) of Ok (pg, c') \<Rightarrow> pg = page \<and> c' \<noteq> 0 \<and> scan_part zs n pat c' tr | _ \<Rightarrow> False)"

fun scan_full :: "'s zscan \<Rightarrow> string \<Rightarrow> string \<Rightarrow> nat \<Rightarrow> ('s \<times> (string \<times> rat) list) list \<Rightarrow> bool" where
  "scan_full zs n pat c [] = False"
| "scan_full zs n pat c ((s, page) # tr) =
     (case fst (zs n c pat s) of
        Ok (pg, c') \<Rightarrow> pg = page \<and> (if c' = 0 then tr = [] else scan_full zs n pat c' tr) | _ \<Rightarrow> False)"

definition members :: "string \<Rightarrow> db \<Rightarrow> string set" where
  "members n d = (case get_zset n d of Ok z \<Rightarrow> fst ` set z | _ \<Rightarrow> {})"

locale zscan_server =
  fixes zs :: "'s zscan" and glob :: "string \<Rightarrow> string \<Rightarrow> bool" and view :: "'s \<Rightarrow> db"
    and healthy :: "'s \<Rightarrow> bool" and pages :: nat
  assumes scan_page: "healthy s \<Longrightarrow> get_zset n (view s) = Ok z \<Longrightarrow>
      \<exists>page c' s'. zs n c pat s = (Ok (page, c'), s') \<and> view s' = view s \<and> healthy s'
        \<and> set page \<subseteq> {(m, x) \<in> set z. glob pat m}"
    and scan_ends: "scan_part zs n pat 0 tr \<Longrightarrow> length tr \<le> pages"
    and scan_complete: "scan_full zs n pat 0 tr \<Longrightarrow> \<forall>(s, page) \<in> set tr. healthy s \<and> m \<in> members n (view s) \<Longrightarrow>
      glob pat m \<Longrightarrow> \<exists>(s, page) \<in> set tr. m \<in> fst ` set page"

section \<open>Discarding while scanning\<close>

text \<open>The state with the members of \<open>r\<close> taken out of a sorted set.\<close>

definition without :: "string \<Rightarrow> string set \<Rightarrow> (db, 'm) store_scheme \<Rightarrow> (db, 'm) store_scheme" where
  "without n r d = put_sorted n (filter (\<lambda>(m, x). m \<notin> r) (zset_of n d)) d"

lemma zset_ok_filter: "zset_ok z \<Longrightarrow> zset_ok (filter (\<lambda>(m, x). m \<notin> r) z)"
  by (auto simp: zset_ok_def sorted_wrt_filter distinct_map_filter)

lemma without_facts:
  assumes "store_ok d" "n \<in> set sset_names"
  shows "store_ok (without n r d)" "zset_of n (without n r d) = filter (\<lambda>(m, x). m \<notin> r) (zset_of n d)"
    "without n r' (without n r d) = without n (r \<union> r') d" "without n {} d = d"
proof -
  show "store_ok (without n r d)"
    using assms zset_of_ok [OF assms(1), of n] by (simp add: without_def zset_ok_filter)
  show "zset_of n (without n r d) = filter (\<lambda>(m, x). m \<notin> r) (zset_of n d)"
    by (simp add: without_def)
  have "filter (\<lambda>(m, x). m \<notin> r') (filter (\<lambda>(m, x). m \<notin> r) (zset_of n d)) =
      filter (\<lambda>(m, x). m \<notin> r \<union> r') (zset_of n d)"
    by (auto intro!: filter_cong)
  then show "without n r' (without n r d) = without n (r \<union> r') d"
    by (simp add: without_def)
  show "without n {} d = d"
    using put_sorted_same [OF assms] by (simp add: without_def case_prod_unfold)
qed

lemma RemoveEntry_db:
  assumes "store_ok d" "n \<in> set sset_names"
  shows "RemoveEntry db_redis n (NewEntry x m) d = (Ok (), without n {m} d)"
proof -
  have "zrem_m m (zset_of n d) = filter (\<lambda>(m', x). m' \<notin> {m}) (zset_of n d)"
    by (auto simp: zrem_m_def intro!: filter_cong)
  then show ?thesis
    using call_zrem [OF get_zset_of [OF assms], of m]
    by (simp add: RemoveEntry_def gosimps NewEntry_def without_def put_sorted_def void_def)
qed

lemma members_sview:
  "store_ok (sview view st) \<Longrightarrow> n \<in> set sset_names \<Longrightarrow>
   members n (view (rs st)) = fst ` set (zset_of n (sview view st))"
  using get_zset_of [of "sview view st" n] by (simp add: members_def)

lemma members_without: "fst ` set (filter (\<lambda>(m, x). m \<notin> r) z) = fst ` set z - r"
  by force

text \<open>The members a test takes out of the pages of an iteration.\<close>

definition hits :: "(string \<Rightarrow> bool) \<Rightarrow> ('s \<times> (string \<times> rat) list) list \<Rightarrow> string set" where
  "hits fn tr = (\<Union>(s, page) \<in> set tr. {m \<in> fst ` set page. fn m})"

lemma hits_simps [simp]: "hits fn [] = {}" "hits fn ((s, page) # tr) = {m \<in> fst ` set page. fn m} \<union> hits fn tr"
  by (auto simp: hits_def)

abbreviation discard_fn :: "'s redis \<Rightarrow> string \<Rightarrow> (string \<Rightarrow> bool) \<Rightarrow> nat \<Rightarrow> setEntry \<Rightarrow> (('s, 'm) store_scheme, unit) gofun" where
  "discard_fn rd n fn \<equiv> (\<lambda>_ ent. if fn (entry_value ent) then RemoveEntry rd n ent else retS ())"

locale mutable_server = redis_server rd view healthy + zscan_server zs glob view healthy pages
  for rd :: "'s redis" and view :: "'s \<Rightarrow> db" and healthy :: "'s \<Rightarrow> bool" and zs :: "'s zscan"
    and glob :: "string \<Rightarrow> string \<Rightarrow> bool" and pages :: nat
begin

lemma discard_page:
  assumes "n \<in> set sset_names"
  shows "healthy (rs st) \<Longrightarrow> store_ok (sview view st) \<Longrightarrow>
    \<exists>st'. for_idx (\<lambda>i (m, x). discard_fn rd n fn i (NewEntry x m)) i page st = (Ok (), st') \<and> healthy (rs st')
      \<and> sview view st' = without n {m \<in> fst ` set page. fn m} (sview view st)"
proof (induction page arbitrary: i st)
  case Nil
  then show ?case using without_facts(4) [OF Nil.prems(2) assms] by (simp add: retS_def)
next
  case (Cons e page)
  obtain m x where e: "e = (m, x)" by fastforce
  let ?r = "if fn m then {m} else {}"
  have "\<exists>s1. discard_fn rd n fn i (NewEntry x m) st = (Ok (), s1) \<and> healthy (rs s1)
      \<and> sview view s1 = without n ?r (sview view st)"
  proof (cases "fn m")
    case True
    with simD [OF RemoveEntry_sim Cons.prems(1), of n "NewEntry x m"] RemoveEntry_db [OF Cons.prems(2) assms, of x m]
    show ?thesis
      by (cases "RemoveEntry rd n (NewEntry x m) st") (auto simp: NewEntry_def)
  next
    case False
    then show ?thesis
      using Cons.prems without_facts(4) [OF Cons.prems(2) assms] by (simp add: retS_def NewEntry_def)
  qed
  then obtain s1 where s1: "discard_fn rd n fn i (NewEntry x m) st = (Ok (), s1)" "healthy (rs s1)"
    "sview view s1 = without n ?r (sview view st)" by blast
  have "store_ok (sview view s1)" using s1(3) without_facts(1) [OF Cons.prems(2) assms] by simp
  from Cons.IH [OF s1(2) this, of "Suc i"] obtain s2 where
    s2: "for_idx (\<lambda>i (m, x). discard_fn rd n fn i (NewEntry x m)) (Suc i) page s1 = (Ok (), s2)" "healthy (rs s2)"
    "sview view s2 = without n {m \<in> fst ` set page. fn m} (sview view s1)" by blast
  have "?r \<union> {m \<in> fst ` set page. fn m} = {m \<in> fst ` set (e # page). fn m}"
    by (auto simp: e)
  then have "sview view s2 = without n {m \<in> fst ` set (e # page). fn m} (sview view st)"
    using s1(3) s2(3) without_facts(3) [OF Cons.prems(2) assms, of "{m \<in> fst ` set page. fn m}" ?r] by simp
  with s1(1) s2(1,2) show ?case
    by (simp add: e bindS_def)
qed

lemma discard_loop:
  assumes "n \<in> set sset_names"
  shows "healthy (rs st) \<Longrightarrow> store_ok (sview view st) \<Longrightarrow>
    (\<exists>st' tr. find_loop f zs n pat c idx (discard_fn rd n fn) st = (Ok (), st') \<and> healthy (rs st')
       \<and> scan_full zs n pat c tr \<and> sview view st' = without n (hits fn tr) (sview view st)
       \<and> (\<forall>(s, page) \<in> set tr. healthy s \<and> members n (view (rs st)) - hits fn tr \<subseteq> members n (view s)
            \<and> fst ` set page \<subseteq> {m \<in> members n (view (rs st)). glob pat m}))
    \<or> (\<exists>tr. scan_part zs n pat c tr \<and> length tr = f)"
proof (induction f arbitrary: c idx st)
  case (Suc f)
  let ?z = "zset_of n (sview view st)" and ?M = "members n (view (rs st))"
  have M: "?M = fst ` set ?z" by (rule members_sview [OF Suc.prems(2) assms])
  have gz: "get_zset n (view (rs st)) = Ok ?z"
    using get_zset_of [OF Suc.prems(2) assms] by simp
  from scan_page [OF Suc.prems(1) gz, of c pat] obtain page c' s' where
    p: "zs n c pat (rs st) = (Ok (page, c'), s')" "view s' = view (rs st)" "healthy s'"
    "set page \<subseteq> {(m, x) \<in> set ?z. glob pat m}" by blast
  let ?s1 = "st\<lparr>rs := s'\<rparr>" and ?P = "{m \<in> fst ` set page. fn m}"
  have call: "call (zs n c pat) st = (Ok (page, c'), ?s1)" using p(1) by (simp add: call_def)
  have v1: "sview view ?s1 = sview view st" using p(2) by (simp add: sview_def)
  have page_sub: "fst ` set page \<subseteq> {m \<in> ?M. glob pat m}" using p(4) by (force simp: M)
  obtain s2 where s2: "for_idx (\<lambda>i (m, x). discard_fn rd n fn i (NewEntry x m)) idx page ?s1 = (Ok (), s2)"
    "healthy (rs s2)" "sview view s2 = without n ?P (sview view st)"
    using discard_page [OF assms, of ?s1 fn idx page] p(3) Suc.prems(2) v1 by auto
  show ?case
  proof (cases "c' = 0")
    case True
    with call s2 p(1) page_sub Suc.prems(1) show ?thesis
      by (intro disjI1 exI [of _ s2] exI [of _ "[(rs st, page)]"]) (simp add: bindS_def retS_def)
  next
    case False
    have ok2: "store_ok (sview view s2)" using s2(3) without_facts(1) [OF Suc.prems(2) assms] by simp
    have M2: "members n (view (rs s2)) = ?M - ?P"
      unfolding members_sview [OF ok2 assms] s2(3) without_facts(2) [OF Suc.prems(2) assms] M members_without ..
    from Suc.IH [OF s2(2) ok2, of c' "idx + length page"] show ?thesis
    proof (elim disjE exE conjE)
      fix st' tr
      assume t: "find_loop f zs n pat c' (idx + length page) (discard_fn rd n fn) s2 = (Ok (), st')" "healthy (rs st')"
        "scan_full zs n pat c' tr" "sview view st' = without n (hits fn tr) (sview view s2)"
        "\<forall>(s, page) \<in> set tr. healthy s \<and> members n (view (rs s2)) - hits fn tr \<subseteq> members n (view s)
            \<and> fst ` set page \<subseteq> {m \<in> members n (view (rs s2)). glob pat m}"
      let ?tr = "(rs st, page) # tr"
      have "sview view st' = without n (hits fn ?tr) (sview view st)"
        using t(4) s2(3) without_facts(3) [OF Suc.prems(2) assms] by simp
      moreover have "\<forall>(s, page) \<in> set ?tr. healthy s \<and> ?M - hits fn ?tr \<subseteq> members n (view s)
            \<and> fst ` set page \<subseteq> {m \<in> ?M. glob pat m}"
        using t(5) page_sub Suc.prems(1) unfolding M2 by fastforce
      moreover have "scan_full zs n pat c ?tr" using t(3) p(1) False by simp
      moreover have "find_loop (Suc f) zs n pat c idx (discard_fn rd n fn) st = (Ok (), st')"
        using call s2(1) t(1) False by (simp add: bindS_def)
      ultimately show ?thesis using t(2) by blast
    next
      fix tr assume "scan_part zs n pat c' tr" "length tr = f"
      then show ?thesis
        using p(1) False by (intro disjI2 exI [of _ "(rs st, page) # tr"]) simp
    qed
  qed
qed simp

lemma discard_run:
  assumes "n \<in> set sset_names" "healthy (rs st)" "store_ok (sview view st)" "pages < fuel"
  shows "\<exists>st'. Find fuel zs n pat (discard_fn rd n fn) st = (Ok (), st')
    \<and> sview view st' = without n {m. glob pat m \<and> fn m} (sview view st)"
proof -
  let ?M = "members n (view (rs st))"
  have "\<not> (\<exists>tr. scan_part zs n pat 0 tr \<and> length tr = fuel)"
    using scan_ends [of n pat] assms(4) by (metis leD)
  then obtain st' tr where t: "find_loop fuel zs n pat 0 0 (discard_fn rd n fn) st = (Ok (), st')"
    "scan_full zs n pat 0 tr" "sview view st' = without n (hits fn tr) (sview view st)"
    "\<forall>(s, page) \<in> set tr. healthy s \<and> ?M - hits fn tr \<subseteq> members n (view s)
            \<and> fst ` set page \<subseteq> {m \<in> ?M. glob pat m}"
    using discard_loop [OF assms(1-3), of fuel pat 0 0 fn] by blast
  have "m \<in> hits fn tr" if m: "m \<in> ?M" "glob pat m" "fn m" for m
  proof (rule ccontr)
    assume "m \<notin> hits fn tr"
    with t(4) m(1) have "\<forall>(s, page) \<in> set tr. healthy s \<and> m \<in> members n (view s)" by fastforce
    from scan_complete [OF t(2) this m(2)] have "m \<in> hits fn tr"
      using m(3) by (auto simp: hits_def)
    with \<open>m \<notin> hits fn tr\<close> show False ..
  qed
  moreover have "hits fn tr \<subseteq> {m \<in> ?M. glob pat m \<and> fn m}"
    using t(4) by (fastforce simp: hits_def)
  ultimately have "filter (\<lambda>(m, x). m \<notin> hits fn tr) (zset_of n (sview view st)) =
      filter (\<lambda>(m, x). m \<notin> {m. glob pat m \<and> fn m}) (zset_of n (sview view st))"
    using members_sview [OF assms(3,1)] by (intro filter_cong refl) force
  then show ?thesis
    using t(1,3) by (simp add: Find_def without_def)
qed

end

section \<open>A reference for ZSCAN\<close>

text \<open>
  The keyspace scanned in \<open>k\<close> buckets, by the length of the member: the cursor is the bucket, as it is in
  the hash tables of Redis.
\<close>

definition db_zscan :: "nat \<Rightarrow> (string \<Rightarrow> string \<Rightarrow> bool) \<Rightarrow> db zscan" where
  "db_zscan k glob n c pat d =
     (case get_zset n d of
        Ok z \<Rightarrow> (Ok (filter (\<lambda>(m, x). glob pat m \<and> length m mod k = c) z, if c + 1 < k then c + 1 else 0), d)
      | Err e \<Rightarrow> (Err e, d)
      | Panic p \<Rightarrow> (Panic p, d))"

lemma db_zscan_fst: "fst (db_zscan k glob n c pat d) =
     (case get_zset n d of
        Ok z \<Rightarrow> Ok (filter (\<lambda>(m, x). glob pat m \<and> length m mod k = c) z, if c + 1 < k then c + 1 else 0)
      | Err e \<Rightarrow> Err e | Panic p \<Rightarrow> Panic p)"
  by (simp add: db_zscan_def split: gores.split)

lemma db_zscan_part: "scan_part (db_zscan k glob) n pat c tr \<Longrightarrow> tr = [] \<or> c + length tr < k"
proof (induction tr arbitrary: c)
  case (Cons e tr)
  obtain s page where e: "e = (s, page)" by fastforce
  from Cons.prems have "c + 1 < k \<and> scan_part (db_zscan k glob) n pat (c + 1) tr"
    by (auto simp: e db_zscan_fst split: gores.splits if_splits)
  with Cons.IH [of "c + 1"] show ?case by auto
qed simp

lemma db_zscan_full:
  "scan_full (db_zscan k glob) n pat c tr \<Longrightarrow> \<forall>(s, page) \<in> set tr. m \<in> members n s \<Longrightarrow> glob pat m \<Longrightarrow>
   c \<le> length m mod k \<Longrightarrow> 0 < k \<Longrightarrow> \<exists>(s, page) \<in> set tr. m \<in> fst ` set page"
proof (induction tr arbitrary: c)
  case (Cons e tr)
  obtain s page where e: "e = (s, page)" by fastforce
  obtain z where z: "get_zset n s = Ok z" "m \<in> fst ` set z"
    using Cons.prems(2) by (auto simp: e members_def split: gores.splits)
  have page: "page = filter (\<lambda>(m, x). glob pat m \<and> length m mod k = c) z"
    and rest: "if c + 1 < k then scan_full (db_zscan k glob) n pat (c + 1) tr else tr = []"
    using Cons.prems(1) z(1) by (auto simp: e db_zscan_fst split: if_splits)
  show ?case
  proof (cases "length m mod k = c")
    case True
    with z(2) Cons.prems(3) have "m \<in> fst ` set page" by (force simp: page)
    then show ?thesis by (simp add: e)
  next
    case False
    then have "c + 1 \<le> length m mod k" using Cons.prems(4) by simp
    moreover from this have "c + 1 < k" using mod_less_divisor [OF Cons.prems(5), of "length m"] by linarith
    ultimately show ?thesis
      using Cons.IH [of "c + 1"] Cons.prems rest by (auto simp: e)
  qed
qed simp

lemma db_zscan_server: "0 < k \<Longrightarrow> zscan_server (db_zscan k glob) glob (\<lambda>d. d) (\<lambda>_. True) k"
proof
  fix n pat tr assume "scan_part (db_zscan k glob) n pat 0 tr"
  then show "length tr \<le> k" using db_zscan_part by fastforce
next
  fix n pat tr m
  assume "0 < k" "scan_full (db_zscan k glob) n pat 0 tr" "\<forall>(s, page) \<in> set tr. True \<and> m \<in> members n s" "glob pat m"
  then show "\<exists>(s, page) \<in> set tr. m \<in> fst ` set page"
    using db_zscan_full [of k glob n pat 0 tr m] by simp
qed (auto simp: db_zscan_def)

text \<open>A part of the patterns of Redis: a text between two asterisks, which may be empty.\<close>

definition simple_glob :: "string \<Rightarrow> string \<Rightarrow> bool" where
  "simple_glob pat s \<longleftrightarrow> pat = ''*'' \<or> 0 \<le> str_index s (butlast (tl pat))"

interpretation dbz: zscan_server "db_zscan 2 simple_glob" simple_glob "\<lambda>d. d" "\<lambda>_. True" 2
  by (rule db_zscan_server) simp

interpretation dbs: mutable_server db_redis "\<lambda>d. d" "\<lambda>_. True" "db_zscan 2 simple_glob" simple_glob 2
  by (intro mutable_server.intro dbr.redis_server_axioms dbz.zscan_server_axioms)

section \<open>MUTATE discard\<close>

lemma setForTarget_sset: "setForTarget t = Some n \<Longrightarrow> n \<in> set sset_names \<and> n = t"
  by (auto simp: setForTarget_def sset_names_def split: if_splits)


definition jid_operation :: "string \<Rightarrow> Operation" where
  "jid_operation jid = \<lparr>op_Cmd = ''discard'', op_Target = ''retries'',
     op_Filter = Some \<lparr>Jids = Some [jid], Regexp = [], Jobtype = []\<rparr>\<rparr>"


end
